(* ===== verification/Prelude.thy ===== *)
theory Prelude
  imports Complex_Main "HOL-Library.AList" "HOL-Library.Sublist"
begin

section \<open>Shared vocabulary of the dynamokv development\<close>

text \<open>
  Types, errors and Python primitives that every component uses: the exceptions the code raises as
  a datatype, Python dictionaries as association lists in insertion order, decimal printing of
  integers (f-strings and \<open>json.dumps\<close>), prefixes and splitting of strings, and the generic
  lemmas on lists and dictionaries the component theories share.

  Strings are lists of characters, a character standing for one code point below 256.
\<close>

named_theorems dict_simps \<open>lookups in updated Python dictionaries\<close>
named_theorems wf_intros \<open>well-formedness is kept by an operation\<close>

type_synonym node_id = string
type_synonym key = string
type_synonym url = string

subsection \<open>Exceptions\<close>

text \<open>
  The exceptions that the modelled code raises or lets through. \<open>HTTPException\<close> carries its status
  code; \<open>HTTPError\<close> is the base class of what \<open>httpx\<close> raises when a request gets no response.
\<close>

datatype py_error =
    RuntimeError
  | KeyError
  | IndexError
  | TypeError
  | AttributeError
  | ValueError
  | InvalidTag
  | HTTPError
  | FileNotFoundError
  | TimeoutError
  | ResourceNotFound
  | TimeoutExpired
  | SSLError
  | SystemExit nat
  | HTTPException nat

lemma map_sum_Inr_iff: "map_sum f g s = Inr y \<longleftrightarrow> (\<exists>x. s = Inr x \<and> y = g x)"
  by (cases s) auto

subsection \<open>Python dictionaries\<close>

text \<open>
  A dictionary is the list of its items in insertion order; \<open>d[k] = v\<close> replaces the value in place
  or appends the item, \<open>d.get(k)\<close> is \<^const>\<open>map_of\<close>, \<open>del d[k]\<close> removes the item.
\<close>

type_synonym ('k, 'v) dict = "('k \<times> 'v) list"

abbreviation dict_put :: "'k \<Rightarrow> 'v \<Rightarrow> ('k, 'v) dict \<Rightarrow> ('k, 'v) dict" where
  "dict_put \<equiv> AList.update"

abbreviation dict_del :: "'k \<Rightarrow> ('k, 'v) dict \<Rightarrow> ('k, 'v) dict" where
  "dict_del \<equiv> AList.delete"

abbreviation dict_ok :: "('k, 'v) dict \<Rightarrow> bool" where
  "dict_ok d \<equiv> distinct (map fst d)"

definition dict_get :: "('k, 'v) dict \<Rightarrow> 'k \<Rightarrow> 'v \<Rightarrow> 'v" where
  "dict_get d k z = (case map_of d k of None \<Rightarrow> z | Some v \<Rightarrow> v)"

lemma map_of_dict_put [dict_simps, simp]: "map_of (dict_put k v d) = (map_of d)(k \<mapsto> v)"
  by (simp add: AList.update_conv')

lemma map_of_dict_del [dict_simps, simp]: "map_of (dict_del k d) = (map_of d)(k := None)"
  by (simp add: AList.delete_conv')

lemma dict_get_put [dict_simps, simp]:
  "dict_get (dict_put k v d) k' z = (if k' = k then v else dict_get d k' z)"
  by (simp add: dict_get_def)

lemma dict_get_Nil [dict_simps, simp]: "dict_get [] k z = z"
  by (simp add: dict_get_def)

lemma dict_ok_put [wf_intros, intro]: "dict_ok d \<Longrightarrow> dict_ok (dict_put k v d)"
  by (rule AList.distinct_update)

lemma dict_ok_del [wf_intros, intro]: "dict_ok d \<Longrightarrow> dict_ok (dict_del k d)"
  by (rule AList.distinct_delete)

lemma dict_keys_put: "fst ` set (dict_put k v d) = insert k (fst ` set d)"
  using AList.dom_update [of k v d] by (simp add: dom_map_of_conv_image_fst)

lemma dict_put_not_Nil [simp]: "dict_put k v d \<noteq> []"
  by (cases d) auto

lemma dict_put_subset: "set (dict_put k v d) \<subseteq> insert (k, v) (set d)"
  by (induction d) auto

lemma dict_del_subset: "set (dict_del k d) \<subseteq> set d"
  by (auto simp: AList.delete_eq)

text \<open>Lookups stay lookups, also in dictionaries known to have distinct keys.\<close>

declare map_of_eq_Some_iff [simp del] Some_eq_map_of_iff [simp del]

lemma map_of_eq_iff_Nil: "d = [] \<longleftrightarrow> map_of d = Map.empty"
  by (cases d) auto

subsection \<open>Decimal numerals\<close>

definition digit_char :: "nat \<Rightarrow> char" where
  "digit_char d = char_of (48 + d)"

definition char_digit :: "char \<Rightarrow> nat" where
  "char_digit c = of_char c - 48"

definition is_digit :: "char \<Rightarrow> bool" where
  "is_digit c \<longleftrightarrow> 48 \<le> (of_char c :: nat) \<and> (of_char c :: nat) \<le> 57"

text \<open>The decimal text of a non-negative integer, as \<open>str(i)\<close> and f-strings print it.\<close>

fun dec_nat :: "nat \<Rightarrow> string" where
  "dec_nat n = (if n < 10 then [digit_char n] else dec_nat (n div 10) @ [digit_char (n mod 10)])"

declare dec_nat.simps [simp del]

definition undec :: "string \<Rightarrow> nat" where
  "undec s = foldl (\<lambda>n c. 10 * n + char_digit c) 0 s"

lemma of_char_digit_char: "d < 10 \<Longrightarrow> (of_char (digit_char d) :: nat) = 48 + d"
  by (simp add: digit_char_def)

lemma char_digit_digit_char [simp]: "d < 10 \<Longrightarrow> char_digit (digit_char d) = d"
  by (simp add: char_digit_def of_char_digit_char)

lemma is_digit_digit_char [simp]: "d < 10 \<Longrightarrow> is_digit (digit_char d)"
  by (simp add: is_digit_def of_char_digit_char)

lemma undec_append_digit [simp]: "undec (s @ [c]) = 10 * undec s + char_digit c"
  by (simp add: undec_def)

lemma undec_dec_nat [simp]: "undec (dec_nat n) = n"
proof (induction n rule: dec_nat.induct)
  case (1 n)
  show ?case
  proof (cases "n < 10")
    case True
    then show ?thesis by (subst dec_nat.simps) (simp add: undec_def)
  next
    case False
    with 1 show ?thesis by (subst dec_nat.simps) simp
  qed
qed

lemma dec_nat_inject [simp]: "dec_nat m = dec_nat n \<longleftrightarrow> m = n"
  by (metis undec_dec_nat)

lemma dec_nat_not_Nil [simp]: "dec_nat n \<noteq> []"
  by (subst dec_nat.simps) simp

lemma dec_nat_digits: "c \<in> set (dec_nat n) \<Longrightarrow> is_digit c"
proof (induction n rule: dec_nat.induct)
  case (1 n)
  show ?case
  proof (cases "n < 10")
    case True
    with "1.prems" show ?thesis by (subst (asm) dec_nat.simps) simp
  next
    case False
    with 1 show ?thesis by (subst (asm) dec_nat.simps) auto
  qed
qed

text \<open>No leading zero, except in the numeral of zero itself.\<close>

lemma hd_dec_nat: "0 < n \<Longrightarrow> hd (dec_nat n) \<noteq> digit_char 0"
proof (induction n rule: dec_nat.induct)
  case (1 n)
  show ?case
  proof (cases "n < 10")
    case True
    with "1.prems" show ?thesis
      by (subst dec_nat.simps) (simp, metis char_digit_digit_char less_numeral_extra(3) zero_less_numeral)
  next
    case False
    with 1 show ?thesis by (subst dec_nat.simps) (simp add: hd_append)
  qed
qed

lemma dec_nat_0 [simp]: "dec_nat 0 = [digit_char 0]"
  by (subst dec_nat.simps) simp

subsection \<open>Lists\<close>

lemma list_all_iff_ball [simp]: "list_all P xs \<longleftrightarrow> (\<forall>x \<in> set xs. P x)"
  by (rule list_all_iff)

lemma list_ex_iff_bex [simp]: "list_ex P xs \<longleftrightarrow> (\<exists>x \<in> set xs. P x)"
  by (rule list_ex_iff)

lemma takeWhile_stop: "(\<And>x. x \<in> set xs \<Longrightarrow> P x) \<Longrightarrow> \<not> P y \<Longrightarrow> takeWhile P (xs @ y # ys) = xs"
  by (induction xs) auto

lemma find_skip: "(\<And>x. x \<in> set xs \<Longrightarrow> \<not> P x) \<Longrightarrow> P y \<Longrightarrow> find P (xs @ y # ys) = Some y"
  by (induction xs) auto

text \<open>Two sublists of a list of distinct elements that are long enough together overlap.\<close>

lemma pigeonhole_overlap:
  assumes "distinct xs" "distinct ys" "distinct zs"
    and "set xs \<subseteq> set zs" "set ys \<subseteq> set zs"
    and "length zs < length xs + length ys"
  shows "set xs \<inter> set ys \<noteq> {}"
proof
  assume "set xs \<inter> set ys = {}"
  then have "card (set xs \<union> set ys) = length xs + length ys"
    using assms(1,2) by (simp add: card_Un_disjoint distinct_card)
  moreover have "card (set xs \<union> set ys) \<le> card (set zs)"
    using assms(4,5) by (intro card_mono) auto
  ultimately show False
    using assms(3,6) by (simp add: distinct_card)
qed

end
