(* ===== verification/Hash_Ring.thy ===== *)
theory Hash_Ring
  imports Prelude "HOL-Library.Word"
begin

section \<open>The consistent hash ring\<close>

text \<open>
  Models \<open>src/dynamokv/ring.py\<close>: the class \<open>HashRing\<close> with its dictionary from virtual points to
  nodes, the sorted list of points and the set of nodes, the operations \<open>add_node\<close>, \<open>remove_node\<close>,
  \<open>get_node\<close> and \<open>get_preference_list\<close>, and the standard library's \<open>bisect\<close> as the binary search it is.
  The BLAKE2b digest is the parameter \<open>D\<close>, any function from strings to bytes; \<open>point\<close> reads the
  digest as a big-endian integer. An exception raised half way through \<open>remove_node\<close> leaves the
  state it had reached, so that operation returns the state with the exception, if any.

  The lemmas show \<open>bisect\<close> correct, give the ring an invariant under which the dictionary and the
  list agree, and derive what routing needs: a key is owned by its clockwise successor, adding or
  removing a node moves only that node's keys, and preference lists are duplicate-free prefixes of
  one clockwise order. The locale \<open>placement\<close> is the part of this that replication relies on.
\<close>

subsection \<open>Binary search\<close>

text \<open>\<open>bisect.bisect_left\<close> and \<open>bisect.insort\<close> of the standard library, as its documentation describes them.\<close>

function bisect_left_loop :: "'a::linorder list \<Rightarrow> 'a \<Rightarrow> nat \<Rightarrow> nat \<Rightarrow> nat" where
  "bisect_left_loop a x lo hi =
     (if lo < hi then
        let mid = (lo + hi) div 2
        in if a ! mid < x then bisect_left_loop a x (mid + 1) hi else bisect_left_loop a x lo mid
      else lo)"
  by pat_completeness auto
termination
  by (relation "measure (\<lambda>(a, x, lo, hi). hi - lo)") auto

definition bisect_left :: "'a::linorder list \<Rightarrow> 'a \<Rightarrow> nat" where
  "bisect_left a x = bisect_left_loop a x 0 (length a)"

function bisect_right_loop :: "'a::linorder list \<Rightarrow> 'a \<Rightarrow> nat \<Rightarrow> nat \<Rightarrow> nat" where
  "bisect_right_loop a x lo hi =
     (if lo < hi then
        let mid = (lo + hi) div 2
        in if x < a ! mid then bisect_right_loop a x lo mid else bisect_right_loop a x (mid + 1) hi
      else lo)"
  by pat_completeness auto
termination
  by (relation "measure (\<lambda>(a, x, lo, hi). hi - lo)") auto

definition insort_right :: "'a::linorder list \<Rightarrow> 'a \<Rightarrow> 'a list" where
  "insort_right a x = (let i = bisect_right_loop a x 0 (length a) in take i a @ [x] @ drop i a)"

declare bisect_left_loop.simps [simp del] bisect_right_loop.simps [simp del]

text \<open>The loops keep the answer between \<open>lo\<close> and \<open>hi\<close>, for any split of the list at a predicate.\<close>

definition splits_at :: "('a \<Rightarrow> bool) \<Rightarrow> 'a list \<Rightarrow> nat \<Rightarrow> bool" where
  "splits_at P a i \<longleftrightarrow> i \<le> length a \<and> (\<forall>j < i. P (a ! j)) \<and> (\<forall>j. i \<le> j \<and> j < length a \<longrightarrow> \<not> P (a ! j))"

lemma bisect_left_loop_splits:
  assumes "sorted a" "lo \<le> hi" "hi \<le> length a"
    and "\<forall>j < lo. a ! j < x" "\<forall>j. hi \<le> j \<and> j < length a \<longrightarrow> x \<le> a ! j"
  shows "splits_at (\<lambda>y. y < x) a (bisect_left_loop a x lo hi)"
  using assms
proof (induction a x lo hi rule: bisect_left_loop.induct)
  case (1 a x lo hi)
  let ?mid = "(lo + hi) div 2"
  show ?case
  proof (cases "lo < hi")
    case False
    with "1.prems" show ?thesis
      by (subst bisect_left_loop.simps) (auto simp: splits_at_def not_less)
  next
    case True
    then have mid: "?mid < hi" "lo \<le> ?mid" by auto
    have upto: "\<And>j. j \<le> ?mid \<Longrightarrow> a ! j \<le> a ! ?mid"
      and beyond: "\<And>j. ?mid \<le> j \<Longrightarrow> j < length a \<Longrightarrow> a ! ?mid \<le> a ! j"
      using "1.prems"(1,3) mid by (auto intro: sorted_nth_mono)
    show ?thesis
    proof (cases "a ! ?mid < x")
      case less: True
      have "splits_at (\<lambda>y. y < x) a (bisect_left_loop a x (?mid + 1) hi)"
      proof (rule "1.IH"(1) [OF True refl less "1.prems"(1)])
        show "\<forall>j < ?mid + 1. a ! j < x"
          using upto less by (auto simp: less_Suc_eq_le intro: le_less_trans)
      qed (use "1.prems" mid in auto)
      with True less show ?thesis by (subst bisect_left_loop.simps) (simp add: Let_def)
    next
      case ge: False
      have "splits_at (\<lambda>y. y < x) a (bisect_left_loop a x lo ?mid)"
      proof (rule "1.IH"(2) [OF True refl ge "1.prems"(1)])
        show "\<forall>j. ?mid \<le> j \<and> j < length a \<longrightarrow> x \<le> a ! j"
          using beyond ge by (meson order_trans not_less)
      qed (use "1.prems" mid in auto)
      with True ge show ?thesis by (subst bisect_left_loop.simps) (simp add: Let_def)
    qed
  qed
qed

lemma bisect_right_loop_splits:
  assumes "sorted a" "lo \<le> hi" "hi \<le> length a"
    and "\<forall>j < lo. a ! j \<le> x" "\<forall>j. hi \<le> j \<and> j < length a \<longrightarrow> x < a ! j"
  shows "splits_at (\<lambda>y. y \<le> x) a (bisect_right_loop a x lo hi)"
  using assms
proof (induction a x lo hi rule: bisect_right_loop.induct)
  case (1 a x lo hi)
  let ?mid = "(lo + hi) div 2"
  show ?case
  proof (cases "lo < hi")
    case False
    with "1.prems" show ?thesis
      by (subst bisect_right_loop.simps) (auto simp: splits_at_def not_le)
  next
    case True
    then have mid: "?mid < hi" "lo \<le> ?mid" by auto
    have upto: "\<And>j. j \<le> ?mid \<Longrightarrow> a ! j \<le> a ! ?mid"
      and beyond: "\<And>j. ?mid \<le> j \<Longrightarrow> j < length a \<Longrightarrow> a ! ?mid \<le> a ! j"
      using "1.prems"(1,3) mid by (auto intro: sorted_nth_mono)
    show ?thesis
    proof (cases "x < a ! ?mid")
      case less: True
      have "splits_at (\<lambda>y. y \<le> x) a (bisect_right_loop a x lo ?mid)"
      proof (rule "1.IH"(1) [OF True refl less "1.prems"(1)])
        show "\<forall>j. ?mid \<le> j \<and> j < length a \<longrightarrow> x < a ! j"
          using beyond less by (meson less_le_trans)
      qed (use "1.prems" mid in auto)
      with True less show ?thesis by (subst bisect_right_loop.simps) (simp add: Let_def)
    next
      case ge: False
      have "splits_at (\<lambda>y. y \<le> x) a (bisect_right_loop a x (?mid + 1) hi)"
      proof (rule "1.IH"(2) [OF True refl ge "1.prems"(1)])
        show "\<forall>j < ?mid + 1. a ! j \<le> x"
          using upto ge by (auto simp: less_Suc_eq_le not_less intro: order_trans)
      qed (use "1.prems" mid in auto)
      with True ge show ?thesis by (subst bisect_right_loop.simps) (simp add: Let_def)
    qed
  qed
qed

lemma bisect_left_splits: "sorted a \<Longrightarrow> splits_at (\<lambda>y. y < x) a (bisect_left a x)"
  unfolding bisect_left_def by (rule bisect_left_loop_splits) auto

lemma splits_at_take: "splits_at P a i \<Longrightarrow> y \<in> set (take i a) \<Longrightarrow> P y"
  by (auto simp: splits_at_def in_set_conv_nth)

lemma splits_at_drop: "splits_at P a i \<Longrightarrow> y \<in> set (drop i a) \<Longrightarrow> \<not> P y"
  by (auto simp: splits_at_def in_set_conv_nth)

lemma set_insort_right [simp]: "set (insort_right a x) = insert x (set a)"
proof -
  have "set (take i a) \<union> set (drop i a) = set a" for i
    by (metis append_take_drop_id set_append)
  then show ?thesis by (auto simp: insort_right_def Let_def)
qed

lemma insort_right_splits:
  assumes "sorted a"
  shows "splits_at (\<lambda>y. y \<le> x) a (bisect_right_loop a x 0 (length a))"
  using assms by (rule bisect_right_loop_splits) auto

lemma sorted_insort_right: "sorted a \<Longrightarrow> sorted (insort_right a x)"
  using insort_right_splits [of a x] splits_at_take [of "\<lambda>y. y \<le> x" a] splits_at_drop [of "\<lambda>y. y \<le> x" a]
  by (fastforce simp: insort_right_def Let_def sorted_append sorted_wrt_drop sorted_wrt_take not_le
      intro: less_imp_le dest: in_set_takeD in_set_dropD)

lemma distinct_insort_right: "distinct a \<Longrightarrow> x \<notin> set a \<Longrightarrow> distinct (insort_right a x)"
  by (auto simp: insort_right_def Let_def dest: in_set_takeD in_set_dropD)
    (meson set_take_disj_set_drop_if_distinct disjoint_iff order_refl)

subsection \<open>The ring\<close>

record hash_ring =
  virtual_nodes :: int
  ring_map :: "(nat, node_id) dict"
  sorted_hashes :: "nat list"
  ring_nodes :: "node_id set"

text \<open>\<open>int.from_bytes(digest, "big")\<close> and the hash of a string.\<close>

definition from_bytes_big :: "8 word list \<Rightarrow> nat" where
  "from_bytes_big bs = foldl (\<lambda>n b. 256 * n + unat b) 0 bs"

definition hash_of :: "(string \<Rightarrow> 8 word list) \<Rightarrow> string \<Rightarrow> nat" where
  "hash_of D s = from_bytes_big (D s)"

text \<open>The point of virtual node \<open>i\<close>: the hash of \<open>f"{node_id}#{i}"\<close>.\<close>

definition vnode_label :: "node_id \<Rightarrow> nat \<Rightarrow> string" where
  "vnode_label n i = n @ ''#'' @ dec_nat i"

definition point :: "(string \<Rightarrow> 8 word list) \<Rightarrow> node_id \<Rightarrow> nat \<Rightarrow> nat" where
  "point D n i = hash_of D (vnode_label n i)"

abbreviation vnode_range :: "hash_ring \<Rightarrow> nat list" where
  "vnode_range r \<equiv> [0..<nat (virtual_nodes r)]"

fun add_points :: "(string \<Rightarrow> 8 word list) \<Rightarrow> node_id \<Rightarrow> nat list \<Rightarrow> hash_ring \<Rightarrow> hash_ring" where
  "add_points D n [] r = r"
| "add_points D n (i # is) r =
     (let h = point D n i
      in add_points D n is
           (r\<lparr>ring_map := dict_put h n (ring_map r), sorted_hashes := insort_right (sorted_hashes r) h\<rparr>))"

definition add_node :: "(string \<Rightarrow> 8 word list) \<Rightarrow> node_id \<Rightarrow> hash_ring \<Rightarrow> hash_ring" where
  "add_node D n r =
     (if n \<in> ring_nodes r then r
      else add_points D n (vnode_range r) (r\<lparr>ring_nodes := insert n (ring_nodes r)\<rparr>))"

definition new_ring :: "(string \<Rightarrow> 8 word list) \<Rightarrow> node_id list \<Rightarrow> int \<Rightarrow> hash_ring" where
  "new_ring D ns vn =
     fold (add_node D) ns
       \<lparr>virtual_nodes = vn, ring_map = [], sorted_hashes = [], ring_nodes = {}\<rparr>"

fun remove_points ::
  "(string \<Rightarrow> 8 word list) \<Rightarrow> node_id \<Rightarrow> nat list \<Rightarrow> hash_ring \<Rightarrow> hash_ring \<times> py_error option" where
  "remove_points D n [] r = (r, None)"
| "remove_points D n (i # is) r =
     (let h = point D n i
      in if map_of (ring_map r) h = None then (r, Some KeyError)
         else
           let r1 = r\<lparr>ring_map := dict_del h (ring_map r)\<rparr>;
               idx = bisect_left (sorted_hashes r1) h
           in if length (sorted_hashes r1) \<le> idx then (r1, Some IndexError)
              else remove_points D n is
                     (r1\<lparr>sorted_hashes := take idx (sorted_hashes r1) @ drop (Suc idx) (sorted_hashes r1)\<rparr>))"

definition remove_node ::
  "(string \<Rightarrow> 8 word list) \<Rightarrow> node_id \<Rightarrow> hash_ring \<Rightarrow> hash_ring \<times> py_error option" where
  "remove_node D n r =
     (if n \<notin> ring_nodes r then (r, None)
      else remove_points D n (vnode_range r) (r\<lparr>ring_nodes := ring_nodes r - {n}\<rparr>))"

text \<open>The index both lookups start from: the first point at or after the key, wrapping to 0.\<close>

definition start_index :: "nat list \<Rightarrow> nat \<Rightarrow> nat" where
  "start_index hs h = (let idx = bisect_left hs h in if idx = length hs then 0 else idx)"

definition owner_at :: "hash_ring \<Rightarrow> nat \<Rightarrow> py_error + node_id" where
  "owner_at r h = (case map_of (ring_map r) h of None \<Rightarrow> Inl KeyError | Some n \<Rightarrow> Inr n)"

definition get_node :: "(string \<Rightarrow> 8 word list) \<Rightarrow> hash_ring \<Rightarrow> key \<Rightarrow> py_error + node_id" where
  "get_node D r k =
     (if sorted_hashes r = [] then Inl RuntimeError
      else owner_at r (sorted_hashes r ! start_index (sorted_hashes r) (hash_of D k)))"

text \<open>
  The clockwise walk of \<open>get_preference_list\<close>; the set \<open>seen\<close> of the code is the set of \<open>result\<close>.
  The loop stops when the result has exactly \<open>target\<close> elements, tested after each new element.
\<close>

fun pref_walk :: "hash_ring \<Rightarrow> nat \<Rightarrow> int \<Rightarrow> nat list \<Rightarrow> node_id list \<Rightarrow> py_error + node_id list" where
  "pref_walk r start target [] result = Inr result"
| "pref_walk r start target (i # is) result =
     (case owner_at r (sorted_hashes r ! ((start + i) mod length (sorted_hashes r))) of
        Inl e \<Rightarrow> Inl e
      | Inr n \<Rightarrow>
          if n \<notin> set result then
            let result' = result @ [n]
            in if int (length result') = target then Inr result'
               else pref_walk r start target is result'
          else pref_walk r start target is result)"

definition get_preference_list ::
  "(string \<Rightarrow> 8 word list) \<Rightarrow> hash_ring \<Rightarrow> key \<Rightarrow> int \<Rightarrow> py_error + node_id list" where
  "get_preference_list D r k n =
     (if sorted_hashes r = [] then Inl RuntimeError
      else
        let target = min n (int (card (ring_nodes r)));
            start = start_index (sorted_hashes r) (hash_of D k)
        in pref_walk r start target [0..<length (sorted_hashes r)] [])"

text \<open>The points for display: \<open>h / 2**64\<close>, with real division, and the owner.\<close>

fun position_list :: "hash_ring \<Rightarrow> nat list \<Rightarrow> py_error + (real \<times> node_id) list" where
  "position_list r [] = Inr []"
| "position_list r (h # hs) =
     (case owner_at r h of
        Inl e \<Rightarrow> Inl e
      | Inr n \<Rightarrow> map_sum id ((#) (real h / 2 ^ 64, n)) (position_list r hs))"

definition sorted_points :: "hash_ring \<Rightarrow> py_error + (real \<times> node_id) list" where
  "sorted_points r = position_list r (sorted_hashes r)"

subsection \<open>Labels and points\<close>

lemma hash_not_digit: "\<not> is_digit (CHR ''#'')"
  by (simp add: is_digit_def)

text \<open>Different virtual nodes have different labels, whatever characters the node ids contain.\<close>

lemma vnode_label_inject [simp]: "vnode_label m i = vnode_label n j \<longleftrightarrow> m = n \<and> i = j"
proof
  assume eq: "vnode_label m i = vnode_label n j"
  have tw: "takeWhile is_digit (rev (vnode_label m i)) = rev (dec_nat i)" for m i
    using takeWhile_stop [of "rev (dec_nat i)" is_digit "CHR ''#''" "rev m"]
    by (simp add: vnode_label_def dec_nat_digits hash_not_digit)
  from eq have "rev (dec_nat i) = rev (dec_nat j)" by (metis tw)
  with eq show "m = n \<and> i = j" by (simp add: vnode_label_def)
qed simp

lemma from_bytes_big_bound_aux:
  "foldl (\<lambda>n b. 256 * n + unat b) k (bs :: 8 word list) < (k + 1) * 256 ^ length bs"
proof (induction bs arbitrary: k)
  case (Cons b bs)
  have "unat b < 256" using unsigned_less [of b, where ?'a = nat] by simp
  have "foldl (\<lambda>n b. 256 * n + unat b) (256 * k + unat b) bs
      < (256 * k + unat b + 1) * 256 ^ length bs"
    by (rule Cons.IH)
  also have "\<dots> \<le> (256 * (k + 1)) * 256 ^ length bs"
    using \<open>unat b < 256\<close> by (intro mult_right_mono) auto
  finally show ?case by (simp add: algebra_simps)
qed simp

lemma hash_of_bound: "length (D s) = 8 \<Longrightarrow> hash_of D s < 2 ^ 64"
  using from_bytes_big_bound_aux [of 0 "D s"] by (simp add: hash_of_def from_bytes_big_def)

text \<open>The virtual points of a set of nodes do not collide.\<close>

definition collision_free :: "(string \<Rightarrow> 8 word list) \<Rightarrow> int \<Rightarrow> node_id set \<Rightarrow> bool" where
  "collision_free D vn ns \<longleftrightarrow> inj_on (\<lambda>(n, i). point D n i) (ns \<times> {0..<nat vn})"

lemma collision_freeD:
  "collision_free D vn ns \<Longrightarrow> point D m i = point D n j \<Longrightarrow> m \<in> ns \<Longrightarrow> n \<in> ns \<Longrightarrow>
     i < nat vn \<Longrightarrow> j < nat vn \<Longrightarrow> m = n \<and> i = j"
  unfolding collision_free_def inj_on_def by fastforce

lemma collision_free_subset: "collision_free D vn ns \<Longrightarrow> ms \<subseteq> ns \<Longrightarrow> collision_free D vn ms"
  unfolding collision_free_def by (erule inj_on_subset) auto

subsection \<open>The ring invariant\<close>

text \<open>
  The dictionary maps exactly the points of the member nodes to their owners, and the list holds
  exactly those points, sorted and without duplicates.
\<close>

definition ring_agrees :: "hash_ring \<Rightarrow> bool" where
  "ring_agrees r \<longleftrightarrow> sorted (sorted_hashes r) \<and> distinct (sorted_hashes r) \<and>
     set (sorted_hashes r) = dom (map_of (ring_map r))"

definition ring_ok :: "(string \<Rightarrow> 8 word list) \<Rightarrow> hash_ring \<Rightarrow> bool" where
  "ring_ok D r \<longleftrightarrow> finite (ring_nodes r) \<and> 1 \<le> virtual_nodes r \<and> ring_agrees r \<and>
     collision_free D (virtual_nodes r) (ring_nodes r) \<and>
     (\<forall>h n. map_of (ring_map r) h = Some n \<longleftrightarrow>
        n \<in> ring_nodes r \<and> (\<exists>i < nat (virtual_nodes r). h = point D n i))"

lemma add_points_fields [simp]:
  "virtual_nodes (add_points D n is r) = virtual_nodes r"
  "ring_nodes (add_points D n is r) = ring_nodes r"
  by (induction "is" arbitrary: r) (simp_all add: Let_def)

lemma add_points_map:
  "map_of (ring_map (add_points D n is r)) h =
     (if \<exists>i \<in> set is. h = point D n i then Some n else map_of (ring_map r) h)"
  by (induction "is" arbitrary: r) (auto simp: Let_def)

lemma ring_agrees_add:
  "ring_agrees r \<Longrightarrow> h \<notin> dom (map_of (ring_map r)) \<Longrightarrow>
     ring_agrees (r\<lparr>ring_map := dict_put h n (ring_map r), sorted_hashes := insort_right (sorted_hashes r) h\<rparr>)"
  unfolding ring_agrees_def by (simp add: sorted_insort_right distinct_insort_right)

lemma ring_agrees_add_points:
  assumes "ring_agrees r" "distinct is" "inj_on (point D n) (set is)"
    and "\<forall>i \<in> set is. point D n i \<notin> dom (map_of (ring_map r))"
  shows "ring_agrees (add_points D n is r)"
  using assms
proof (induction "is" arbitrary: r)
  case Nil
  then show ?case by simp
next
  case (Cons i "is")
  let ?r = "r\<lparr>ring_map := dict_put (point D n i) n (ring_map r),
      sorted_hashes := insort_right (sorted_hashes r) (point D n i)\<rparr>"
  have agrees: "ring_agrees ?r" using Cons.prems by (intro ring_agrees_add) auto
  have fresh: "\<forall>j \<in> set is. point D n j \<notin> dom (map_of (ring_map ?r))"
    using Cons.prems by (auto simp: inj_on_def)
  have "ring_agrees (add_points D n is ?r)"
    by (rule Cons.IH [OF agrees _ _ fresh]) (use Cons.prems in simp_all)
  then show ?case by (simp add: Let_def)
qed

lemma add_node_fields [simp]:
  "virtual_nodes (add_node D n r) = virtual_nodes r"
  "ring_nodes (add_node D n r) = insert n (ring_nodes r)"
  by (auto simp: add_node_def)

lemma ring_ok_add_node [wf_intros]:
  assumes ok: "ring_ok D r" and cf: "collision_free D (virtual_nodes r) (insert n (ring_nodes r))"
  shows "ring_ok D (add_node D n r)"
proof (cases "n \<in> ring_nodes r")
  case True
  with ok show ?thesis by (simp add: add_node_def)
next
  case False
  let ?r = "r\<lparr>ring_nodes := insert n (ring_nodes r)\<rparr>"
  have agrees: "ring_agrees ?r" using ok by (simp add: ring_ok_def ring_agrees_def)
  have inj: "inj_on (point D n) (set (vnode_range r))"
    using collision_freeD [OF cf] by (auto intro!: inj_onI)
  have sep: "point D n i \<noteq> point D m j"
    if "m \<in> ring_nodes r" "i < nat (virtual_nodes r)" "j < nat (virtual_nodes r)" for m i j
    using that False collision_freeD [OF cf, of n i m j] by auto
  have fresh: "\<forall>i \<in> set (vnode_range r). point D n i \<notin> dom (map_of (ring_map ?r))"
    using ok sep by (fastforce simp: ring_ok_def)
  have "ring_agrees (add_node D n r)"
    using ring_agrees_add_points [OF agrees distinct_upt inj fresh] False by (simp add: add_node_def)
  moreover have "map_of (ring_map (add_node D n r)) h = Some m \<longleftrightarrow>
      m \<in> insert n (ring_nodes r) \<and> (\<exists>i < nat (virtual_nodes r). h = point D m i)" for h m
    using ok sep False by (auto simp: add_node_def add_points_map ring_ok_def)
  ultimately show ?thesis using ok cf by (simp add: ring_ok_def)
qed

subsection \<open>Removing a node\<close>

lemma bisect_left_member:
  assumes "sorted hs" "h \<in> set hs"
  shows "bisect_left hs h < length hs \<and> hs ! bisect_left hs h = h"
proof -
  have sp: "splits_at (\<lambda>y. y < h) hs (bisect_left hs h)"
    using assms(1) by (rule bisect_left_splits)
  obtain j where j: "j < length hs" "hs ! j = h"
    using assms(2) by (auto simp: in_set_conv_nth)
  with sp have le: "bisect_left hs h \<le> j" unfolding splits_at_def by (metis less_irrefl not_le)
  then have "hs ! bisect_left hs h \<le> h" using assms(1) j by (metis sorted_nth_mono)
  with sp le j show ?thesis unfolding splits_at_def by (metis le_less_trans not_le order_antisym order_refl)
qed

lemma pop_filter:
  "distinct hs \<Longrightarrow> i < length hs \<Longrightarrow>
     take i hs @ drop (Suc i) hs = filter (\<lambda>x. x \<noteq> hs ! i) hs"
proof (induction hs arbitrary: i)
  case (Cons x hs)
  then show ?case by (cases i) (auto simp: filter_id_conv intro!: filter_True [symmetric])
qed simp

lemma ring_agrees_pop:
  assumes "ring_agrees r" "map_of (ring_map r) h \<noteq> None"
  defines "idx \<equiv> bisect_left (sorted_hashes r) h"
  shows "idx < length (sorted_hashes r)"
    and "take idx (sorted_hashes r) @ drop (Suc idx) (sorted_hashes r)
      = filter (\<lambda>x. x \<noteq> h) (sorted_hashes r)"
    and "ring_agrees (r\<lparr>ring_map := dict_del h (ring_map r),
      sorted_hashes := filter (\<lambda>x. x \<noteq> h) (sorted_hashes r)\<rparr>)"
proof -
  have "h \<in> set (sorted_hashes r)" "sorted (sorted_hashes r)" "distinct (sorted_hashes r)"
    using assms(1,2) by (auto simp: ring_agrees_def)
  with bisect_left_member [of "sorted_hashes r" h]
  show "idx < length (sorted_hashes r)"
    and "take idx (sorted_hashes r) @ drop (Suc idx) (sorted_hashes r)
      = filter (\<lambda>x. x \<noteq> h) (sorted_hashes r)"
    using pop_filter [of "sorted_hashes r" idx] by (auto simp: idx_def)
qed (use assms(1) in \<open>auto simp: ring_agrees_def sorted_wrt_filter\<close>)

lemma remove_points_agrees:
  assumes "ring_agrees r" "distinct is" "inj_on (point D n) (set is)"
    and "\<forall>i \<in> set is. point D n i \<in> dom (map_of (ring_map r))"
  shows "\<exists>r'. remove_points D n is r = (r', None) \<and> ring_agrees r' \<and>
    virtual_nodes r' = virtual_nodes r \<and> ring_nodes r' = ring_nodes r \<and>
    map_of (ring_map r') = map_of (ring_map r) |` (- point D n ` set is)"
  using assms
proof (induction "is" arbitrary: r)
  case Nil
  then show ?case by simp
next
  case (Cons i "is")
  let ?h = "point D n i"
  let ?r = "r\<lparr>ring_map := dict_del ?h (ring_map r),
      sorted_hashes := filter (\<lambda>x. x \<noteq> ?h) (sorted_hashes r)\<rparr>"
  have h: "map_of (ring_map r) ?h \<noteq> None" using Cons.prems(4) by (auto simp: domIff)
  note pop = ring_agrees_pop [OF Cons.prems(1) h]
  have stays: "\<forall>j \<in> set is. point D n j \<in> dom (map_of (ring_map ?r))"
    using Cons.prems by (auto simp: inj_on_def)
  have "\<exists>r'. remove_points D n is ?r = (r', None) \<and> ring_agrees r' \<and>
      virtual_nodes r' = virtual_nodes ?r \<and> ring_nodes r' = ring_nodes ?r \<and>
      map_of (ring_map r') = map_of (ring_map ?r) |` (- point D n ` set is)"
    by (rule Cons.IH [OF pop(3) _ _ stays]) (use Cons.prems in simp_all)
  then obtain r' where r': "remove_points D n is ?r = (r', None)" "ring_agrees r'"
      "virtual_nodes r' = virtual_nodes ?r" "ring_nodes r' = ring_nodes ?r"
      "map_of (ring_map r') = map_of (ring_map ?r) |` (- point D n ` set is)"
    by blast
  have "remove_points D n (i # is) r = (r', None)"
    using h pop(1,2) r'(1) by (simp add: Let_def not_le)
  moreover have "map_of (ring_map r') = map_of (ring_map r) |` (- point D n ` set (i # is))"
    unfolding r'(5) by (auto simp: restrict_map_def fun_eq_iff)
  ultimately show ?case using r' by auto
qed

lemma remove_node_ok:
  assumes ok: "ring_ok D r" and mem: "n \<in> ring_nodes r"
  shows "\<exists>r'. remove_node D n r = (r', None) \<and> ring_ok D r' \<and>
    virtual_nodes r' = virtual_nodes r \<and> ring_nodes r' = ring_nodes r - {n} \<and>
    map_of (ring_map r') = (\<lambda>h. if map_of (ring_map r) h = Some n then None else map_of (ring_map r) h)"
proof -
  let ?r = "r\<lparr>ring_nodes := ring_nodes r - {n}\<rparr>"
  have cf: "collision_free D (virtual_nodes r) (ring_nodes r)" using ok by (simp add: ring_ok_def)
  have agrees: "ring_agrees ?r" using ok by (simp add: ring_ok_def ring_agrees_def)
  have inj: "inj_on (point D n) (set (vnode_range r))"
    using collision_freeD [OF cf] mem by (auto intro!: inj_onI)
  have present: "\<forall>i \<in> set (vnode_range r). point D n i \<in> dom (map_of (ring_map ?r))"
    using ok mem by (fastforce simp: ring_ok_def)
  obtain r' where r': "remove_points D n (vnode_range r) ?r = (r', None)" "ring_agrees r'"
      "virtual_nodes r' = virtual_nodes r" "ring_nodes r' = ring_nodes r - {n}"
      "map_of (ring_map r') = map_of (ring_map r) |` (- point D n ` set (vnode_range r))"
    using remove_points_agrees [OF agrees distinct_upt inj present] by auto
  have map: "map_of (ring_map r') =
      (\<lambda>h. if map_of (ring_map r) h = Some n then None else map_of (ring_map r) h)"
    unfolding r'(5) using ok mem by (auto simp: fun_eq_iff restrict_map_def ring_ok_def)
  have "collision_free D (virtual_nodes r) (ring_nodes r - {n})"
    using cf by (rule collision_free_subset) auto
  moreover have "map_of (ring_map r') h = Some m \<longleftrightarrow>
      m \<in> ring_nodes r - {n} \<and> (\<exists>i < nat (virtual_nodes r). h = point D m i)" for h m
  proof -
    have "map_of (ring_map r') h = Some m \<longleftrightarrow> map_of (ring_map r) h = Some m \<and> m \<noteq> n"
      unfolding map by auto
    then show ?thesis using ok by (auto simp: ring_ok_def)
  qed
  ultimately have "ring_ok D r'" using r'(2-4) ok by (simp add: ring_ok_def)
  with r' map mem show ?thesis by (simp add: remove_node_def)
qed

subsection \<open>Clockwise order\<close>

text \<open>The points of the ring in the order a walk from \<open>h\<close> meets them.\<close>

definition clockwise :: "nat list \<Rightarrow> nat \<Rightarrow> nat list" where
  "clockwise hs h = filter (\<lambda>p. h \<le> p) hs @ filter (\<lambda>p. p < h) hs"

lemma set_clockwise [simp]: "set (clockwise hs h) = set hs"
  by (auto simp: clockwise_def)

lemma splits_at_filter:
  assumes "splits_at P hs i"
  shows "take i hs = filter P hs \<and> drop i hs = filter (\<lambda>x. \<not> P x) hs"
proof -
  have "filter P (take i hs @ drop i hs) = take i hs"
    "filter (\<lambda>x. \<not> P x) (take i hs @ drop i hs) = drop i hs"
    unfolding filter_append
    using splits_at_take [OF assms] splits_at_drop [OF assms] by (simp_all add: filter_id_conv filter_empty_conv)
  then show ?thesis by (simp only: append_take_drop_id)
qed

lemma start_index_less: "hs \<noteq> [] \<Longrightarrow> sorted hs \<Longrightarrow> start_index hs h < length hs"
  using bisect_left_splits [of hs h] by (auto simp: start_index_def splits_at_def Let_def)

lemma walk_clockwise:
  assumes "sorted hs" "hs \<noteq> []"
  shows "map (\<lambda>i. hs ! ((start_index hs h + i) mod length hs)) [0..<length hs] = clockwise hs h"
proof -
  let ?s = "start_index hs h"
  have sp: "splits_at (\<lambda>y. y < h) hs (bisect_left hs h)"
    using assms(1) by (rule bisect_left_splits)
  have "map (\<lambda>i. hs ! ((?s + i) mod length hs)) [0..<length hs] = rotate ?s hs"
    by (rule nth_equalityI) (simp_all add: nth_rotate)
  also have "\<dots> = drop ?s hs @ take ?s hs"
    using start_index_less [OF assms(2,1), of h] by (simp add: rotate_drop_take)
  also have "\<dots> = drop (bisect_left hs h) hs @ take (bisect_left hs h) hs"
    by (simp add: start_index_def Let_def)
  also have "\<dots> = clockwise hs h"
    using splits_at_filter [OF sp] by (simp add: clockwise_def not_less)
  finally show ?thesis .
qed

lemma hd_clockwise:
  assumes "sorted hs" "hs \<noteq> []"
  shows "hs ! start_index hs h = hd (clockwise hs h)"
  unfolding walk_clockwise [OF assms, symmetric] using assms start_index_less [OF assms(2,1), of h]
  by (simp add: hd_map hd_upt)

text \<open>The distinct elements of a list in order of first occurrence.\<close>

fun first_seen :: "'a list \<Rightarrow> 'a list \<Rightarrow> 'a list" where
  "first_seen acc [] = acc"
| "first_seen acc (x # xs) = first_seen (if x \<in> set acc then acc else acc @ [x]) xs"

lemma set_first_seen [simp]: "set (first_seen acc xs) = set acc \<union> set xs"
  by (induction acc xs rule: first_seen.induct) auto

lemma distinct_first_seen: "distinct acc \<Longrightarrow> distinct (first_seen acc xs)"
  by (induction acc xs rule: first_seen.induct) auto

lemma prefix_first_seen: "prefix acc (first_seen acc xs)"
proof (induction acc xs rule: first_seen.induct)
  case (2 acc x xs)
  then show ?case by (auto intro: append_prefixD split: if_splits)
qed simp

lemma take_first_seen: "take (length acc) (first_seen acc xs) = acc"
  using prefix_first_seen [of acc xs] by (auto simp: prefix_def)

lemma filter_first_seen:
  "filter P (first_seen acc xs) = first_seen (filter P acc) (filter P xs)"
  by (induction acc xs rule: first_seen.induct) auto

lemma hd_first_seen: "xs \<noteq> [] \<Longrightarrow> hd (first_seen [] xs) = hd xs"
proof (cases xs)
  case (Cons y ys)
  then show ?thesis using prefix_first_seen [of "[y]" ys] by (auto simp: prefix_def)
qed simp

subsection \<open>Lookups\<close>

text \<open>All nodes of the ring in the order a key's clockwise walk first meets them.\<close>

definition ring_owner :: "hash_ring \<Rightarrow> nat \<Rightarrow> node_id" where
  "ring_owner r h = (case map_of (ring_map r) h of None \<Rightarrow> [] | Some n \<Rightarrow> n)"

definition node_order :: "(string \<Rightarrow> 8 word list) \<Rightarrow> hash_ring \<Rightarrow> key \<Rightarrow> node_id list" where
  "node_order D r k = first_seen [] (map (ring_owner r) (clockwise (sorted_hashes r) (hash_of D k)))"

lemma ring_okD:
  assumes "ring_ok D r"
  shows "sorted (sorted_hashes r)" "finite (ring_nodes r)" "ring_agrees r" "1 \<le> virtual_nodes r"
    and "h \<in> set (sorted_hashes r) \<Longrightarrow> owner_at r h = Inr (ring_owner r h)"
    and "ring_owner r ` set (sorted_hashes r) = ring_nodes r"
proof -
  show "sorted (sorted_hashes r)" "finite (ring_nodes r)" "ring_agrees r" "1 \<le> virtual_nodes r"
    using assms by (simp_all add: ring_ok_def ring_agrees_def)
  have dom: "set (sorted_hashes r) = dom (map_of (ring_map r))"
    using assms by (simp add: ring_ok_def ring_agrees_def)
  then show "h \<in> set (sorted_hashes r) \<Longrightarrow> owner_at r h = Inr (ring_owner r h)"
    by (auto simp: owner_at_def ring_owner_def)
  have own: "map_of (ring_map r) h = Some n \<longleftrightarrow>
      n \<in> ring_nodes r \<and> (\<exists>i < nat (virtual_nodes r). h = point D n i)" for h n
    using assms by (simp add: ring_ok_def)
  show "ring_owner r ` set (sorted_hashes r) = ring_nodes r"
  proof (intro equalityI subsetI)
    fix n assume "n \<in> ring_owner r ` set (sorted_hashes r)"
    then obtain h m where "map_of (ring_map r) h = Some m" "n = ring_owner r h"
      by (auto simp: dom)
    then show "n \<in> ring_nodes r" using own [of h m] by (simp add: ring_owner_def)
  next
    fix n assume n: "n \<in> ring_nodes r"
    have "0 < nat (virtual_nodes r)" using assms by (simp add: ring_ok_def)
    with n own have "map_of (ring_map r) (point D n 0) = Some n" by blast
    then have "ring_owner r (point D n 0) = n" "point D n 0 \<in> set (sorted_hashes r)"
      by (auto simp: ring_owner_def dom)
    then show "n \<in> ring_owner r ` set (sorted_hashes r)" by (metis imageI)
  qed
qed

lemma sorted_hashes_Nil: "ring_ok D r \<Longrightarrow> sorted_hashes r = [] \<longleftrightarrow> ring_nodes r = {}"
  using ring_okD(6) by fastforce

lemma distinct_node_order [simp]: "distinct (node_order D r k)"
  by (simp add: node_order_def distinct_first_seen)

lemma set_node_order: "ring_ok D r \<Longrightarrow> set (node_order D r k) = ring_nodes r"
  using ring_okD(6) by (simp add: node_order_def)

lemma length_node_order: "ring_ok D r \<Longrightarrow> length (node_order D r k) = card (ring_nodes r)"
  using distinct_card [OF distinct_node_order, of D r k] by (simp add: set_node_order)

lemma pref_walk_first_seen:
  assumes "\<forall>i \<in> set is. owner_at r (sorted_hashes r ! ((s + i) mod length (sorted_hashes r))) = Inr (f i)"
    and "target \<le> 0 \<or> int (length acc) < target"
  shows "pref_walk r s target is acc =
    Inr (if target \<le> 0 then first_seen acc (map f is) else take (nat target) (first_seen acc (map f is)))"
  using assms
proof (induction r s target "is" acc rule: pref_walk.induct)
  case (1 r start target result)
  then show ?case by auto
next
  case (2 r start target i "is" result)
  let ?n = "f i"
  have own: "owner_at r (sorted_hashes r ! ((start + i) mod length (sorted_hashes r))) = Inr ?n"
    using "2.prems"(1) by simp
  show ?case
  proof (cases "?n \<in> set result")
    case True
    with 2 own show ?thesis by simp
  next
    case False
    show ?thesis
    proof (cases "int (length (result @ [?n])) = target")
      case True
      then have "nat target = length (result @ [?n])" by simp
      with True False own show ?thesis using take_first_seen [of "result @ [?n]"] by simp
    next
      case ne: False
      with "2.prems"(2) have "target \<le> 0 \<or> int (length (result @ [?n])) < target" by auto
      with 2 own False ne show ?thesis by (simp add: Let_def)
    qed
  qed
qed

lemma get_preference_list_order:
  assumes ok: "ring_ok D r" and ne: "ring_nodes r \<noteq> {}"
  shows "get_preference_list D r k n =
    Inr (if n \<le> 0 then node_order D r k else take (nat n) (node_order D r k))"
proof -
  let ?hs = "sorted_hashes r" and ?h = "hash_of D k"
  let ?s = "start_index ?hs ?h" and ?t = "min n (int (card (ring_nodes r)))"
  have hs: "?hs \<noteq> []" using sorted_hashes_Nil [OF ok] ne by simp
  have card: "0 < card (ring_nodes r)" using ne ring_okD(2) [OF ok] by (simp add: card_gt_0_iff)
  have "pref_walk r ?s ?t [0..<length ?hs] [] =
      Inr (if ?t \<le> 0 then first_seen [] (map (\<lambda>i. ring_owner r (?hs ! ((?s + i) mod length ?hs))) [0..<length ?hs])
           else take (nat ?t) (first_seen [] (map (\<lambda>i. ring_owner r (?hs ! ((?s + i) mod length ?hs))) [0..<length ?hs])))"
    using ring_okD(5) [OF ok] hs by (intro pref_walk_first_seen) auto
  also have "map (\<lambda>i. ring_owner r (?hs ! ((?s + i) mod length ?hs))) [0..<length ?hs] =
      map (ring_owner r) (clockwise ?hs ?h)"
    unfolding walk_clockwise [OF ring_okD(1) [OF ok] hs, symmetric] by simp
  also have "first_seen [] \<dots> = node_order D r k" by (simp add: node_order_def)
  finally show ?thesis
    using hs card length_node_order [OF ok, of k]
    by (auto simp: get_preference_list_def Let_def min_def)
qed

lemma get_node_order:
  assumes ok: "ring_ok D r" and ne: "ring_nodes r \<noteq> {}"
  shows "get_node D r k = Inr (hd (node_order D r k))"
proof -
  let ?hs = "sorted_hashes r"
  have hs: "?hs \<noteq> []" using sorted_hashes_Nil [OF ok] ne by simp
  have cw: "clockwise ?hs (hash_of D k) \<noteq> []" using hs set_clockwise [of ?hs "hash_of D k"] by fastforce
  have "hd (node_order D r k) = ring_owner r (?hs ! start_index ?hs (hash_of D k))"
    unfolding hd_clockwise [OF ring_okD(1) [OF ok] hs] using cw
    by (simp add: node_order_def hd_first_seen hd_map)
  then show ?thesis
    using hs ring_okD(5) [OF ok] start_index_less [OF hs ring_okD(1) [OF ok]] by (simp add: get_node_def)
qed

text \<open>Rings over the same points list them in the same order; dropping a node filters that order.\<close>

lemma sorted_hashes_filter:
  assumes "ring_agrees r" "ring_agrees r'" "dom (map_of (ring_map r')) = {h \<in> dom (map_of (ring_map r)). P h}"
  shows "sorted_hashes r' = filter P (sorted_hashes r)"
  by (rule sorted_distinct_set_unique) (use assms in \<open>auto simp: ring_agrees_def sorted_wrt_filter\<close>)

lemma node_order_drop:
  assumes ok: "ring_ok D r" and ok': "ring_ok D r'"
    and map: "map_of (ring_map r') =
      (\<lambda>h. if map_of (ring_map r) h = Some n then None else map_of (ring_map r) h)"
  shows "node_order D r' k = filter (\<lambda>m. m \<noteq> n) (node_order D r k)"
proof -
  let ?hs = "sorted_hashes r" and ?h = "hash_of D k"
  have dom: "set ?hs = dom (map_of (ring_map r))"
    using ring_okD(3) [OF ok] by (simp add: ring_agrees_def)
  have own: "ring_owner r' h = ring_owner r h" if "h \<in> set ?hs" "ring_owner r h \<noteq> n" for h
    using that by (auto simp: ring_owner_def map dom split: option.splits)
  have "sorted_hashes r' = filter (\<lambda>h. map_of (ring_map r) h \<noteq> Some n) ?hs"
    by (rule sorted_hashes_filter) (use ring_okD(3) ok ok' in \<open>auto simp: map split: if_splits\<close>)
  also have "\<dots> = filter (\<lambda>h. ring_owner r h \<noteq> n) ?hs"
    by (rule filter_cong) (auto simp: ring_owner_def dom)
  finally have "clockwise (sorted_hashes r') ?h = filter (\<lambda>h. ring_owner r h \<noteq> n) (clockwise ?hs ?h)"
    by (simp add: clockwise_def conj_commute)
  then have "map (ring_owner r') (clockwise (sorted_hashes r') ?h) =
      map (ring_owner r) (filter (\<lambda>h. ring_owner r h \<noteq> n) (clockwise ?hs ?h))"
    using own by (auto intro!: map_cong)
  then show ?thesis
    by (simp add: node_order_def filter_first_seen filter_map o_def)
qed

lemma remove_node_order:
  assumes "ring_ok D r" "n \<in> ring_nodes r"
  shows "node_order D (fst (remove_node D n r)) k = filter (\<lambda>m. m \<noteq> n) (node_order D r k)"
  using remove_node_ok [OF assms] node_order_drop [OF assms(1)] by force

lemma add_node_order:
  assumes ok: "ring_ok D r" and cf: "collision_free D (virtual_nodes r) (insert n (ring_nodes r))"
    and new: "n \<notin> ring_nodes r"
  shows "node_order D r k = filter (\<lambda>m. m \<noteq> n) (node_order D (add_node D n r) k)"
proof (rule node_order_drop [OF ring_ok_add_node [OF ok cf] ok])
  have own: "map_of (ring_map r) h = Some m \<Longrightarrow> m \<in> ring_nodes r" for h m
    using ok by (simp add: ring_ok_def)
  have own': "map_of (ring_map (add_node D n r)) h = Some n \<longleftrightarrow>
      (\<exists>i < nat (virtual_nodes r). h = point D n i)" for h
    using ring_ok_add_node [OF ok cf] by (simp add: ring_ok_def)
  have "map_of (ring_map r) h = None" if "\<exists>i < nat (virtual_nodes r). h = point D n i" for h
  proof (rule ccontr)
    assume "map_of (ring_map r) h \<noteq> None"
    then obtain m j where "m \<in> ring_nodes r" "j < nat (virtual_nodes r)" "h = point D m j"
      using ok by (auto simp: ring_ok_def)
    with that new show False using collision_freeD [OF cf, of n _ m j] by auto
  qed
  then show "map_of (ring_map r) =
      (\<lambda>h. if map_of (ring_map (add_node D n r)) h = Some n then None
           else map_of (ring_map (add_node D n r)) h)"
    unfolding own' using new by (auto simp: fun_eq_iff add_node_def add_points_map)
qed

lemma new_ring_ok_aux:
  assumes "ring_ok D r" "collision_free D (virtual_nodes r) (ring_nodes r \<union> set ns)"
  shows "ring_ok D (fold (add_node D) ns r) \<and> ring_nodes (fold (add_node D) ns r) = ring_nodes r \<union> set ns
    \<and> virtual_nodes (fold (add_node D) ns r) = virtual_nodes r"
  using assms
proof (induction ns arbitrary: r)
  case (Cons n ns)
  have "ring_ok D (add_node D n r)"
    using Cons.prems by (intro ring_ok_add_node) (auto intro: collision_free_subset)
  from Cons.IH [OF this] Cons.prems(2) show ?case by simp
qed simp

lemma new_ring_ok:
  assumes "1 \<le> vn" "collision_free D vn (set ns)"
  shows "ring_ok D (new_ring D ns vn)" "ring_nodes (new_ring D ns vn) = set ns"
    "virtual_nodes (new_ring D ns vn) = vn"
proof -
  let ?r = "\<lparr>virtual_nodes = vn, ring_map = [], sorted_hashes = [], ring_nodes = {}\<rparr>"
  have "ring_ok D ?r" using assms(1) by (simp add: ring_ok_def ring_agrees_def collision_free_def)
  from new_ring_ok_aux [OF this, of ns] assms(2)
  show "ring_ok D (new_ring D ns vn)" "ring_nodes (new_ring D ns vn) = set ns"
    "virtual_nodes (new_ring D ns vn) = vn"
    by (simp_all add: new_ring_def)
qed

subsection \<open>The placement interface\<close>

text \<open>
  What the quorum machinery needs of the ring: each key has one order of all the members, and a
  preference list of length \<open>n\<close> is that order cut at \<open>n\<close>.
\<close>

locale placement =
  fixes ok :: "'r \<Rightarrow> bool"
    and members :: "'r \<Rightarrow> node_id set"
    and order :: "'r \<Rightarrow> key \<Rightarrow> node_id list"
    and prefs :: "'r \<Rightarrow> key \<Rightarrow> int \<Rightarrow> py_error + node_id list"
  assumes distinct_order: "ok r \<Longrightarrow> distinct (order r k)"
    and set_order: "ok r \<Longrightarrow> set (order r k) = members r"
    and prefs_order: "ok r \<Longrightarrow> members r \<noteq> {} \<Longrightarrow> 1 \<le> n \<Longrightarrow> prefs r k n = Inr (take (nat n) (order r k))"
begin

lemma length_order: "ok r \<Longrightarrow> length (order r k) = card (members r)"
  using distinct_card [OF distinct_order] set_order by metis

lemma order_not_Nil: "ok r \<Longrightarrow> members r \<noteq> {} \<Longrightarrow> order r k \<noteq> []"
  using set_order [of r k] by auto

lemma prefs_structure:
  assumes "ok r" "members r \<noteq> {}" "1 \<le> n"
  shows "\<exists>ps. prefs r k n = Inr ps \<and> distinct ps \<and> set ps \<subseteq> members r \<and>
    length ps = min (nat n) (card (members r)) \<and> ps \<noteq> []"
  using prefs_order [OF assms, of k] distinct_order [OF assms(1), of k] set_order [OF assms(1), of k]
    length_order [OF assms(1), of k] order_not_Nil [OF assms(1,2), of k] assms(3)
  by (auto dest: in_set_takeD simp: min.commute)

text \<open>The node that takes hints: the first of one node more that is not a replica.\<close>

lemma spare_node:
  assumes "ok r" "members r \<noteq> {}" "1 \<le> n" "prefs r k n = Inr ps"
  shows "\<exists>qs. prefs r k (int (length ps) + 1) = Inr qs \<and>
    find (\<lambda>m. m \<notin> set ps) qs =
      (if nat n < card (members r) then Some (order r k ! nat n) else None)"
proof -
  let ?o = "order r k"
  have ps: "ps = take (nat n) ?o" using prefs_order [OF assms(1-3)] assms(4) by simp
  have len: "length ?o = card (members r)" using assms(1) by (rule length_order)
  have q: "prefs r k (int (length ps) + 1) = Inr (take (Suc (length ps)) ?o)"
    using prefs_order [OF assms(1,2), of "int (length ps) + 1" k] by (simp add: nat_add_distrib)
  have none: "find (\<lambda>m. m \<notin> set ps) ps = None" by (simp add: find_None_iff)
  show ?thesis
  proof (cases "nat n < card (members r)")
    case True
    then have n: "length ps = nat n" using ps len by simp
    have split: "take (Suc (nat n)) ?o = ps @ [?o ! nat n]"
      using True len ps by (simp add: take_Suc_conv_app_nth)
    have "?o ! nat n \<notin> set ps"
      using distinct_order [OF assms(1), of k] True len unfolding ps
      by (metis distinct_take in_set_conv_nth length_take less_not_refl min_less_iff_conj nth_eq_iff_index_eq nth_take)
    then have "find (\<lambda>m. m \<notin> set ps) (ps @ [?o ! nat n]) = Some (?o ! nat n)"
      by (intro find_skip) auto
    with q n split True show ?thesis by simp
  next
    case False
    then have "take (Suc (length ps)) ?o = ps" using ps len by simp
    with q none False show ?thesis by simp
  qed
qed

text \<open>A write quorum and a read quorum of one preference list share a replica.\<close>

lemma quorum_overlap:
  assumes "ok r" "members r \<noteq> {}" "1 \<le> n" "prefs r k n = Inr ps"
    and "distinct xs" "distinct ys" "set xs \<subseteq> set ps" "set ys \<subseteq> set ps"
    and "length ps < length xs + length ys"
  shows "set xs \<inter> set ys \<noteq> {}"
proof -
  have "distinct ps" using prefs_structure [OF assms(1-3), of k] assms(4) by auto
  with assms(5-9) show ?thesis by (intro pigeonhole_overlap)
qed

end

interpretation ring: placement "ring_ok D" ring_nodes "node_order D" "get_preference_list D" for D
  by unfold_locales (auto simp: set_node_order get_preference_list_order)

subsection \<open>Properties\<close>

text \<open>For witnesses: the bytes of a string, a digest under which short labels do not collide.\<close>

definition bytes_of :: "string \<Rightarrow> 8 word list" where
  "bytes_of s = map (\<lambda>c. of_nat (of_char c)) s"

lemma collision_free_abc: "collision_free bytes_of 1 {''a'', ''b'', ''c''}"
proof -
  have 0: "{0..<nat 1} = {0}" by auto
  show ?thesis
    unfolding collision_free_def 0
    by (simp add: inj_on_def point_def hash_of_def from_bytes_big_def bytes_of_def vnode_label_def digit_char_def)
qed

lemma abc_ring_ok:
  "ring_ok bytes_of (new_ring bytes_of [''a'', ''b'', ''c''] 1)"
  "ring_nodes (new_ring bytes_of [''a'', ''b'', ''c''] 1) = {''a'', ''b'', ''c''}"
  using new_ring_ok [of 1 bytes_of "[''a'', ''b'', ''c'']"] collision_free_abc by simp_all

lemma ab_ring_ok:
  "ring_ok bytes_of (new_ring bytes_of [''a'', ''b''] 1)"
  "ring_nodes (new_ring bytes_of [''a'', ''b''] 1) = {''a'', ''b''}"
  "virtual_nodes (new_ring bytes_of [''a'', ''b''] 1) = 1"
  using new_ring_ok [of 1 bytes_of "[''a'', ''b'']"]
    collision_free_subset [OF collision_free_abc, of "{''a'', ''b''}"] by simp_all

text \<open>Binary search returns the number of elements below the key, so inserting there keeps the
  list sorted and adds exactly one occurrence.\<close>

lemma bisect_correct:
  assumes "sorted a"
  shows "bisect_left a x = length (filter (\<lambda>y. y < x) a) \<and>
    sorted (insort_right a x) \<and> set (insort_right a x) = insert x (set a) \<and>
    length (insort_right a x) = Suc (length a)"
proof -
  have sp: "splits_at (\<lambda>y. y < x) a (bisect_left a x)" using assms by (rule bisect_left_splits)
  then have "length (take (bisect_left a x) a) = bisect_left a x" by (simp add: splits_at_def)
  then have "bisect_left a x = length (filter (\<lambda>y. y < x) a)" using splits_at_filter [OF sp] by simp
  moreover have "length (insort_right a x) = Suc (length a)"
    using insort_right_splits [OF assms, of x] by (simp add: insort_right_def Let_def splits_at_def)
  ultimately show ?thesis using sorted_insort_right [OF assms] by simp
qed

text \<open>On a well-formed ring a lookup never fails and returns the owner of the clockwise successor
  of the key's hash: the smallest point at or after it, or the smallest point of all when there is
  none.\<close>

theorem get_node_successor:
  assumes ok: "ring_ok D r" and ne: "ring_nodes r \<noteq> {}"
  shows "\<exists>p n. get_node D r k = Inr n \<and> n \<in> ring_nodes r \<and> map_of (ring_map r) p = Some n \<and>
    (if \<exists>q \<in> dom (map_of (ring_map r)). hash_of D k \<le> q
     then p = Min {q \<in> dom (map_of (ring_map r)). hash_of D k \<le> q}
     else p = Min (dom (map_of (ring_map r))))"
proof -
  let ?hs = "sorted_hashes r" and ?h = "hash_of D k"
  have hs: "?hs \<noteq> []" using sorted_hashes_Nil [OF ok] ne by simp
  have srt: "sorted ?hs" using ok by (rule ring_okD)
  have dom: "set ?hs = dom (map_of (ring_map r))"
    using ring_okD(3) [OF ok] by (simp add: ring_agrees_def)
  define p where "p = ?hs ! start_index ?hs ?h"
  have p: "p \<in> set ?hs" using start_index_less [OF hs srt] by (simp add: p_def)
  have get: "get_node D r k = Inr (ring_owner r p)"
    using hs ring_okD(5) [OF ok p] by (simp add: get_node_def p_def)
  have own: "map_of (ring_map r) p = Some (ring_owner r p)"
    using p by (auto simp: dom ring_owner_def)
  have hd: "p = hd (clockwise ?hs ?h)" using hd_clockwise [OF srt hs] by (simp add: p_def)
  have min_hd: "hd xs = Min (set xs)" if "sorted xs" "xs \<noteq> []" for xs :: "nat list"
    using that by (cases xs) (auto intro!: Min_eqI [symmetric])
  have "if \<exists>q \<in> set ?hs. ?h \<le> q then p = Min {q \<in> set ?hs. ?h \<le> q} else p = Min (set ?hs)"
  proof (cases "\<exists>q \<in> set ?hs. ?h \<le> q")
    case True
    then have ne: "filter ((\<le>) ?h) ?hs \<noteq> []" by (auto simp: filter_empty_conv)
    then show ?thesis using True min_hd [OF sorted_wrt_filter [OF srt] ne] by (simp add: hd clockwise_def)
  next
    case False
    then have "filter ((\<le>) ?h) ?hs = []" "filter (\<lambda>p. p < ?h) ?hs = ?hs"
      by (auto simp: filter_empty_conv filter_id_conv)
    with False show ?thesis using min_hd [OF srt hs] by (simp add: hd clockwise_def)
  qed
  with get own ring_okD(6) [OF ok] p show ?thesis unfolding dom by blast
qed

theorem get_node_successor_witness:
  "\<exists>n. get_node bytes_of (new_ring bytes_of [''a'', ''b'', ''c''] 1) ''b'' = Inr n \<and> n \<in> {''a'', ''b'', ''c''}"
proof -
  note ok = abc_ring_ok
  show ?thesis using get_node_successor [OF ok(1), of "''b''"] ok(2) by auto
qed

text \<open>C36. A preference list of length \<open>n \<ge> 1\<close> on a well-formed ring holds \<open>min n |cluster|\<close> distinct
  members, starts with the owner that \<open>get_node\<close> returns, and is a prefix of every longer one.\<close>

theorem preference_list_structure:
  assumes "ring_ok D r" "ring_nodes r \<noteq> {}" "1 \<le> n" "n \<le> m"
  shows "\<exists>ps qs. get_preference_list D r k n = Inr ps \<and> get_preference_list D r k m = Inr qs \<and>
    distinct ps \<and> set ps \<subseteq> ring_nodes r \<and> length ps = min (nat n) (card (ring_nodes r)) \<and>
    get_node D r k = Inr (hd ps) \<and> prefix ps qs"
proof -
  have ne: "node_order D r k \<noteq> []" using ring.order_not_Nil [OF assms(1,2)] .
  have hd: "hd (take (nat n) (node_order D r k)) = hd (node_order D r k)"
    using assms(3) by (simp add: hd_take)
  have "prefix (take (nat n) (node_order D r k)) (take (nat m) (node_order D r k))"
    using assms(4) by (metis min.absorb1 nat_mono take_is_prefix take_take)
  moreover obtain ps where ps: "get_preference_list D r k n = Inr ps" "distinct ps"
      "set ps \<subseteq> ring_nodes r" "length ps = min (nat n) (card (ring_nodes r))"
    using ring.prefs_structure [OF assms(1-3), of k] by blast
  moreover from ps(1) have "ps = take (nat n) (node_order D r k)"
    using ring.prefs_order [OF assms(1-3), of k] by simp
  moreover have "get_preference_list D r k m = Inr (take (nat m) (node_order D r k))"
    using assms(3,4) by (intro ring.prefs_order [OF assms(1,2)]) simp
  ultimately show ?thesis
    using get_node_order [OF assms(1,2), of k] hd by simp
qed

theorem preference_list_structure_witness:
  "\<exists>ps. get_preference_list bytes_of (new_ring bytes_of [''a'', ''b'', ''c''] 1) ''b'' 2 = Inr ps \<and>
     distinct ps \<and> length ps = 2"
proof -
  note ok = abc_ring_ok
  have ne: "ring_nodes (new_ring bytes_of [''a'', ''b'', ''c''] 1) \<noteq> {}"
    and card: "card (ring_nodes (new_ring bytes_of [''a'', ''b'', ''c''] 1)) = 3"
    unfolding ok(2) by simp_all
  obtain ps where "get_preference_list bytes_of (new_ring bytes_of [''a'', ''b'', ''c''] 1) ''b'' 2 = Inr ps"
      "distinct ps" "length ps = min (nat 2) 3"
    using preference_list_structure [OF ok(1) ne, of 2 3 "''b''"] unfolding card by auto
  then show ?thesis by simp
qed

text \<open>C37. Consistent hashing moves only what it must: after \<open>add_node\<close> every key's order over the old
  members is unchanged and its owner is either the old owner or the new node.\<close>

theorem add_node_minimal_disruption:
  assumes "ring_ok D r" "ring_nodes r \<noteq> {}" "n \<notin> ring_nodes r"
    and "collision_free D (virtual_nodes r) (insert n (ring_nodes r))"
  shows "ring_ok D (add_node D n r) \<and> ring_nodes (add_node D n r) = insert n (ring_nodes r) \<and>
    filter (\<lambda>m. m \<noteq> n) (node_order D (add_node D n r) k) = node_order D r k \<and>
    (get_node D (add_node D n r) k = get_node D r k \<or> get_node D (add_node D n r) k = Inr n)"
proof -
  have ok: "ring_ok D (add_node D n r)" using assms(1,4) by (rule ring_ok_add_node)
  have order: "node_order D r k = filter (\<lambda>m. m \<noteq> n) (node_order D (add_node D n r) k)"
    using assms(1,4,3) by (rule add_node_order)
  have "node_order D (add_node D n r) k \<noteq> []" by (rule ring.order_not_Nil [OF ok]) simp
  then obtain x xs where o': "node_order D (add_node D n r) k = x # xs"
    by (cases "node_order D (add_node D n r) k") auto
  have "get_node D (add_node D n r) k = Inr x" using get_node_order [OF ok, of k] o' by simp
  moreover have "x \<noteq> n \<Longrightarrow> get_node D r k = Inr x"
    using get_node_order [OF assms(1,2), of k] o' order by simp
  ultimately show ?thesis using ok order by auto
qed

theorem add_node_minimal_disruption_witness:
  "let r = new_ring bytes_of [''a'', ''b''] 1 in
     get_node bytes_of (add_node bytes_of ''c'' r) ''x'' = get_node bytes_of r ''x'' \<or>
     get_node bytes_of (add_node bytes_of ''c'' r) ''x'' = Inr ''c''"
proof -
  note ok = ab_ring_ok
  have cf': "collision_free bytes_of (virtual_nodes (new_ring bytes_of [''a'', ''b''] 1))
      (insert ''c'' (ring_nodes (new_ring bytes_of [''a'', ''b''] 1)))"
    using collision_free_abc unfolding ok(2,3) by (simp add: insert_commute)
  show ?thesis
    unfolding Let_def using add_node_minimal_disruption [OF ok(1) _ _ cf', of "''x''"] unfolding ok(2) by simp
qed

text \<open>Removing a member of a well-formed ring raises nothing, keeps the ring well-formed, deletes
  just that node from every key's order, and leaves the owner of every other key alone.\<close>

theorem remove_node_minimal_disruption:
  assumes "ring_ok D r" "n \<in> ring_nodes r"
  shows "\<exists>r'. remove_node D n r = (r', None) \<and> ring_ok D r' \<and> ring_nodes r' = ring_nodes r - {n} \<and>
    node_order D r' k = filter (\<lambda>m. m \<noteq> n) (node_order D r k) \<and>
    (get_node D r k \<noteq> Inr n \<longrightarrow> get_node D r' k = get_node D r k)"
proof -
  obtain r' where r': "remove_node D n r = (r', None)" "ring_ok D r'" "ring_nodes r' = ring_nodes r - {n}"
    using remove_node_ok [OF assms] by blast
  have order: "node_order D r' k = filter (\<lambda>m. m \<noteq> n) (node_order D r k)"
    using remove_node_order [OF assms, of k] r'(1) by simp
  have ne: "ring_nodes r \<noteq> {}" using assms(2) by auto
  have "get_node D r' k = get_node D r k" if *: "get_node D r k \<noteq> Inr n"
  proof -
    obtain x xs where o': "node_order D r k = x # xs"
      using ring.order_not_Nil [OF assms(1) ne, of k] by (cases "node_order D r k") auto
    have get: "get_node D r k = Inr x" using get_node_order [OF assms(1) ne] o' by simp
    with * have "x \<noteq> n" by simp
    moreover from this have "x \<in> ring_nodes r'"
      using set_node_order [OF assms(1), of k] o' r'(3) by auto
    ultimately show ?thesis using get_node_order [OF r'(2), of k] get order o' by auto
  qed
  with r' order show ?thesis by simp
qed

theorem remove_node_minimal_disruption_witness:
  "\<exists>r'. remove_node bytes_of ''b'' (new_ring bytes_of [''a'', ''b'', ''c''] 1) = (r', None) \<and>
     ring_nodes r' = {''a'', ''c''}"
proof -
  note ok = abc_ring_ok
  have mem: "''b'' \<in> ring_nodes (new_ring bytes_of [''a'', ''b'', ''c''] 1)" using ok(2) by simp
  have minus: "{''a'', ''b'', ''c''} - {''b''} = {''a'', ''c''}" by auto
  show ?thesis using remove_node_minimal_disruption [OF ok(1) mem, of "''k''"] unfolding ok(2) minus by blast
qed

text \<open>A non-positive \<open>n\<close> does not give an empty preference list: the stop test never holds and the
  walk returns every member of the cluster.\<close>

theorem preference_list_nonpositive:
  assumes "ring_ok D r" "ring_nodes r \<noteq> {}" "n \<le> 0"
  shows "\<exists>ps. get_preference_list D r k n = Inr ps \<and> set ps = ring_nodes r"
  using get_preference_list_order [OF assms(1,2), of k n] set_node_order [OF assms(1)] assms(3) by simp

theorem preference_list_nonpositive_witness:
  "\<exists>ps. get_preference_list bytes_of (new_ring bytes_of [''a'', ''b'', ''c''] 1) ''b'' 0 = Inr ps \<and>
     set ps = {''a'', ''b'', ''c''}"
proof -
  note ok = abc_ring_ok
  show ?thesis using preference_list_nonpositive [OF ok(1), of 0 "''b''"] ok(2) by simp
qed

end
