(* ===== verification/Gossip.thy ===== *)
theory Gossip
  imports Prelude
begin

section \<open>Gossip state\<close>

text \<open>
  Models \<open>src/dynamokv/gossip.py\<close>: the class \<open>GossipState\<close>, a table from node ids to a heartbeat
  counter and the local time at which that counter was last seen to advance. The readings of
  \<open>clock_fn\<close> are arguments (\<open>now\<close>), and times are real numbers where the code has floats.

  The lemmas show the table well-formed in every state the operations reach, the counters a join:
  merging is the pointwise maximum on the other nodes' counters, so it is idempotent, commutative
  and associative there, and the failure detector exact: it suspects a node just when the node is
  known, not itself, and has been silent for longer than the timeout.
\<close>

record gossip_state =
  gs_node_id :: node_id
  gs_table :: "(node_id, int \<times> real) dict"

definition gossip_init :: "node_id \<Rightarrow> real \<Rightarrow> gossip_state" where
  "gossip_init self now = \<lparr>gs_node_id = self, gs_table = [(self, (0, now))]\<rparr>"

text \<open>\<open>self._table[self._node_id]\<close> raises \<open>KeyError\<close> when the entry is missing.\<close>

definition tick :: "real \<Rightarrow> gossip_state \<Rightarrow> py_error + gossip_state" where
  "tick now g =
     (case map_of (gs_table g) (gs_node_id g) of
        None \<Rightarrow> Inl KeyError
      | Some (counter, _) \<Rightarrow>
          Inr (g\<lparr>gs_table := dict_put (gs_node_id g) (counter + 1, now) (gs_table g)\<rparr>))"

definition to_wire :: "gossip_state \<Rightarrow> (node_id, int) dict" where
  "to_wire g = map (\<lambda>(n, counter, _). (n, counter)) (gs_table g)"

fun merge_wire_items :: "real \<Rightarrow> (node_id, int) dict \<Rightarrow> gossip_state \<Rightarrow> gossip_state" where
  "merge_wire_items now [] g = g"
| "merge_wire_items now ((n, c) # items) g =
     merge_wire_items now items
       (if n = gs_node_id g then g
        else case map_of (gs_table g) n of
               None \<Rightarrow> g\<lparr>gs_table := dict_put n (c, now) (gs_table g)\<rparr>
             | Some (current, _) \<Rightarrow>
                 if current < c then g\<lparr>gs_table := dict_put n (c, now) (gs_table g)\<rparr> else g)"

definition merge_wire :: "real \<Rightarrow> (node_id, int) dict \<Rightarrow> gossip_state \<Rightarrow> gossip_state" where
  "merge_wire now incoming g = merge_wire_items now incoming g"

definition believed_down :: "gossip_state \<Rightarrow> node_id \<Rightarrow> real \<Rightarrow> real \<Rightarrow> bool" where
  "believed_down g n now timeout =
     (if n = gs_node_id g then False
      else case map_of (gs_table g) n of
             None \<Rightarrow> False
           | Some (_, last_seen) \<Rightarrow> now - last_seen > timeout)"

definition down_nodes :: "gossip_state \<Rightarrow> real \<Rightarrow> real \<Rightarrow> node_id set" where
  "down_nodes g now timeout = set (filter (\<lambda>n. believed_down g n now timeout) (map fst (gs_table g)))"

subsection \<open>The invariant\<close>

text \<open>The table is a dictionary and has the node's own entry.\<close>

definition gossip_ok :: "gossip_state \<Rightarrow> bool" where
  "gossip_ok g \<longleftrightarrow> dict_ok (gs_table g) \<and> map_of (gs_table g) (gs_node_id g) \<noteq> None"

definition counter_of :: "gossip_state \<Rightarrow> node_id \<Rightarrow> int option" where
  "counter_of g n = map_option fst (map_of (gs_table g) n)"

lemma gossip_ok_init [wf_intros]: "gossip_ok (gossip_init self now)"
  by (simp add: gossip_ok_def gossip_init_def)

lemma tick_ok:
  "gossip_ok g \<Longrightarrow> \<exists>g'. tick now g = Inr g' \<and> gossip_ok g' \<and> gs_node_id g' = gs_node_id g"
  by (auto simp: tick_def gossip_ok_def dict_ok_put split: option.splits)

lemma merge_wire_items_node_id [simp]: "gs_node_id (merge_wire_items now items g) = gs_node_id g"
  by (induction now items g rule: merge_wire_items.induct) (auto split: option.splits)

lemma merge_wire_node_id [simp]: "gs_node_id (merge_wire now items g) = gs_node_id g"
  by (simp add: merge_wire_def)

lemma merge_wire_items_ok: "gossip_ok g \<Longrightarrow> gossip_ok (merge_wire_items now items g)"
  by (induction now items g rule: merge_wire_items.induct)
    (auto simp: gossip_ok_def dict_ok_put split: option.splits)

lemma gossip_ok_merge_wire [wf_intros]: "gossip_ok g \<Longrightarrow> gossip_ok (merge_wire now items g)"
  by (simp add: merge_wire_def merge_wire_items_ok)

text \<open>One entry of a merge, for wire tables whose keys are distinct.\<close>

definition merge_entry :: "real \<Rightarrow> int option \<Rightarrow> (int \<times> real) option \<Rightarrow> (int \<times> real) option" where
  "merge_entry now c e =
     (case c of
        None \<Rightarrow> e
      | Some c \<Rightarrow>
          (case e of
             None \<Rightarrow> Some (c, now)
           | Some (current, ts) \<Rightarrow> Some (if current < c then (c, now) else (current, ts))))"

lemma merge_wire_items_lookup:
  "dict_ok items \<Longrightarrow>
     map_of (gs_table (merge_wire_items now items g)) n =
       (if n = gs_node_id g then map_of (gs_table g) n
        else merge_entry now (map_of items n) (map_of (gs_table g) n))"
proof (induction now items g rule: merge_wire_items.induct)
  case (1 now g)
  then show ?case by (simp add: merge_entry_def)
next
  case (2 now m c items g)
  let ?g = "if m = gs_node_id g then g
        else case map_of (gs_table g) m of
               None \<Rightarrow> g\<lparr>gs_table := dict_put m (c, now) (gs_table g)\<rparr>
             | Some (current, _) \<Rightarrow>
                 if current < c then g\<lparr>gs_table := dict_put m (c, now) (gs_table g)\<rparr> else g"
  have self: "gs_node_id ?g = gs_node_id g" by (auto split: option.splits)
  have m: "map_of items m = None" using "2.prems" by (auto simp: map_of_eq_None_iff)
  have at: "map_of (gs_table ?g) n =
      (if n = m \<and> m \<noteq> gs_node_id g then merge_entry now (Some c) (map_of (gs_table g) n)
       else map_of (gs_table g) n)"
    by (auto simp: merge_entry_def split: option.splits)
  have "map_of (gs_table (merge_wire_items now items ?g)) n =
      (if n = gs_node_id ?g then map_of (gs_table ?g) n
       else merge_entry now (map_of items n) (map_of (gs_table ?g) n))"
    using "2.prems" by (intro "2.IH") simp
  then show ?case using m unfolding at self by (auto simp: merge_entry_def)
qed

lemma merge_wire_lookup:
  "dict_ok items \<Longrightarrow>
     map_of (gs_table (merge_wire now items g)) n =
       (if n = gs_node_id g then map_of (gs_table g) n
        else merge_entry now (map_of items n) (map_of (gs_table g) n))"
  by (simp add: merge_wire_def merge_wire_items_lookup)

lemma to_wire_lookup: "map_of (to_wire g) n = counter_of g n"
proof -
  have "map_of (map (\<lambda>(n, counter, _). (n, counter)) t) n = map_option fst (map_of t n)"
    for t :: "(node_id, int \<times> real) dict"
    by (induction t) auto
  then show ?thesis by (simp add: to_wire_def counter_of_def)
qed

lemma to_wire_keys: "map fst (to_wire g) = map fst (gs_table g)"
  by (simp add: to_wire_def o_def case_prod_unfold)

lemma dict_ok_to_wire [wf_intros]: "gossip_ok g \<Longrightarrow> dict_ok (to_wire g)"
  by (simp add: to_wire_keys gossip_ok_def)

text \<open>Counters under a merge: the maximum of what is known, self excepted.\<close>

definition max_known :: "int option \<Rightarrow> int option \<Rightarrow> int option" where
  "max_known a b =
     (case (a, b) of
        (None, _) \<Rightarrow> b | (_, None) \<Rightarrow> a | (Some x, Some y) \<Rightarrow> Some (max x y))"

lemma max_known_simps [simp]:
  "max_known None b = b" "max_known a None = a" "max_known (Some x) (Some y) = Some (max x y)"
  by (auto simp: max_known_def split: option.splits)

lemma max_known_commute: "max_known a b = max_known b a"
  by (cases a; cases b) (simp_all add: max.commute)

lemma max_known_assoc: "max_known (max_known a b) c = max_known a (max_known b c)"
  by (cases a; cases b; cases c) (simp_all add: max.assoc)

lemma max_known_idem [simp]: "max_known a a = a"
  by (cases a) simp_all

lemma counter_of_merge_wire:
  "dict_ok items \<Longrightarrow>
     counter_of (merge_wire now items g) n =
       (if n = gs_node_id g then counter_of g n else max_known (counter_of g n) (map_of items n))"
  by (cases "map_of items n"; cases "map_of (gs_table g) n")
    (auto simp: counter_of_def merge_wire_lookup merge_entry_def)

subsection \<open>The join interface\<close>

text \<open>
  Repeated exchange of tables only ever joins counters. The interface states a merge over a view
  of the state that is a join; its clients get that the order and the repetition of the messages do
  not matter to the view.
\<close>

locale join_merge =
  fixes ok :: "'m \<Rightarrow> bool"
    and view :: "'s \<Rightarrow> 'k \<Rightarrow> 'v"
    and mview :: "'s \<Rightarrow> 'm \<Rightarrow> 'k \<Rightarrow> 'v"
    and join :: "'v \<Rightarrow> 'v \<Rightarrow> 'v"
    and mrg :: "'m \<Rightarrow> 's \<Rightarrow> 's"
  assumes join_commute: "join a b = join b a"
    and join_assoc: "join (join a b) c = join a (join b c)"
    and join_idem: "join a a = a"
    and view_mrg: "ok m \<Longrightarrow> view (mrg m s) k = join (view s k) (mview s m k)"
    and mview_mrg: "ok m \<Longrightarrow> mview (mrg m s) m' k = mview s m' k"
begin

lemma mrg_commute: "ok m \<Longrightarrow> ok m' \<Longrightarrow> view (mrg m (mrg m' s)) = view (mrg m' (mrg m s))"
  by (auto simp: fun_eq_iff view_mrg mview_mrg join_assoc join_commute [of "mview s m _"])

lemma mrg_idem: "ok m \<Longrightarrow> view (mrg m (mrg m s)) = view (mrg m s)"
  by (auto simp: fun_eq_iff view_mrg mview_mrg join_assoc join_idem)

lemma mview_foldl: "\<forall>m \<in> set ms. ok m \<Longrightarrow> mview (fold mrg ms s) m' k = mview s m' k"
  by (induction ms arbitrary: s) (auto simp: mview_mrg)

lemma view_fold:
  "\<forall>m \<in> set ms. ok m \<Longrightarrow> view (fold mrg ms s) k = fold (\<lambda>m v. join v (mview s m k)) ms (view s k)"
  by (induction ms arbitrary: s) (auto simp: view_mrg mview_mrg)

lemma absorb: "ok m \<Longrightarrow> join (view (mrg m s) k) (mview s m k) = view (mrg m s) k"
  by (simp add: view_mrg join_assoc join_idem)

lemma view_fold_absorb:
  "\<forall>m \<in> set ms. ok m \<Longrightarrow> m' \<in> set ms \<Longrightarrow>
     join (view (fold mrg ms s) k) (mview s m' k) = view (fold mrg ms s) k"
proof (induction ms rule: rev_induct)
  case (snoc x ms)
  then show ?case
    by (auto simp: view_mrg mview_foldl join_assoc join_idem join_commute [of "mview s x k"])
      (metis join_assoc)
qed simp

end

definition peer_view :: "gossip_state \<Rightarrow> node_id \<Rightarrow> int option" where
  "peer_view g n = counter_of g n"

definition wire_view :: "gossip_state \<Rightarrow> (node_id, int) dict \<Rightarrow> node_id \<Rightarrow> int option" where
  "wire_view g items n = (if n = gs_node_id g then None else map_of items n)"

interpretation gossip: join_merge dict_ok peer_view wire_view max_known "merge_wire now" for now
  by unfold_locales
    (auto simp: max_known_assoc peer_view_def wire_view_def counter_of_merge_wire intro: max_known_commute)

subsection \<open>Runs\<close>

text \<open>
  The states a node's gossip state goes through: created at \<open>t0\<close>, then ticks and merges at readings
  of a clock that never goes back. The index counts the ticks, the last argument is the last reading.
\<close>

inductive gossip_run :: "node_id \<Rightarrow> real \<Rightarrow> gossip_state \<Rightarrow> nat \<Rightarrow> real \<Rightarrow> bool" for self t0 where
  run_init: "gossip_run self t0 (gossip_init self t0) 0 t0"
| run_tick: "gossip_run self t0 g k t \<Longrightarrow> t \<le> t' \<Longrightarrow> tick t' g = Inr g' \<Longrightarrow>
    gossip_run self t0 g' (Suc k) t'"
| run_merge: "gossip_run self t0 g k t \<Longrightarrow> t \<le> t' \<Longrightarrow> dict_ok items \<Longrightarrow>
    gossip_run self t0 (merge_wire t' items g) k t'"

definition seen_within :: "gossip_state \<Rightarrow> real \<Rightarrow> real \<Rightarrow> bool" where
  "seen_within g t0 t \<longleftrightarrow>
     (\<forall>n c ts. map_of (gs_table g) n = Some (c, ts) \<longrightarrow> t0 \<le> ts \<and> ts \<le> t)"

lemma seen_within_mono: "seen_within g t0 t \<Longrightarrow> t \<le> t' \<Longrightarrow> seen_within g t0 t'"
  unfolding seen_within_def by (meson order_trans)

lemma tick_Inr:
  "tick now g = Inr g' \<longleftrightarrow>
     (\<exists>c ts. map_of (gs_table g) (gs_node_id g) = Some (c, ts) \<and>
       g' = g\<lparr>gs_table := dict_put (gs_node_id g) (c + 1, now) (gs_table g)\<rparr>)"
  by (auto simp: tick_def split: option.splits)

lemma merge_entry_cases:
  "merge_entry now c e = Some (x, ts) \<Longrightarrow> e = Some (x, ts) \<or> (c = Some x \<and> ts = now)"
  by (auto simp: merge_entry_def split: option.splits if_splits)

lemma seen_within_merge:
  assumes "seen_within g t0 t" "t \<le> t'" "t0 \<le> t" "dict_ok items"
  shows "seen_within (merge_wire t' items g) t0 t'"
proof -
  have old: "seen_within g t0 t'" using assms(1,2) by (rule seen_within_mono)
  show ?thesis
    unfolding seen_within_def merge_wire_lookup [OF assms(4)]
    using old assms(2,3)
    by (auto simp: seen_within_def split: if_splits dest!: merge_entry_cases)
qed

lemma gossip_run_inv:
  assumes "gossip_run self t0 g k t"
  shows "gossip_ok g \<and> gs_node_id g = self \<and> counter_of g self = Some (int k) \<and>
    seen_within g t0 t \<and> t0 \<le> t"
  using assms
proof (induction rule: gossip_run.induct)
  case run_init
  then show ?case by (simp add: gossip_ok_init) (simp add: gossip_init_def counter_of_def seen_within_def)
next
  case (run_tick g k t t' g')
  have "seen_within g t0 t'" using run_tick by (blast intro: seen_within_mono)
  moreover have "gossip_ok g'" using tick_ok [of g t'] run_tick by auto
  ultimately show ?case using run_tick
    by (fastforce simp: tick_Inr counter_of_def seen_within_def split: if_splits)
next
  case (run_merge g k t t' items)
  then show ?case
    by (auto simp: gossip_ok_merge_wire counter_of_merge_wire intro: seen_within_merge)
qed

inductive_cases gossip_runE: "gossip_run self t0 g k t"

subsection \<open>Properties\<close>

text \<open>Merging a peer's table takes the larger counter for every other node and never touches the
  node's own entry, so merging two tables in either order, or one of them again, leaves the same
  counters.\<close>

theorem merge_wire_is_join:
  assumes "dict_ok a" "dict_ok b"
  shows "(\<forall>n. counter_of (merge_wire t a g) n =
      (if n = gs_node_id g then counter_of g n else max_known (counter_of g n) (map_of a n))) \<and>
    map_of (gs_table (merge_wire t a g)) (gs_node_id g) = map_of (gs_table g) (gs_node_id g) \<and>
    counter_of (merge_wire t a (merge_wire u b g)) = counter_of (merge_wire u b (merge_wire t a g)) \<and>
    counter_of (merge_wire t a (merge_wire u a g)) = counter_of (merge_wire u a g)"
  using assms
  by (auto simp: counter_of_merge_wire merge_wire_lookup fun_eq_iff max_known_assoc
      max_known_commute [of "map_of a _" "map_of b _"])

theorem merge_wire_is_join_witness:
  "let g = gossip_init ''n1'' 0 in
     counter_of (merge_wire 1 [(''n1'', 9), (''n2'', 4)] g) ''n1'' = Some 0 \<and>
     counter_of (merge_wire 1 [(''n1'', 9), (''n2'', 4)] g) ''n2'' = Some 4"
proof -
  have ok: "dict_ok [(''n1'', 9 :: int), (''n2'', 4)]" by simp
  show ?thesis
    unfolding Let_def using merge_wire_is_join [OF ok ok, of 1 "gossip_init ''n1'' 0" 1]
    by (simp add: gossip_init_def counter_of_def)
qed

text \<open>C39. In every state a node's gossip reaches, its own counter is the number of its own ticks,
  whatever its peers sent, its table is well-formed, every recorded time lies between its start and
  now, and a tick cannot fail.\<close>

theorem gossip_run_invariant:
  assumes "gossip_run self t0 g k t"
  shows "counter_of g self = Some (int k) \<and> dict_ok (gs_table g) \<and>
    (\<forall>n c ts. map_of (gs_table g) n = Some (c, ts) \<longrightarrow> t0 \<le> ts \<and> ts \<le> t) \<and>
    (\<exists>g'. tick t g = Inr g') \<and> \<not> believed_down g self now timeout"
  using gossip_run_inv [OF assms] tick_ok [of g t]
  by (auto simp: gossip_ok_def seen_within_def believed_down_def)

theorem gossip_run_invariant_witness:
  "counter_of (merge_wire 2 [(''n1'', 7), (''n2'', 3)] (gossip_init ''n1'' 0)) ''n1'' = Some 0"
proof -
  have "gossip_run ''n1'' 0 (merge_wire 2 [(''n1'', 7), (''n2'', 3)] (gossip_init ''n1'' 0)) 0 2"
    by (rule gossip_run.run_merge [OF gossip_run.run_init]) simp_all
  from gossip_run_invariant [OF this] show ?thesis by simp
qed

text \<open>A higher counter for another node clears suspicion of it for a whole timeout; tables with no
  higher counter, however many a relay sends, leave the record of that node as it is, so the node
  becomes suspected as soon as its last advance is older than the timeout.\<close>

theorem liveness_needs_fresh_counters:
  assumes "n \<noteq> gs_node_id g" "\<forall>(t, m) \<in> set ms. dict_ok m"
  shows "(map_of (gs_table g) n = Some (c, ts) \<and>
      (\<forall>(t, m) \<in> set ms. \<forall>c'. map_of m n = Some c' \<longrightarrow> c' \<le> c) \<longrightarrow>
      (\<forall>now timeout. believed_down (fold (\<lambda>(t, m). merge_wire t m) ms g) n now timeout \<longleftrightarrow>
        timeout < now - ts)) \<and>
    (dict_ok m \<and> map_of m n = Some c' \<and> (\<forall>x. counter_of g n = Some x \<longrightarrow> x < c') \<longrightarrow>
      (\<forall>now. now - t \<le> timeout \<longrightarrow> \<not> believed_down (merge_wire t m g) n now timeout))"
proof (intro conjI impI)
  assume stale: "map_of (gs_table g) n = Some (c, ts) \<and>
      (\<forall>(t, m) \<in> set ms. \<forall>c'. map_of m n = Some c' \<longrightarrow> c' \<le> c)"
  have "map_of (gs_table (fold (\<lambda>(t, m). merge_wire t m) ms g)) n = Some (c, ts) \<and>
      gs_node_id (fold (\<lambda>(t, m). merge_wire t m) ms g) = gs_node_id g"
    using assms(2) stale
  proof (induction ms rule: rev_induct)
    case (snoc x ms)
    then show ?case using assms(1)
      by (cases x) (auto simp: merge_wire_lookup merge_entry_def split: option.splits)
  qed simp
  with assms(1) show "\<forall>now timeout.
      believed_down (fold (\<lambda>(t, m). merge_wire t m) ms g) n now timeout \<longleftrightarrow> timeout < now - ts"
    by (simp add: believed_down_def)
next
  assume fresh: "dict_ok m \<and> map_of m n = Some c' \<and> (\<forall>x. counter_of g n = Some x \<longrightarrow> x < c')"
  with assms(1) have "map_of (gs_table (merge_wire t m g)) n = Some (c', t)"
    by (auto simp: merge_wire_lookup merge_entry_def counter_of_def split: option.splits)
  with assms(1) show "\<forall>now. now - t \<le> timeout \<longrightarrow> \<not> believed_down (merge_wire t m g) n now timeout"
    by (simp add: believed_down_def)
qed

theorem liveness_needs_fresh_counters_witness:
  "let g = merge_wire 0 [(''n3'', 5)] (gossip_init ''n1'' 0) in
     believed_down (merge_wire 9 [(''n3'', 5)] (merge_wire 4 [(''n3'', 1)] g)) ''n3'' 10 6"
proof -
  let ?g = "merge_wire 0 [(''n3'', 5)] (gossip_init ''n1'' 0)"
  let ?ms = "[(4 :: real, [(''n3'', 1 :: int)]), (9, [(''n3'', 5)])]"
  have other: "''n3'' \<noteq> gs_node_id ?g" by (simp add: gossip_init_def)
  have oks: "\<forall>(t, m) \<in> set ?ms. dict_ok m" by simp
  have at: "map_of (gs_table ?g) ''n3'' = Some (5, 0)"
    by (simp add: gossip_init_def merge_wire_def)
  show ?thesis
    unfolding Let_def using liveness_needs_fresh_counters [OF other oks, of 5 0] at by simp
qed

end
