(* ===== verification/Json.thy ===== *)
theory Json
  imports Prelude
begin

section \<open>JSON values and their text\<close>

text \<open>
  The values that clients store, that travel between nodes and that reach the disk, and what the
  code uses of the standard library's \<open>json\<close>: \<open>dumps\<close> with the default separators and
  \<open>ensure_ascii\<close>, and \<open>loads\<close>, a recursive-descent parser. An object lists its members in order. A
  float is the text that \<open>repr\<close> gives it, so \<open>loads\<close> returns the literal it read. Code points stop
  at 255, so an escape above that is outside the model and fails to parse. Two limits of CPython's
  interpreter are left out: \<open>loads\<close> here reads an integer literal of any length (CPython raises
  \<open>ValueError\<close> above 4300 digits) and a value nested to any depth (\<open>RecursionError\<close>). A float literal that
  \<open>repr\<close> would print otherwise keeps its text.

  The parser's recursion takes fuel; \<open>loads\<close> gives it \<open>2 * length s + 2\<close>, and
  \<open>parse_fuel_enough\<close> shows that more changes nothing. The main lemma is the round trip
  \<open>loads_dumps\<close>, for values whose objects have distinct keys and whose floats are literals.
\<close>

datatype json =
    JNull
  | JBool bool
  | JInt int
  | JFloat string
  | JStr string
  | JArr "json list"
  | JObj "(string \<times> json) list"

subsection \<open>Printing\<close>

definition hex_digit :: "nat \<Rightarrow> char" where
  "hex_digit n = (if n < 10 then char_of (48 + n) else char_of (87 + n))"

definition escape_char :: "char \<Rightarrow> string" where
  "escape_char c =
     (let n = of_char c :: nat in
      if n = 34 then [CHR 0x5C, CHR 0x22]
      else if n = 92 then [CHR 0x5C, CHR 0x5C]
      else if n = 10 then [CHR 0x5C, CHR ''n'']
      else if n = 13 then [CHR 0x5C, CHR ''r'']
      else if n = 9 then [CHR 0x5C, CHR ''t'']
      else if n = 12 then [CHR 0x5C, CHR ''f'']
      else if n = 8 then [CHR 0x5C, CHR ''b'']
      else if 32 \<le> n \<and> n \<le> 126 then [c]
      else [CHR 0x5C, CHR ''u'', CHR ''0'', CHR ''0'', hex_digit (n div 16), hex_digit (n mod 16)])"

definition dump_string :: "string \<Rightarrow> string" where
  "dump_string s = CHR 0x22 # concat (map escape_char s) @ [CHR 0x22]"

definition dump_int :: "int \<Rightarrow> string" where
  "dump_int i = (if i < 0 then CHR ''-'' # dec_nat (nat (- i)) else dec_nat (nat i))"

fun join_comma :: "string list \<Rightarrow> string" where
  "join_comma [] = []"
| "join_comma [s] = s"
| "join_comma (s # ss) = s @ '', '' @ join_comma ss"

fun dumps :: "json \<Rightarrow> string" where
  "dumps JNull = ''null''"
| "dumps (JBool b) = (if b then ''true'' else ''false'')"
| "dumps (JInt i) = dump_int i"
| "dumps (JFloat t) = t"
| "dumps (JStr s) = dump_string s"
| "dumps (JArr xs) = ''['' @ join_comma (map dumps xs) @ '']''"
| "dumps (JObj kvs) =
     ''{'' @ join_comma (map (\<lambda>(k, v). dump_string k @ '': '' @ dumps v) kvs) @ ''}''"

subsection \<open>Scanning\<close>

definition is_space :: "char \<Rightarrow> bool" where
  "is_space c \<longleftrightarrow> (of_char c :: nat) \<in> {32, 9, 10, 13}"

definition skip_ws :: "string \<Rightarrow> string" where
  "skip_ws s = dropWhile is_space s"

definition hex_value :: "char \<Rightarrow> nat option" where
  "hex_value c =
     (let n = of_char c :: nat in
      if 48 \<le> n \<and> n \<le> 57 then Some (n - 48)
      else if 97 \<le> n \<and> n \<le> 102 then Some (n - 87)
      else if 65 \<le> n \<and> n \<le> 70 then Some (n - 55)
      else None)"

definition hex4 :: "char \<Rightarrow> char \<Rightarrow> char \<Rightarrow> char \<Rightarrow> nat option" where
  "hex4 a b c d =
     (case (hex_value a, hex_value b, hex_value c, hex_value d) of
        (Some w, Some x, Some y, Some z) \<Rightarrow> Some (4096 * w + 256 * x + 16 * y + z)
      | _ \<Rightarrow> None)"

definition unescape :: "char \<Rightarrow> char option" where
  "unescape c =
     (if c = CHR 0x22 then Some (CHR 0x22) else if c = CHR 0x5C then Some (CHR 0x5C)
      else if c = CHR ''/'' then Some (CHR ''/'') else if c = CHR ''b'' then Some (CHR 0x08)
      else if c = CHR ''f'' then Some (CHR 0x0C) else if c = CHR ''n'' then Some (CHR 0x0A)
      else if c = CHR ''r'' then Some (CHR 0x0D) else if c = CHR ''t'' then Some (CHR 0x09)
      else None)"

definition push_char :: "char \<Rightarrow> (string \<times> string) option \<Rightarrow> (string \<times> string) option" where
  "push_char c r = map_option (\<lambda>(s, rest). (c # s, rest)) r"

text \<open>A string body, up to and including its closing quote.\<close>

fun scan_string :: "string \<Rightarrow> (string \<times> string) option" where
  "scan_string [] = None"
| "scan_string (c # cs) =
     (if c = CHR 0x22 then Some ([], cs)
      else if c = CHR 0x5C then
        (case cs of
           [] \<Rightarrow> None
         | e # es \<Rightarrow>
             if e = CHR ''u'' then
               (case es of
                  h1 # h2 # h3 # h4 # rest \<Rightarrow>
                    (case hex4 h1 h2 h3 h4 of
                       None \<Rightarrow> None
                     | Some n \<Rightarrow> if n < 256 then push_char (char_of n) (scan_string rest) else None)
                | _ \<Rightarrow> None)
             else
               (case unescape e of
                  None \<Rightarrow> None
                | Some x \<Rightarrow> push_char x (scan_string es)))
      else if (of_char c :: nat) < 32 then None
      else push_char c (scan_string cs))"

text \<open>Number literals: an integer part without leading zeros, then a fraction and an exponent.\<close>

definition is_numchar :: "char \<Rightarrow> bool" where
  "is_numchar c \<longleftrightarrow> is_digit c \<or> c \<in> {CHR ''-'', CHR ''+'', CHR ''.'', CHR ''e'', CHR ''E''}"

definition strip_minus :: "string \<Rightarrow> string" where
  "strip_minus s = (case s of [] \<Rightarrow> [] | c # cs \<Rightarrow> if c = CHR ''-'' then cs else s)"

definition int_part_ok :: "string \<Rightarrow> bool" where
  "int_part_ok p \<longleftrightarrow> p \<noteq> [] \<and> (hd p = digit_char 0 \<longrightarrow> length p = 1)"

definition is_int_literal :: "string \<Rightarrow> bool" where
  "is_int_literal t \<longleftrightarrow> int_part_ok (strip_minus t) \<and> list_all is_digit (strip_minus t)"

definition drop_frac :: "string \<Rightarrow> string" where
  "drop_frac s =
     (case s of
        [] \<Rightarrow> []
      | c # cs \<Rightarrow> if c = CHR ''.'' \<and> takeWhile is_digit cs \<noteq> [] then dropWhile is_digit cs else s)"

definition drop_exp :: "string \<Rightarrow> string" where
  "drop_exp s =
     (case s of
        [] \<Rightarrow> []
      | c # cs \<Rightarrow>
          if c \<in> {CHR ''e'', CHR ''E''} then
            let ds = (case cs of [] \<Rightarrow> [] | x # xs \<Rightarrow> if x \<in> {CHR ''+'', CHR ''-''} then xs else cs)
            in if takeWhile is_digit ds \<noteq> [] then dropWhile is_digit ds else s
          else s)"

definition is_float_literal :: "string \<Rightarrow> bool" where
  "is_float_literal t \<longleftrightarrow>
     (let s = strip_minus t; p = takeWhile is_digit s; r = dropWhile is_digit s
      in int_part_ok p \<and> r \<noteq> [] \<and> drop_exp (drop_frac r) = [])"

definition int_value :: "string \<Rightarrow> int" where
  "int_value t =
     (case t of
        [] \<Rightarrow> 0
      | c # cs \<Rightarrow> if c = CHR ''-'' then - int (undec cs) else int (undec t))"

text \<open>
  A number is the longest run of number characters, which must be one literal: a run that is only
  partly a literal leaves a remainder that no surrounding construct accepts.
\<close>

definition scan_number :: "string \<Rightarrow> (json \<times> string) option" where
  "scan_number s =
     (let t = takeWhile is_numchar s; rest = dropWhile is_numchar s
      in if is_int_literal t then Some (JInt (int_value t), rest)
         else if is_float_literal t then Some (JFloat t, rest)
         else None)"

definition scan_word :: "string \<Rightarrow> json \<Rightarrow> string \<Rightarrow> (json \<times> string) option" where
  "scan_word w j s = (if prefix w s then Some (j, drop (length w) s) else None)"

definition scan_other :: "string \<Rightarrow> (json \<times> string) option" where
  "scan_other s =
     (case scan_number s of
        Some r \<Rightarrow> Some r
      | None \<Rightarrow>
          if prefix ''NaN'' s then scan_word ''NaN'' (JFloat ''NaN'') s
          else if prefix ''Infinity'' s then scan_word ''Infinity'' (JFloat ''Infinity'') s
          else scan_word ''-Infinity'' (JFloat ''-Infinity'') s)"

definition scan_atom :: "string \<Rightarrow> (json \<times> string) option" where
  "scan_atom s =
     (if prefix ''null'' s then scan_word ''null'' JNull s
      else if prefix ''true'' s then scan_word ''true'' (JBool True) s
      else if prefix ''false'' s then scan_word ''false'' (JBool False) s
      else scan_other s)"

subsection \<open>Parsing\<close>

text \<open>A pair list becomes a dictionary as \<open>dict(pairs)\<close> does: the last of equal keys wins.\<close>

definition dict_of_pairs :: "(string \<times> json) list \<Rightarrow> (string, json) dict" where
  "dict_of_pairs kvs = fold (\<lambda>(k, v) d. dict_put k v d) kvs []"

fun parse_value :: "nat \<Rightarrow> string \<Rightarrow> (json \<times> string) option"
  and parse_elems :: "nat \<Rightarrow> string \<Rightarrow> (json list \<times> string) option"
  and parse_members :: "nat \<Rightarrow> string \<Rightarrow> ((string \<times> json) list \<times> string) option" where
  "parse_value 0 s = None"
| "parse_value (Suc f) s =
     (case s of
        [] \<Rightarrow> None
      | c # cs \<Rightarrow>
          if c = CHR 0x22 then map_option (\<lambda>(x, rest). (JStr x, rest)) (scan_string cs)
          else if c = CHR ''{'' then
            (case skip_ws cs of
               [] \<Rightarrow> None
             | d # ds \<Rightarrow>
                 if d = CHR ''}'' then Some (JObj [], ds)
                 else map_option (\<lambda>(kvs, rest). (JObj (dict_of_pairs kvs), rest))
                        (parse_members f (skip_ws cs)))
          else if c = CHR ''['' then
            (case skip_ws cs of
               [] \<Rightarrow> None
             | d # ds \<Rightarrow>
                 if d = CHR '']'' then Some (JArr [], ds)
                 else map_option (\<lambda>(xs, rest). (JArr xs, rest)) (parse_elems f (skip_ws cs)))
          else scan_atom s)"
| "parse_elems 0 s = None"
| "parse_elems (Suc f) s =
     (case parse_value f s of
        None \<Rightarrow> None
      | Some (x, r) \<Rightarrow>
          (case skip_ws r of
             [] \<Rightarrow> None
           | c # cs \<Rightarrow>
               if c = CHR '']'' then Some ([x], cs)
               else if c = CHR '','' then
                 map_option (\<lambda>(xs, rest). (x # xs, rest)) (parse_elems f (skip_ws cs))
               else None))"
| "parse_members 0 s = None"
| "parse_members (Suc f) s =
     (case s of
        [] \<Rightarrow> None
      | q # qs \<Rightarrow>
          if q \<noteq> CHR 0x22 then None
          else
            (case scan_string qs of
               None \<Rightarrow> None
             | Some (k, r) \<Rightarrow>
                 (case skip_ws r of
                    [] \<Rightarrow> None
                  | c # cs \<Rightarrow>
                      if c \<noteq> CHR '':'' then None
                      else
                        (case parse_value f (skip_ws cs) of
                           None \<Rightarrow> None
                         | Some (v, r') \<Rightarrow>
                             (case skip_ws r' of
                                [] \<Rightarrow> None
                              | d # ds \<Rightarrow>
                                  if d = CHR ''}'' then Some ([(k, v)], ds)
                                  else if d = CHR '','' then
                                    map_option (\<lambda>(kvs, rest). ((k, v) # kvs, rest))
                                      (parse_members f (skip_ws ds))
                                  else None)))))"

text \<open>\<open>json.loads\<close>: one value with whitespace around it; \<open>JSONDecodeError\<close> is a \<open>ValueError\<close>.\<close>

definition loads :: "string \<Rightarrow> py_error + json" where
  "loads s =
     (case parse_value (2 * length s + 2) (skip_ws s) of
        None \<Rightarrow> Inl ValueError
      | Some (j, rest) \<Rightarrow> if skip_ws rest = [] then Inr j else Inl ValueError)"

subsection \<open>Consumption and fuel\<close>

lemma length_skip_ws: "length (skip_ws s) \<le> length s"
  by (simp add: skip_ws_def length_dropWhile_le)

lemma skip_ws_Cons_length: "skip_ws s = c # cs \<Longrightarrow> length cs < length s"
  using length_skip_ws [of s] by simp

lemma push_char_Some:
  "push_char c r = Some (x, rest) \<longleftrightarrow> (\<exists>y. r = Some (y, rest) \<and> x = c # y)"
  by (auto simp: push_char_def)

lemma scan_string_Cons:
  "scan_string (c # cs) = Some (x, r) \<Longrightarrow>
     r = cs \<or> (\<exists>y ys. scan_string ys = Some (y, r) \<and> length ys < length (c # cs))"
  by (auto split: if_splits list.splits option.splits simp: push_char_Some)
    (metis length_Cons less_Suc_eq less_SucI lessI)+

lemma scan_string_length: "scan_string s = Some (x, r) \<Longrightarrow> length r < length s"
proof (induction s arbitrary: x r rule: length_induct)
  case (1 s)
  show ?case
  proof (cases s)
    case Nil
    with 1 show ?thesis by simp
  next
    case (Cons c cs)
    with 1 scan_string_Cons [of c cs x r] show ?thesis by (metis length_Cons lessI order.strict_trans)
  qed
qed

lemma scan_number_length: "scan_number s = Some (j, r) \<Longrightarrow> length r < length s"
proof -
  assume a: "scan_number s = Some (j, r)"
  have "takeWhile is_numchar s \<noteq> []"
    using a by (auto simp: scan_number_def Let_def is_int_literal_def is_float_literal_def
        int_part_ok_def strip_minus_def split: if_splits)
  moreover have "r = dropWhile is_numchar s"
    using a by (auto simp: scan_number_def Let_def split: if_splits)
  moreover have "length s = length (takeWhile is_numchar s) + length (dropWhile is_numchar s)"
    by (metis length_append takeWhile_dropWhile_id)
  ultimately show ?thesis by simp
qed

lemma scan_word_length: "scan_word w j s = Some (j', r) \<Longrightarrow> w \<noteq> [] \<Longrightarrow> length r < length s"
  by (auto simp: scan_word_def prefix_def split: if_splits)

lemma scan_atom_length: "scan_atom s = Some (j, r) \<Longrightarrow> length r < length s"
  by (auto simp: scan_atom_def scan_other_def dest: scan_number_length split: if_splits option.splits
      dest!: scan_word_length)

text \<open>Inversion of one unfolding of each parser.\<close>

lemma parse_value_Suc:
  "parse_value (Suc f) s = Some (j, r) \<Longrightarrow>
     \<exists>c cs. s = c # cs \<and>
       ((\<exists>x. scan_string cs = Some (x, r)) \<or>
        skip_ws cs = CHR ''}'' # r \<or> skip_ws cs = CHR '']'' # r \<or>
        (\<exists>kvs. parse_members f (skip_ws cs) = Some (kvs, r)) \<or>
        (\<exists>xs. parse_elems f (skip_ws cs) = Some (xs, r)) \<or>
        scan_atom s = Some (j, r))"
  by (auto split: list.splits if_splits)

lemma parse_elems_Suc:
  "parse_elems (Suc f) s = Some (js, r) \<Longrightarrow>
     \<exists>x r1 c cs. parse_value f s = Some (x, r1) \<and> skip_ws r1 = c # cs \<and>
       (r = cs \<or> (\<exists>xs. parse_elems f (skip_ws cs) = Some (xs, r)))"
  by (auto split: list.splits if_splits option.splits)

lemma parse_members_Suc:
  "parse_members (Suc f) s = Some (kvs, r) \<Longrightarrow>
     \<exists>q qs k r1 c cs v r2 d ds. s = q # qs \<and> scan_string qs = Some (k, r1) \<and> skip_ws r1 = c # cs \<and>
       parse_value f (skip_ws cs) = Some (v, r2) \<and> skip_ws r2 = d # ds \<and>
       (r = ds \<or> (\<exists>kvs. parse_members f (skip_ws ds) = Some (kvs, r)))"
  by (auto split: list.splits if_splits option.splits)

lemma parse_length:
  "(\<forall>s j r. parse_value f s = Some (j, r) \<longrightarrow> length r < length s) \<and>
   (\<forall>s js r. parse_elems f s = Some (js, r) \<longrightarrow> length r < length s) \<and>
   (\<forall>s kvs r. parse_members f s = Some (kvs, r) \<longrightarrow> length r < length s)"
proof (induction f)
  case (Suc f)
  have v: "length r < length s" if "parse_value f s = Some (j, r)" for s j r using Suc that by blast
  have e: "length r < length s" if "parse_elems f s = Some (js, r)" for s js r using Suc that by blast
  have m: "length r < length s" if "parse_members f s = Some (kvs, r)" for s kvs r using Suc that by blast
  note ws = length_skip_ws skip_ws_Cons_length
  show ?case
  proof (intro conjI allI impI)
    fix s j r
    assume "parse_value (Suc f) s = Some (j, r)"
    from parse_value_Suc [OF this] show "length r < length s"
      by (elim exE conjE disjE)
        (use scan_string_length scan_atom_length m e ws in \<open>fastforce dest: less_le_trans [OF _ length_skip_ws]\<close>)+
  next
    fix s js r
    assume "parse_elems (Suc f) s = Some (js, r)"
    then obtain x r1 c cs where *: "parse_value f s = Some (x, r1)" "skip_ws r1 = c # cs"
        "r = cs \<or> (\<exists>xs. parse_elems f (skip_ws cs) = Some (xs, r))"
      using parse_elems_Suc by blast
    from *(3) have "length r \<le> length cs" using ws(1) [of cs] by (fastforce dest: e)
    with v [OF *(1)] ws(2) [OF *(2)] show "length r < length s" by linarith
  next
    fix s kvs r
    assume a: "parse_members (Suc f) s = Some (kvs, r)"
    obtain q qs k r1 c cs v' r2 d ds where *: "s = q # qs" "scan_string qs = Some (k, r1)"
        "skip_ws r1 = c # cs" "parse_value f (skip_ws cs) = Some (v', r2)" "skip_ws r2 = d # ds"
        "r = ds \<or> (\<exists>kvs. parse_members f (skip_ws ds) = Some (kvs, r))"
      using parse_members_Suc [OF a] by (elim exE conjE) (rule that)
    from *(6) have "length r \<le> length ds" using ws(1) [of ds] by (fastforce dest: m)
    moreover have "length s = Suc (length qs)" by (simp add: *(1))
    ultimately show "length r < length s"
      using scan_string_length [OF *(2)] ws(2) [OF *(3)] v [OF *(4)] ws(1) [of cs] ws(2) [OF *(5)]
      by linarith
  qed
qed simp

text \<open>Fuel above twice the length of the input never runs out.\<close>

lemma value_fuel_step:
  assumes "\<And>s g. 2 * length s + 2 \<le> f \<Longrightarrow> 2 * length s + 2 \<le> g \<Longrightarrow> parse_elems f s = parse_elems g s"
    and "\<And>s g. 2 * length s + 2 \<le> f \<Longrightarrow> 2 * length s + 2 \<le> g \<Longrightarrow> parse_members f s = parse_members g s"
    and "2 * length s + 1 \<le> Suc f" "2 * length s + 1 \<le> g"
  shows "parse_value (Suc f) s = parse_value g s"
proof -
  obtain g' where g: "g = Suc g'" using assms(4) by (cases g) auto
  show ?thesis
  proof (cases s)
    case (Cons c cs)
    have "2 * length (skip_ws cs) + 2 \<le> f" "2 * length (skip_ws cs) + 2 \<le> g'"
      using assms(3,4) g Cons length_skip_ws [of cs] by simp_all
    from assms(1) [OF this] assms(2) [OF this] show ?thesis by (auto simp: g Cons split: list.split)
  qed (simp add: g)
qed

lemma elems_fuel_step:
  assumes "\<And>s g. 2 * length s + 1 \<le> f \<Longrightarrow> 2 * length s + 1 \<le> g \<Longrightarrow> parse_value f s = parse_value g s"
    and "\<And>s g. 2 * length s + 2 \<le> f \<Longrightarrow> 2 * length s + 2 \<le> g \<Longrightarrow> parse_elems f s = parse_elems g s"
    and "2 * length s + 2 \<le> Suc f" "2 * length s + 2 \<le> g"
  shows "parse_elems (Suc f) s = parse_elems g s"
proof -
  obtain g' where g: "g = Suc g'" using assms(4) by (cases g) auto
  have val: "parse_value f s = parse_value g' s" using assms(3,4) g by (intro assms(1)) simp_all
  have rest: "parse_elems f (skip_ws cs) = parse_elems g' (skip_ws cs)"
    if "parse_value g' s = Some (x, r)" "skip_ws r = c # cs" for x r c cs
  proof -
    have "length r < length s" using parse_length [of g'] that(1) by blast
    moreover have "length cs < length r" "length (skip_ws cs) \<le> length cs"
      using skip_ws_Cons_length [OF that(2)] length_skip_ws [of cs] by simp_all
    ultimately show ?thesis using assms(3,4) g by (intro assms(2)) linarith+
  qed
  show ?thesis using rest by (auto simp: g val split: option.splits list.splits)
qed

lemma members_fuel_step:
  assumes "\<And>s g. 2 * length s + 1 \<le> f \<Longrightarrow> 2 * length s + 1 \<le> g \<Longrightarrow> parse_value f s = parse_value g s"
    and "\<And>s g. 2 * length s + 2 \<le> f \<Longrightarrow> 2 * length s + 2 \<le> g \<Longrightarrow> parse_members f s = parse_members g s"
    and "2 * length s + 2 \<le> Suc f" "2 * length s + 2 \<le> g"
  shows "parse_members (Suc f) s = parse_members g s"
proof -
  obtain g' where g: "g = Suc g'" using assms(4) by (cases g) auto
  have shorter: "length (skip_ws cs) + 3 \<le> length s"
    if "s = q # qs" "scan_string qs = Some (k, r)" "skip_ws r = c # cs" for q qs k r c cs
    using scan_string_length [OF that(2)] skip_ws_Cons_length [OF that(3)] length_skip_ws [of cs] that(1) by simp
  have val: "parse_value f (skip_ws cs) = parse_value g' (skip_ws cs)"
    if "s = q # qs" "scan_string qs = Some (k, r)" "skip_ws r = c # cs" for q qs k r c cs
    using shorter [OF that] assms(3,4) g by (intro assms(1)) linarith+
  have rest: "parse_members f (skip_ws ds) = parse_members g' (skip_ws ds)"
    if "s = q # qs" "scan_string qs = Some (k, r)" "skip_ws r = c # cs"
      "parse_value g' (skip_ws cs) = Some (x, r')" "skip_ws r' = d # ds" for q qs k r c cs x r' d ds
  proof -
    have "length r' < length (skip_ws cs)" using parse_length [of g'] that(4) by blast
    moreover have "length ds < length r'" "length (skip_ws ds) \<le> length ds"
      using skip_ws_Cons_length [OF that(5)] length_skip_ws [of ds] by simp_all
    ultimately show ?thesis using shorter [OF that(1-3)] assms(3,4) g by (intro assms(2)) linarith+
  qed
  show ?thesis using val rest by (auto simp: g split: option.splits list.splits)
qed

lemma parse_fuel_enough:
  "(\<forall>s g. 2 * length s + 1 \<le> f \<and> 2 * length s + 1 \<le> g \<longrightarrow> parse_value f s = parse_value g s) \<and>
   (\<forall>s g. 2 * length s + 2 \<le> f \<and> 2 * length s + 2 \<le> g \<longrightarrow> parse_elems f s = parse_elems g s) \<and>
   (\<forall>s g. 2 * length s + 2 \<le> f \<and> 2 * length s + 2 \<le> g \<longrightarrow> parse_members f s = parse_members g s)"
proof (induction f)
  case (Suc f)
  then have v: "\<And>s g. 2 * length s + 1 \<le> f \<Longrightarrow> 2 * length s + 1 \<le> g \<Longrightarrow> parse_value f s = parse_value g s"
    and e: "\<And>s g. 2 * length s + 2 \<le> f \<Longrightarrow> 2 * length s + 2 \<le> g \<Longrightarrow> parse_elems f s = parse_elems g s"
    and m: "\<And>s g. 2 * length s + 2 \<le> f \<Longrightarrow> 2 * length s + 2 \<le> g \<Longrightarrow> parse_members f s = parse_members g s"
    by blast+
  show ?case
    using value_fuel_step [where f = f, OF e m] elems_fuel_step [where f = f, OF v e] members_fuel_step [where f = f, OF v m] by blast
qed simp

declare parse_value.simps [simp del] parse_elems.simps [simp del] parse_members.simps [simp del]

text \<open>The parsers without fuel, and their equations on the text that \<open>dumps\<close> produces.\<close>

definition pv :: "string \<Rightarrow> (json \<times> string) option" where
  "pv s = parse_value (2 * length s + 2) s"

definition pe :: "string \<Rightarrow> (json list \<times> string) option" where
  "pe s = parse_elems (2 * length s + 2) s"

definition pm :: "string \<Rightarrow> ((string \<times> json) list \<times> string) option" where
  "pm s = parse_members (2 * length s + 2) s"

lemma parse_value_pv: "2 * length s + 1 \<le> f \<Longrightarrow> parse_value f s = pv s"
  unfolding pv_def by (rule parse_fuel_enough [THEN conjunct1, rule_format]) simp

lemma parse_elems_pe: "2 * length s + 2 \<le> f \<Longrightarrow> parse_elems f s = pe s"
  unfolding pe_def by (rule parse_fuel_enough [THEN conjunct2, THEN conjunct1, rule_format]) simp

lemma parse_members_pm: "2 * length s + 2 \<le> f \<Longrightarrow> parse_members f s = pm s"
  unfolding pm_def by (rule parse_fuel_enough [THEN conjunct2, THEN conjunct2, rule_format]) simp

lemma pv_step: "pv s = parse_value (Suc (2 * length s + 1)) s"
  unfolding pv_def by (rule arg_cong2 [where f = parse_value]) simp_all

lemma pe_step: "pe s = parse_elems (Suc (2 * length s + 1)) s"
  unfolding pe_def by (rule arg_cong2 [where f = parse_elems]) simp_all

lemma pm_step: "pm s = parse_members (Suc (2 * length s + 1)) s"
  unfolding pm_def by (rule arg_cong2 [where f = parse_members]) simp_all

lemma pv_string: "pv (CHR 0x22 # cs) = map_option (\<lambda>(x, rest). (JStr x, rest)) (scan_string cs)"
  by (simp add: pv_step parse_value.simps(2))

lemma pv_array:
  "\<not> is_space d \<Longrightarrow>
     pv (CHR ''['' # d # ds) =
       (if d = CHR '']'' then Some (JArr [], ds)
        else map_option (\<lambda>(xs, rest). (JArr xs, rest)) (pe (d # ds)))"
  by (simp add: pv_step parse_value.simps(2) skip_ws_def parse_elems_pe)

lemma pv_object:
  "\<not> is_space d \<Longrightarrow>
     pv (CHR ''{'' # d # ds) =
       (if d = CHR ''}'' then Some (JObj [], ds)
        else map_option (\<lambda>(kvs, rest). (JObj (dict_of_pairs kvs), rest)) (pm (d # ds)))"
  by (simp add: pv_step parse_value.simps(2) skip_ws_def parse_members_pm)

lemma pv_atom: "c \<notin> {CHR 0x22, CHR ''{'', CHR ''[''} \<Longrightarrow> pv (c # cs) = scan_atom (c # cs)"
  by (simp add: pv_step parse_value.simps(2))

lemma parse_elems_value: "parse_value (2 * length s + 1) s = pv s"
  by (rule parse_value_pv) simp

lemma pe_last:
  assumes "pv s = Some (x, CHR '']'' # rest)"
  shows "pe s = Some ([x], rest)"
  using assms parse_elems_value [of s] by (simp add: pe_step parse_elems.simps(2) skip_ws_def is_space_def)

lemma pe_more:
  assumes "pv s = Some (x, CHR '','' # CHR '' '' # d # ds)" "\<not> is_space d"
  shows "pe s = map_option (\<lambda>(xs, rest). (x # xs, rest)) (pe (d # ds))"
proof -
  have "length (CHR '','' # CHR '' '' # d # ds) < length s"
    using assms(1) parse_length [of "2 * length s + 2"] unfolding pv_def by blast
  then have "parse_elems (2 * length s + 1) (d # ds) = pe (d # ds)"
    by (intro parse_elems_pe) simp
  then show ?thesis
    using assms parse_elems_value [of s] by (simp add: pe_step [of s] parse_elems.simps(2) skip_ws_def is_space_def)
qed

lemma pm_last:
  assumes "scan_string qs = Some (k, CHR '':'' # CHR '' '' # d # ds)" "\<not> is_space d"
    and "pv (d # ds) = Some (v, CHR ''}'' # rest)"
  shows "pm (CHR 0x22 # qs) = Some ([(k, v)], rest)"
proof -
  have "parse_value (2 * length (CHR 0x22 # qs) + 1) (d # ds) = pv (d # ds)"
    using scan_string_length [OF assms(1)] by (intro parse_value_pv) simp
  then show ?thesis using assms by (simp add: pm_step parse_members.simps(2) skip_ws_def is_space_def)
qed

lemma pm_more:
  assumes "scan_string qs = Some (k, CHR '':'' # CHR '' '' # d # ds)" "\<not> is_space d"
    and "pv (d # ds) = Some (v, CHR '','' # CHR '' '' # e # es)" "\<not> is_space e"
  shows "pm (CHR 0x22 # qs) = map_option (\<lambda>(kvs, rest). ((k, v) # kvs, rest)) (pm (e # es))"
proof -
  have len: "length (CHR '':'' # CHR '' '' # d # ds) < length qs"
    using assms(1) by (rule scan_string_length)
  have "length (CHR '','' # CHR '' '' # e # es) < length (d # ds)"
    using assms(3) parse_length [of "2 * length (d # ds) + 2"] unfolding pv_def by blast
  with len have "parse_members (2 * length (CHR 0x22 # qs) + 1) (e # es) = pm (e # es)"
    by (intro parse_members_pm) simp
  moreover have "parse_value (2 * length (CHR 0x22 # qs) + 1) (d # ds) = pv (d # ds)"
    using len by (intro parse_value_pv) simp
  ultimately show ?thesis using assms by (simp add: pm_step [of "CHR 0x22 # qs"] parse_members.simps(2) skip_ws_def is_space_def)
qed

subsection \<open>Round trip of strings and numbers\<close>

lemma hex_value_hex_digit: "n < 16 \<Longrightarrow> hex_value (hex_digit n) = Some n"
  by (simp add: hex_value_def hex_digit_def Let_def)

lemma hex4_escape: "n < 256 \<Longrightarrow> hex4 (CHR ''0'') (CHR ''0'') (hex_digit (n div 16)) (hex_digit (n mod 16)) = Some n"
proof -
  assume "n < 256"
  then have "n div 16 < 16" by (simp add: div_less_iff_less_mult)
  moreover have "hex_value (CHR ''0'') = Some 0" by (simp add: hex_value_def)
  ultimately show ?thesis
    using hex_value_hex_digit [of "n div 16"] hex_value_hex_digit [of "n mod 16"] by (simp add: hex4_def)
qed

lemma char_codes:
  "(of_char c :: nat) = 34 \<longleftrightarrow> c = CHR 0x22" "(of_char c :: nat) = 92 \<longleftrightarrow> c = CHR 0x5C"
  "(of_char c :: nat) = 10 \<longleftrightarrow> c = CHR 0x0A" "(of_char c :: nat) = 13 \<longleftrightarrow> c = CHR 0x0D"
  "(of_char c :: nat) = 9 \<longleftrightarrow> c = CHR 0x09" "(of_char c :: nat) = 12 \<longleftrightarrow> c = CHR 0x0C"
  "(of_char c :: nat) = 8 \<longleftrightarrow> c = CHR 0x08"
  using of_char_eq_iff [of c "CHR 0x22", where ?'a = nat] of_char_eq_iff [of c "CHR 0x5C", where ?'a = nat]
    of_char_eq_iff [of c "CHR 0x0A", where ?'a = nat] of_char_eq_iff [of c "CHR 0x0D", where ?'a = nat]
    of_char_eq_iff [of c "CHR 0x09", where ?'a = nat] of_char_eq_iff [of c "CHR 0x0C", where ?'a = nat]
    of_char_eq_iff [of c "CHR 0x08", where ?'a = nat]
  by simp_all

declare scan_string.simps(2) [simp del]

lemma scan_string_plain:
  "c \<noteq> CHR 0x22 \<Longrightarrow> c \<noteq> CHR 0x5C \<Longrightarrow> 32 \<le> (of_char c :: nat) \<Longrightarrow>
     scan_string (c # t) = push_char c (scan_string t)"
  by (simp add: scan_string.simps(2))

lemma scan_string_short:
  "e \<noteq> CHR ''u'' \<Longrightarrow> unescape e = Some c \<Longrightarrow>
     scan_string (CHR 0x5C # e # t) = push_char c (scan_string t)"
  by (simp add: scan_string.simps(2))

lemma scan_string_u:
  "scan_string (CHR 0x5C # CHR ''u'' # CHR ''0'' # CHR ''0'' #
      hex_digit (of_char c div 16) # hex_digit (of_char c mod 16) # t) = push_char c (scan_string t)"
  by (simp add: scan_string.simps(2) hex4_escape)

lemma scan_string_escape_char: "scan_string (escape_char c @ t) = push_char c (scan_string t)"
proof -
  consider "c \<in> {CHR 0x22, CHR 0x5C, CHR 0x0A, CHR 0x0D, CHR 0x09, CHR 0x0C, CHR 0x08}"
    | "c \<notin> {CHR 0x22, CHR 0x5C, CHR 0x0A, CHR 0x0D, CHR 0x09, CHR 0x0C, CHR 0x08}" by blast
  then show ?thesis
  proof cases
    case 1
    then show ?thesis
      by (elim insertE emptyE) (simp_all add: escape_char_def scan_string_short unescape_def)
  next
    case 2
    then show ?thesis
      by (simp add: escape_char_def Let_def char_codes scan_string_plain scan_string_u)
  qed
qed

lemma scan_string_dump: "scan_string (concat (map escape_char s) @ CHR 0x22 # rest) = Some (s, rest)"
  by (induction s) (simp_all add: scan_string_escape_char push_char_def scan_string.simps(2))

text \<open>What may follow a value: nothing, or a character that no number contains.\<close>

definition delim :: "string \<Rightarrow> bool" where
  "delim rest \<longleftrightarrow> rest = [] \<or> \<not> is_numchar (hd rest)"

definition float_ok :: "string \<Rightarrow> bool" where
  "float_ok t \<longleftrightarrow>
     (list_all is_numchar t \<and> is_float_literal t) \<or> t \<in> {''NaN'', ''Infinity'', ''-Infinity''}"

fun json_ok :: "json \<Rightarrow> bool" where
  "json_ok (JFloat t) = float_ok t"
| "json_ok (JArr xs) = list_all json_ok xs"
| "json_ok (JObj kvs) = (dict_ok kvs \<and> list_all (\<lambda>(k, v). json_ok v) kvs)"
| "json_ok _ = True"

lemma takeWhile_numchar:
  "list_all is_numchar t \<Longrightarrow> delim rest \<Longrightarrow>
     takeWhile is_numchar (t @ rest) = t \<and> dropWhile is_numchar (t @ rest) = rest"
  by (cases rest) (auto simp: delim_def takeWhile_append2 dropWhile_append2 takeWhile_stop)

lemma scan_number_append:
  "list_all is_numchar t \<Longrightarrow> delim rest \<Longrightarrow>
     scan_number (t @ rest) =
       (if is_int_literal t then Some (JInt (int_value t), rest)
        else if is_float_literal t then Some (JFloat t, rest) else None)"
  using takeWhile_numchar [of t rest] by (simp add: scan_number_def Let_def)

lemma is_digit_not_minus: "\<not> is_digit (CHR ''-'')"
  by (simp add: is_digit_def)

lemma hd_dec_nat_digit: "is_digit (hd (dec_nat n))"
  by (rule dec_nat_digits [of _ n]) simp

lemma dec_nat_Cons: "dec_nat n = c # cs \<Longrightarrow> c \<noteq> CHR ''-''"
  using hd_dec_nat_digit [of n] is_digit_not_minus by auto

lemma int_part_dec_nat: "int_part_ok (dec_nat n)"
  using hd_dec_nat [of n] by (cases "n = 0") (simp_all add: int_part_ok_def)

lemma strip_minus_dec_nat: "strip_minus (dec_nat n) = dec_nat n"
  by (cases "dec_nat n") (auto simp: strip_minus_def dest: dec_nat_Cons)

lemma dump_int_literal: "is_int_literal (dump_int i)"
proof -
  have "strip_minus (dump_int i) = dec_nat (nat \<bar>i\<bar>)"
    by (simp add: dump_int_def strip_minus_dec_nat) (simp add: strip_minus_def)
  then show ?thesis
    using int_part_dec_nat dec_nat_digits by (simp add: is_int_literal_def)
qed

lemma dump_int_numchars: "list_all is_numchar (dump_int i)"
  using dec_nat_digits by (auto simp: dump_int_def is_numchar_def)

lemma int_value_dump_int: "int_value (dump_int i) = i"
proof (cases "i < 0")
  case False
  obtain c cs where d: "dec_nat (nat i) = c # cs" by (cases "dec_nat (nat i)") auto
  have "undec (c # cs) = nat i" using undec_dec_nat [of "nat i"] by (simp only: d)
  with False d dec_nat_Cons [OF d] show ?thesis by (simp add: dump_int_def int_value_def)
qed (simp add: dump_int_def int_value_def)

lemma float_not_int: "is_float_literal t \<Longrightarrow> \<not> is_int_literal t"
  by (auto simp: is_float_literal_def is_int_literal_def Let_def dropWhile_eq_Nil_conv)

text \<open>The first character of a value's text.\<close>

definition starts_ok :: "string \<Rightarrow> bool" where
  "starts_ok s \<longleftrightarrow> s \<noteq> [] \<and> \<not> is_space (hd s) \<and> hd s \<noteq> CHR '']'' \<and> hd s \<noteq> CHR ''}''"

definition num_start :: "char \<Rightarrow> bool" where
  "num_start c \<longleftrightarrow> is_digit c \<or> c = CHR ''-''"

lemma num_start_neq:
  "num_start c \<Longrightarrow> c \<notin> {CHR 0x22, CHR ''{'', CHR ''['', CHR ''n'', CHR ''t'', CHR ''f'', CHR ''N'', CHR ''I'',
     CHR '']'', CHR ''}'', CHR '' ''} \<and> \<not> is_space c"
  by (auto simp: num_start_def is_digit_def is_space_def)

lemma num_start_dump_int: "dump_int i \<noteq> [] \<and> num_start (hd (dump_int i))"
  using hd_dec_nat_digit by (simp add: dump_int_def num_start_def)

lemma num_start_float: "is_float_literal t \<Longrightarrow> t \<noteq> [] \<and> num_start (hd t)"
  by (cases t) (auto simp: is_float_literal_def Let_def strip_minus_def int_part_ok_def num_start_def
      split: if_splits)

lemma starts_ok_num: "t \<noteq> [] \<Longrightarrow> num_start (hd t) \<Longrightarrow> starts_ok t"
  using num_start_neq [of "hd t"] by (simp add: starts_ok_def)

lemma starts_ok_dumps: "json_ok j \<Longrightarrow> starts_ok (dumps j)"
proof (cases j)
  case (JInt i)
  then show ?thesis using num_start_dump_int by (simp add: starts_ok_num)
next
  case (JFloat t)
  assume "json_ok j"
  with JFloat show ?thesis
    using num_start_float starts_ok_num by (auto simp: float_ok_def) (auto simp: starts_ok_def is_space_def)
qed (auto simp: starts_ok_def is_space_def dump_string_def)

lemma starts_ok_append: "starts_ok s \<Longrightarrow> starts_ok (s @ t)"
  by (simp add: starts_ok_def)

lemma starts_ok_Cons: "starts_ok s \<Longrightarrow> \<exists>c cs. s = c # cs \<and> \<not> is_space c \<and> c \<noteq> CHR '']'' \<and> c \<noteq> CHR ''}''"
  by (cases s) (auto simp: starts_ok_def)

lemma pv_number:
  assumes "list_all is_numchar t" "delim rest" "t \<noteq> []" "num_start (hd t)" "is_int_literal t \<or> is_float_literal t"
  shows "pv (t @ rest) = Some (if is_int_literal t then JInt (int_value t) else JFloat t, rest)"
proof -
  obtain c cs where t: "t = c # cs" using assms(3) by (cases t) auto
  have "pv (t @ rest) = scan_atom (t @ rest)"
    using num_start_neq assms(4) unfolding t append_Cons by (intro pv_atom) auto
  also have "\<dots> = scan_other (t @ rest)"
    using num_start_neq assms(4) by (auto simp: t scan_atom_def)
  also have "\<dots> = Some (if is_int_literal t then JInt (int_value t) else JFloat t, rest)"
    using assms(5) by (auto simp: scan_other_def scan_number_append [OF assms(1,2)])
  finally show ?thesis .
qed

lemma pv_float: "float_ok t \<Longrightarrow> delim rest \<Longrightarrow> pv (t @ rest) = Some (JFloat t, rest)"
proof -
  assume ok: "float_ok t" and d: "delim rest"
  show ?thesis
  proof (cases "t \<in> {''NaN'', ''Infinity'', ''-Infinity''}")
    case True
    have none: "scan_number (''NaN'' @ rest) = None" "scan_number (''Infinity'' @ rest) = None"
      "scan_number (''-Infinity'' @ rest) = None"
      by (simp_all add: scan_number_def Let_def is_numchar_def is_digit_def is_int_literal_def
          is_float_literal_def strip_minus_def int_part_ok_def)
    show ?thesis using True none
      by (elim insertE emptyE) (simp_all add: pv_atom scan_atom_def scan_other_def scan_word_def)
  next
    case False
    with ok have f: "list_all is_numchar t" "is_float_literal t" by (auto simp: float_ok_def)
    then show ?thesis
      using pv_number [OF f(1) d] num_start_float [OF f(2)] float_not_int [OF f(2)] by simp
  qed
qed

subsection \<open>Round trip of values\<close>

lemma fold_dict_put_fresh:
  "distinct (map fst (d @ kvs)) \<Longrightarrow> fold (\<lambda>(k, v) d. dict_put k v d) kvs d = d @ kvs"
proof (induction kvs arbitrary: d)
  case (Cons kv kvs)
  obtain k v where kv: "kv = (k, v)" by (cases kv)
  have "k \<notin> fst ` set d" using Cons.prems by (auto simp: kv)
  then have "dict_put k v d = d @ [(k, v)]" by (induction d) auto
  with Cons kv show ?case by simp
qed simp

lemma dict_of_pairs_ok: "dict_ok kvs \<Longrightarrow> dict_of_pairs kvs = kvs"
  using fold_dict_put_fresh [of "[]" kvs] by (simp add: dict_of_pairs_def)

lemma delim_close [simp]:
  "delim (CHR '']'' # s)" "delim (CHR ''}'' # s)" "delim (CHR '','' # s)" "delim []"
  by (simp_all add: delim_def is_numchar_def is_digit_def)

definition parses :: "json \<Rightarrow> bool" where
  "parses j \<longleftrightarrow> starts_ok (dumps j) \<and> (\<forall>rest. delim rest \<longrightarrow> pv (dumps j @ rest) = Some (j, rest))"

lemma pe_join:
  assumes "xs \<noteq> []" "\<forall>x \<in> set xs. parses x"
  shows "starts_ok (join_comma (map dumps xs)) \<and>
    pe (join_comma (map dumps xs) @ CHR '']'' # rest) = Some (xs, rest)"
  using assms
proof (induction xs rule: list_nonempty_induct)
  case (single x)
  then show ?case by (auto simp: parses_def intro!: pe_last)
next
  case (cons x xs)
  let ?rest = "join_comma (map dumps xs) @ CHR '']'' # rest"
  from cons have IH: "starts_ok (join_comma (map dumps xs))" "pe ?rest = Some (xs, rest)"
    and x: "starts_ok (dumps x)" "\<And>rest. delim rest \<Longrightarrow> pv (dumps x @ rest) = Some (x, rest)"
    by (auto simp: parses_def)
  have join: "join_comma (map dumps (x # xs)) = dumps x @ '', '' @ join_comma (map dumps xs)"
    using cons(1) by (cases xs) auto
  obtain d ds where d: "?rest = d # ds" "\<not> is_space d"
    using starts_ok_Cons [OF starts_ok_append [OF IH(1), of "CHR '']'' # rest"]] by auto
  have "pv (dumps x @ CHR '','' # CHR '' '' # ?rest) = Some (x, CHR '','' # CHR '' '' # ?rest)"
    by (rule x(2)) simp
  from pe_more [OF this [unfolded d(1)] d(2)] IH(2)
  have "pe (dumps x @ CHR '','' # CHR '' '' # ?rest) = Some (x # xs, rest)" by (simp add: d(1))
  with x(1) show ?case unfolding join by (simp add: starts_ok_append)
qed

definition dump_member :: "string \<times> json \<Rightarrow> string" where
  "dump_member kv = dump_string (fst kv) @ '': '' @ dumps (snd kv)"

lemma dump_member_append:
  "dump_member kv @ t = CHR 0x22 # concat (map escape_char (fst kv)) @
     CHR 0x22 # CHR '':'' # CHR '' '' # dumps (snd kv) @ t"
  by (simp add: dump_member_def dump_string_def)

lemma pm_join:
  assumes "kvs \<noteq> []" "\<forall>kv \<in> set kvs. parses (snd kv)"
  shows "starts_ok (join_comma (map dump_member kvs)) \<and>
    pm (join_comma (map dump_member kvs) @ CHR ''}'' # rest) = Some (kvs, rest)"
  using assms
proof (induction kvs rule: list_nonempty_induct)
  case (single kv)
  then have v: "starts_ok (dumps (snd kv))"
      "pv (dumps (snd kv) @ CHR ''}'' # rest) = Some (snd kv, CHR ''}'' # rest)"
    by (auto simp: parses_def)
  obtain d ds where d: "dumps (snd kv) @ CHR ''}'' # rest = d # ds" "\<not> is_space d"
    using starts_ok_Cons [OF starts_ok_append [OF v(1), of "CHR ''}'' # rest"]] by auto
  have "scan_string (concat (map escape_char (fst kv)) @ CHR 0x22 # CHR '':'' # CHR '' '' # d # ds)
      = Some (fst kv, CHR '':'' # CHR '' '' # d # ds)"
    by (rule scan_string_dump)
  from pm_last [OF this d(2) v(2) [unfolded d(1)]]
  have "pm (dump_member kv @ CHR ''}'' # rest) = Some ([(fst kv, snd kv)], rest)"
    unfolding dump_member_append d(1) .
  moreover have "starts_ok (dump_member kv)"
    using dump_member_append [of kv "[]"] by (simp add: starts_ok_def is_space_def)
  ultimately show ?case by simp
next
  case (cons kv kvs)
  let ?rest = "join_comma (map dump_member kvs) @ CHR ''}'' # rest"
  let ?more = "CHR '','' # CHR '' '' # ?rest"
  from cons have IH: "starts_ok (join_comma (map dump_member kvs))" "pm ?rest = Some (kvs, rest)"
    and v: "starts_ok (dumps (snd kv))" "pv (dumps (snd kv) @ ?more) = Some (snd kv, ?more)"
    by (auto simp: parses_def)
  have join: "join_comma (map dump_member (kv # kvs)) = dump_member kv @ '', '' @ join_comma (map dump_member kvs)"
    using cons(1) by (cases kvs) auto
  obtain e es where e: "?rest = e # es" "\<not> is_space e"
    using starts_ok_Cons [OF starts_ok_append [OF IH(1), of "CHR ''}'' # rest"]] by auto
  obtain d ds where d: "dumps (snd kv) @ ?more = d # ds" "\<not> is_space d"
    using starts_ok_Cons [OF starts_ok_append [OF v(1), of ?more]] by auto
  have sc: "scan_string (concat (map escape_char (fst kv)) @ CHR 0x22 # CHR '':'' # CHR '' '' # d # ds)
      = Some (fst kv, CHR '':'' # CHR '' '' # d # ds)"
    by (rule scan_string_dump)
  have v': "pv (d # ds) = Some (snd kv, CHR '','' # CHR '' '' # e # es)"
    by (simp only: d(1) [symmetric] e(1) [symmetric] v(2))
  have "pm (CHR 0x22 # concat (map escape_char (fst kv)) @ CHR 0x22 # CHR '':'' # CHR '' '' # d # ds)
      = map_option (\<lambda>(kvs, rest). ((fst kv, snd kv) # kvs, rest)) (pm (e # es))"
    by (rule pm_more [OF sc d(2) v' e(2)])
  with IH(2)
  have "pm (dump_member kv @ ?more) = Some (kv # kvs, rest)"
    unfolding dump_member_append d(1) by (simp add: e(1))
  moreover have "starts_ok (dump_member kv @ t)" for t
    unfolding dump_member_append by (simp add: starts_ok_def is_space_def)
  ultimately show ?case unfolding join by simp
qed

lemma dumps_JObj: "dumps (JObj kvs) = CHR ''{'' # join_comma (map dump_member kvs) @ ''}''"
  by (simp add: dump_member_def [abs_def] case_prod_unfold)

lemma json_ok_parses: "json_ok j \<Longrightarrow> parses j"
proof (induction j)
  case (JInt i)
  show ?case
    using pv_number [OF dump_int_numchars] num_start_dump_int dump_int_literal int_value_dump_int
      starts_ok_dumps [of "JInt i"] by (simp add: parses_def)
next
  case (JFloat t)
  then show ?case using pv_float starts_ok_dumps [of "JFloat t"] by (simp add: parses_def)
next
  case (JStr s)
  show ?case
    using starts_ok_dumps [of "JStr s"]
    by (simp add: parses_def dump_string_def pv_string scan_string_dump)
next
  case (JArr xs)
  then have xs: "\<forall>x \<in> set xs. parses x" by simp
  have "pv (dumps (JArr xs) @ rest) = Some (JArr xs, rest)" for rest
  proof (cases "xs = []")
    case True
    then show ?thesis by (simp add: pv_array is_space_def)
  next
    case False
    note pe = pe_join [OF False xs, of rest]
    obtain d ds where d: "join_comma (map dumps xs) @ CHR '']'' # rest = d # ds" "\<not> is_space d" "d \<noteq> CHR '']''"
      using starts_ok_Cons [OF starts_ok_append [of _ "CHR '']'' # rest"]] pe by blast
    with pe show ?thesis by (simp add: pv_array)
  qed
  with JArr.prems starts_ok_dumps show ?case unfolding parses_def by blast
next
  case (JObj kvs)
  then have kvs: "\<forall>kv \<in> set kvs. parses (snd kv)" by fastforce
  have "pv (dumps (JObj kvs) @ rest) = Some (JObj kvs, rest)" for rest
  proof (cases "kvs = []")
    case True
    then show ?thesis by (simp add: pv_object is_space_def)
  next
    case False
    note pm = pm_join [OF False kvs, of rest]
    obtain d ds where d: "join_comma (map dump_member kvs) @ CHR ''}'' # rest = d # ds" "\<not> is_space d" "d \<noteq> CHR ''}''"
      using starts_ok_Cons [OF starts_ok_append [of _ "CHR ''}'' # rest"]] pm by blast
    have "dict_ok kvs" using JObj.prems by simp
    with pm d show ?thesis unfolding dumps_JObj by (simp add: pv_object dict_of_pairs_ok)
  qed
  with JObj.prems starts_ok_dumps show ?case unfolding parses_def by blast
qed (simp_all add: parses_def starts_ok_def is_space_def pv_atom scan_atom_def scan_word_def)

lemma loads_dumps: "json_ok j \<Longrightarrow> loads (dumps j) = Inr j"
proof -
  assume "json_ok j"
  then have p: "parses j" by (rule json_ok_parses)
  then obtain c cs where "dumps j = c # cs" "\<not> is_space c"
    using starts_ok_Cons unfolding parses_def by blast
  then have "skip_ws (dumps j) = dumps j" by (simp add: skip_ws_def)
  moreover have "pv (dumps j) = Some (j, [])" using p unfolding parses_def by (metis append_Nil2 delim_close(4))
  ultimately show ?thesis by (simp add: loads_def pv_def skip_ws_def)
qed

subsection \<open>What the parser returns\<close>

lemma dict_of_pairs_members: "dict_ok (dict_of_pairs kvs) \<and> set (dict_of_pairs kvs) \<subseteq> set kvs"
proof -
  have "dict_ok d \<Longrightarrow> dict_ok (fold (\<lambda>(k, v) d. dict_put k v d) kvs d) \<and>
      set (fold (\<lambda>(k, v) d. dict_put k v d) kvs d) \<subseteq> set d \<union> set kvs" for d :: "(string, json) dict"
  proof (induction kvs arbitrary: d)
    case (Cons x kvs)
    obtain k v where x: "x = (k, v)" by (cases x)
    show ?case using Cons.IH [OF dict_ok_put [OF Cons.prems], of k v] dict_put_subset [of k v d] by (auto simp: x)
  qed simp
  from this [of "[]"] show ?thesis by (simp add: dict_of_pairs_def)
qed

lemma scan_atom_json_ok: "scan_atom s = Some (j, r) \<Longrightarrow> json_ok j"
  by (auto simp: scan_atom_def scan_word_def scan_other_def scan_number_def Let_def float_ok_def list_all_iff
      dest: set_takeWhileD split: if_splits option.splits)

lemma parse_json_ok:
  "parse_value f s = Some (j, r) \<Longrightarrow> json_ok j"
  "parse_elems f s = Some (xs, r) \<Longrightarrow> list_all json_ok xs"
  "parse_members f s = Some (kvs, r) \<Longrightarrow> list_all (\<lambda>(k, v). json_ok v) kvs"
proof (induction f s and f s and f s arbitrary: j r and xs r and kvs r
    rule: parse_value_parse_elems_parse_members.induct)
  case (2 f s)
  show ?case
  proof (cases s)
    case (Cons c cs)
    note IH = "2.IH" [OF Cons] and p = "2.prems" [unfolded Cons parse_value.simps(2) list.case]
    show ?thesis
    proof (cases "c = CHR ''{''")
      case True
      then show ?thesis using IH(1) p dict_of_pairs_members by (fastforce simp: list_all_iff split: list.splits if_splits)
    next
      case False
      then show ?thesis using IH(2) p scan_atom_json_ok by (cases "skip_ws cs") (auto split: if_splits)
    qed
  qed (use "2.prems" in \<open>simp add: parse_value.simps(2)\<close>)
next
  case (4 f s)
  obtain x r1 where x: "parse_value f s = Some (x, r1)" using "4.prems" by (auto simp: parse_elems.simps(2) split: option.splits)
  then show ?case
    using "4.IH"(1) [OF x] "4.IH"(2) [OF x refl] "4.prems"
    by (cases "skip_ws r1") (auto simp: parse_elems.simps(2) split: if_splits)
next
  case (6 f s)
  then show ?case
    by (auto simp: parse_members.simps(2) split: list.splits if_splits option.splits) fastforce
qed (simp_all add: parse_value.simps(1) parse_elems.simps(1) parse_members.simps(1))

lemma loads_json_ok: "loads s = Inr j \<Longrightarrow> json_ok j"
  by (auto simp: loads_def split: option.splits if_splits dest: parse_json_ok(1))

end
