(* ===== verification/Storage.thy ===== *)
theory Storage
  imports Json
begin

section \<open>Storage backends\<close>

text \<open>
  Models \<open>src/dynamokv/storage/\<close>: the protocol \<open>StorageBackend\<close> as the locale \<open>storage_backend\<close>,
  \<open>MemoryStorage\<close> (a dictionary) and \<open>SqliteStorage\<close> (a table from keys to JSON text, one row for
  each key, reached by one statement for each call). Python's \<open>None\<close> is JSON's null: \<open>get\<close> returns
  \<open>JNull\<close> for a missing key and for a stored null, and only \<open>exists\<close> tells them apart.

  The interface says that a backend behaves as a partial map from keys to values; both backends are
  interpreted, and the encrypted one is in the theory of \<open>crypto.py\<close>.
\<close>

subsection \<open>The protocol\<close>

definition none_or :: "json option \<Rightarrow> json" where
  "none_or v = (case v of None \<Rightarrow> JNull | Some j \<Rightarrow> j)"

lemma none_or_simps [simp]: "none_or None = JNull" "none_or (Some j) = j"
  by (simp_all add: none_or_def)

text \<open>
  \<open>inv\<close> is the backend's invariant, \<open>absm\<close> the map it stands for, \<open>ok\<close> the values it can hold.
\<close>

locale storage_backend =
  fixes inv :: "'s \<Rightarrow> bool"
    and absm :: "'s \<Rightarrow> key \<Rightarrow> json option"
    and ok :: "json \<Rightarrow> bool"
    and get :: "'s \<Rightarrow> key \<Rightarrow> py_error + json"
    and put :: "'s \<Rightarrow> key \<Rightarrow> json \<Rightarrow> 's"
    and delete :: "'s \<Rightarrow> key \<Rightarrow> bool \<times> 's"
    and exists :: "'s \<Rightarrow> key \<Rightarrow> bool"
  assumes get_absm: "inv s \<Longrightarrow> get s k = Inr (none_or (absm s k))"
    and absm_put: "inv s \<Longrightarrow> ok v \<Longrightarrow> absm (put s k v) = (absm s)(k \<mapsto> v)"
    and inv_put: "inv s \<Longrightarrow> ok v \<Longrightarrow> inv (put s k v)"
    and fst_delete: "inv s \<Longrightarrow> fst (delete s k) \<longleftrightarrow> absm s k \<noteq> None"
    and absm_delete: "inv s \<Longrightarrow> absm (snd (delete s k)) = (absm s)(k := None)"
    and inv_delete: "inv s \<Longrightarrow> inv (snd (delete s k))"
    and exists_absm: "inv s \<Longrightarrow> exists s k \<longleftrightarrow> absm s k \<noteq> None"
begin

lemmas absm_simps = absm_put absm_delete

lemma get_put: "inv s \<Longrightarrow> ok v \<Longrightarrow> get (put s k v) k' = (if k' = k then Inr v else get s k')"
  by (simp add: get_absm inv_put absm_put)

lemma exists_put: "inv s \<Longrightarrow> ok v \<Longrightarrow> exists (put s k v) k' \<longleftrightarrow> k' = k \<or> exists s k'"
  by (simp add: exists_absm inv_put absm_put)

lemma get_delete: "inv s \<Longrightarrow> get (snd (delete s k)) k' = (if k' = k then Inr JNull else get s k')"
  by (simp add: get_absm inv_delete absm_delete)

lemma delete_exists: "inv s \<Longrightarrow> fst (delete s k) \<longleftrightarrow> exists s k"
  by (simp add: fst_delete exists_absm)

lemma exists_delete: "inv s \<Longrightarrow> exists (snd (delete s k)) k' \<longleftrightarrow> k' \<noteq> k \<and> exists s k'"
  by (simp add: exists_absm inv_delete absm_delete)

lemma delete_again: "inv s \<Longrightarrow> \<not> fst (delete (snd (delete s k)) k)"
  by (simp add: fst_delete inv_delete absm_delete)

text \<open>The contract in one statement, for the properties of the concrete backends.\<close>

lemma contract:
  assumes "inv s" "ok v"
  shows "get (put s k v) k' = (if k' = k then Inr v else get s k') \<and>
    exists (put s k v) k \<and>
    get (snd (delete s k)) k' = (if k' = k then Inr JNull else get s k') \<and>
    (fst (delete s k) \<longleftrightarrow> exists s k) \<and> \<not> exists (snd (delete s k)) k \<and>
    inv (put s k v) \<and> inv (snd (delete s k))"
  using assms by (simp add: get_put exists_put get_delete delete_exists exists_delete inv_put inv_delete)

end

subsection \<open>MemoryStorage\<close>

record memory_storage =
  ms_data :: "(key, json) dict"

definition memory_new :: memory_storage where
  "memory_new = \<lparr>ms_data = []\<rparr>"

definition memory_get :: "memory_storage \<Rightarrow> key \<Rightarrow> py_error + json" where
  "memory_get s k = Inr (dict_get (ms_data s) k JNull)"

definition memory_put :: "memory_storage \<Rightarrow> key \<Rightarrow> json \<Rightarrow> memory_storage" where
  "memory_put s k v = s\<lparr>ms_data := dict_put k v (ms_data s)\<rparr>"

definition memory_delete :: "memory_storage \<Rightarrow> key \<Rightarrow> bool \<times> memory_storage" where
  "memory_delete s k =
     (let existed = map_of (ms_data s) k \<noteq> None
      in (existed, s\<lparr>ms_data := dict_del k (ms_data s)\<rparr>))"

definition memory_exists :: "memory_storage \<Rightarrow> key \<Rightarrow> bool" where
  "memory_exists s k \<longleftrightarrow> map_of (ms_data s) k \<noteq> None"

definition memory_ok :: "memory_storage \<Rightarrow> bool" where
  "memory_ok s \<longleftrightarrow> dict_ok (ms_data s)"

definition memory_map :: "memory_storage \<Rightarrow> key \<Rightarrow> json option" where
  "memory_map s = map_of (ms_data s)"

interpretation memory: storage_backend memory_ok memory_map "\<lambda>_. True" memory_get memory_put
    memory_delete memory_exists
  by unfold_locales
    (auto simp: memory_ok_def memory_map_def memory_get_def memory_put_def memory_delete_def
      memory_exists_def dict_get_def none_or_def Let_def dict_ok_put dict_ok_del)

lemma memory_ok_new [wf_intros]: "memory_ok memory_new"
  by (simp add: memory_ok_def memory_new_def)

subsection \<open>SqliteStorage\<close>

text \<open>The rows of the table \<open>kv\<close> as a dictionary, since \<open>key\<close> is the primary key.\<close>

record sqlite_storage =
  ss_db_path :: string
  ss_kv :: "(key, string) dict"

definition sqlite_new :: "string \<Rightarrow> sqlite_storage" where
  "sqlite_new path = \<lparr>ss_db_path = path, ss_kv = []\<rparr>"

definition sqlite_get :: "sqlite_storage \<Rightarrow> key \<Rightarrow> py_error + json" where
  "sqlite_get s k = (case map_of (ss_kv s) k of None \<Rightarrow> Inr JNull | Some row \<Rightarrow> loads row)"

definition sqlite_put :: "sqlite_storage \<Rightarrow> key \<Rightarrow> json \<Rightarrow> sqlite_storage" where
  "sqlite_put s k v = s\<lparr>ss_kv := dict_put k (dumps v) (ss_kv s)\<rparr>"

text \<open>\<open>rowcount > 0\<close>: the statement deletes the rows of the key and counts them.\<close>

definition sqlite_delete :: "sqlite_storage \<Rightarrow> key \<Rightarrow> bool \<times> sqlite_storage" where
  "sqlite_delete s k =
     (let rowcount = length (filter (\<lambda>(k', _). k' = k) (ss_kv s))
      in (rowcount > 0, s\<lparr>ss_kv := dict_del k (ss_kv s)\<rparr>))"

definition sqlite_exists :: "sqlite_storage \<Rightarrow> key \<Rightarrow> bool" where
  "sqlite_exists s k \<longleftrightarrow> map_of (ss_kv s) k \<noteq> None"

definition sqlite_map :: "sqlite_storage \<Rightarrow> key \<Rightarrow> json option" where
  "sqlite_map s k =
     (case map_of (ss_kv s) k of
        None \<Rightarrow> None
      | Some row \<Rightarrow> (case loads row of Inl _ \<Rightarrow> None | Inr j \<Rightarrow> Some j))"

definition sqlite_ok :: "sqlite_storage \<Rightarrow> bool" where
  "sqlite_ok s \<longleftrightarrow> dict_ok (ss_kv s) \<and> list_all (\<lambda>row. \<not> isl (loads row)) (map snd (ss_kv s))"

lemma rowcount_pos: "0 < length (filter (\<lambda>(k', _). k' = k) d) \<longleftrightarrow> map_of d k \<noteq> None"
  by (induction d) auto

lemma sqlite_row: "sqlite_ok s \<Longrightarrow> map_of (ss_kv s) k = Some row \<Longrightarrow> \<exists>j. loads row = Inr j"
  unfolding sqlite_ok_def by (cases "loads row") (fastforce dest: map_of_SomeD)+

lemma sqlite_map_None: "sqlite_ok s \<Longrightarrow> sqlite_map s k = None \<longleftrightarrow> map_of (ss_kv s) k = None"
  by (auto simp: sqlite_map_def split: option.splits sum.splits dest: sqlite_row)

lemma sqlite_ok_put: "sqlite_ok s \<Longrightarrow> json_ok v \<Longrightarrow> sqlite_ok (sqlite_put s k v)"
  using dict_put_subset [of k "dumps v" "ss_kv s"]
  by (fastforce simp: sqlite_ok_def sqlite_put_def dict_ok_put loads_dumps)

lemma sqlite_ok_delete: "sqlite_ok s \<Longrightarrow> sqlite_ok (snd (sqlite_delete s k))"
  using dict_del_subset [of k "ss_kv s"] dict_ok_del [of "ss_kv s" k]
  by (fastforce simp: sqlite_ok_def sqlite_delete_def Let_def)

lemma sqlite_ok_new [wf_intros]: "sqlite_ok (sqlite_new path)"
  by (simp add: sqlite_ok_def sqlite_new_def)

interpretation sqlite: storage_backend sqlite_ok sqlite_map json_ok sqlite_get sqlite_put
    sqlite_delete sqlite_exists
proof unfold_locales
  fix s k
  assume "sqlite_ok s"
  then show "sqlite_get s k = Inr (none_or (sqlite_map s k))"
    by (auto simp: sqlite_get_def sqlite_map_def split: option.splits sum.splits dest: sqlite_row)
next
  fix s k v
  assume "json_ok v"
  then show "sqlite_map (sqlite_put s k v) = (sqlite_map s)(k \<mapsto> v)"
    by (auto simp: sqlite_map_def sqlite_put_def loads_dumps fun_eq_iff)
next
  fix s k
  assume ok: "sqlite_ok s"
  then show "fst (sqlite_delete s k) \<longleftrightarrow> sqlite_map s k \<noteq> None"
    unfolding sqlite_delete_def Let_def fst_conv rowcount_pos by (simp add: sqlite_map_None)
  show "sqlite_map (snd (sqlite_delete s k)) = (sqlite_map s)(k := None)"
    by (auto simp: sqlite_map_def sqlite_delete_def Let_def fun_eq_iff)
  show "sqlite_exists s k \<longleftrightarrow> sqlite_map s k \<noteq> None"
    using ok by (simp add: sqlite_map_None sqlite_exists_def)
qed (simp_all add: sqlite_ok_put sqlite_ok_delete)

end
