(* ===== verification/Base64.thy ===== *)
theory Base64
  imports Prelude "HOL-Library.Word"
begin

section \<open>Bytes: base64 and UTF-8\<close>

text \<open>
  What \<open>src/dynamokv/crypto.py\<close> uses of the standard library to turn bytes into text and back:
  \<open>base64.b64encode\<close>, the lenient \<open>base64.b64decode\<close> (characters outside the alphabet are skipped, a
  complete pad ends the input, an incomplete group is an error), and \<open>str.encode("utf-8")\<close> with its
  inverse on the code points below 256. Both pairs are proved inverse to each other.
\<close>

type_synonym bytes = "8 word list"

subsection \<open>Encoding\<close>

text \<open>The alphabet: capitals, small letters, digits, plus and slash, for the values 0 to 63.\<close>

definition b64_char :: "nat \<Rightarrow> char" where
  "b64_char d =
     (if d < 26 then char_of (65 + d)
      else if d < 52 then char_of (71 + d)
      else if d < 62 then char_of (d - 4)
      else if d = 62 then CHR ''+''
      else CHR ''/'')"

definition b64_pad :: char where
  "b64_pad = CHR ''=''"

fun b64encode :: "bytes \<Rightarrow> string" where
  "b64encode [] = []"
| "b64encode [a] =
     [b64_char (unat a div 4), b64_char (unat a mod 4 * 16), b64_pad, b64_pad]"
| "b64encode [a, b] =
     [b64_char (unat a div 4), b64_char (unat a mod 4 * 16 + unat b div 16),
      b64_char (unat b mod 16 * 4), b64_pad]"
| "b64encode (a # b # c # bs) =
     b64_char (unat a div 4) # b64_char (unat a mod 4 * 16 + unat b div 16) #
     b64_char (unat b mod 16 * 4 + unat c div 64) # b64_char (unat c mod 64) # b64encode bs"

subsection \<open>Decoding\<close>

definition b64_value :: "char \<Rightarrow> nat option" where
  "b64_value c =
     (let n = of_char c :: nat in
      if 65 \<le> n \<and> n \<le> 90 then Some (n - 65)
      else if 97 \<le> n \<and> n \<le> 122 then Some (n - 71)
      else if 48 \<le> n \<and> n \<le> 57 then Some (n + 4)
      else if n = 43 then Some 62
      else if n = 47 then Some 63
      else None)"

text \<open>
  The loop of \<open>binascii.a2b_base64\<close>: \<open>quad\<close> counts the characters of the current group of four,
  \<open>left\<close> holds the bits not yet written, \<open>pads\<close> the pad characters seen since the last digit.
\<close>

fun b64_loop :: "nat \<Rightarrow> nat \<Rightarrow> nat \<Rightarrow> string \<Rightarrow> bytes option" where
  "b64_loop quad left pads [] = (if quad = 0 then Some [] else None)"
| "b64_loop quad left pads (c # cs) =
     (if c = b64_pad then
        (if 2 \<le> quad then
           (if 4 \<le> quad + (pads + 1) then Some [] else b64_loop quad left (pads + 1) cs)
         else b64_loop quad left pads cs)
      else
        (case b64_value c of
           None \<Rightarrow> b64_loop quad left pads cs
         | Some v \<Rightarrow>
             if quad = 0 then b64_loop 1 v 0 cs
             else if quad = 1 then
               map_option ((#) (word_of_nat (left * 4 + v div 16))) (b64_loop 2 (v mod 16) 0 cs)
             else if quad = 2 then
               map_option ((#) (word_of_nat (left * 16 + v div 4))) (b64_loop 3 (v mod 4) 0 cs)
             else map_option ((#) (word_of_nat (left * 64 + v))) (b64_loop 0 0 0 cs)))"

definition b64decode :: "string \<Rightarrow> py_error + bytes" where
  "b64decode s =
     (if list_ex (\<lambda>c. 128 \<le> (of_char c :: nat)) s then Inl ValueError
      else case b64_loop 0 0 0 s of None \<Rightarrow> Inl ValueError | Some bs \<Rightarrow> Inr bs)"

subsection \<open>The round trip\<close>

lemma of_char_less: "(of_char c :: nat) < 256"
proof -
  have "(of_char (char_of (of_char c :: nat)) :: nat) = of_char c mod 256" by (rule of_char_of)
  then show ?thesis by simp
qed

lemma b64_char_facts:
  assumes "d < 64"
  shows "b64_value (b64_char d) = Some d" "b64_char d \<noteq> b64_pad" "(of_char (b64_char d) :: nat) < 128"
proof -
  have code: "(of_char (b64_char d) :: nat) =
      (if d < 26 then 65 + d else if d < 52 then 71 + d else if d < 62 then d - 4 else if d = 62 then 43 else 47)"
    by (simp add: b64_char_def)
  show "b64_value (b64_char d) = Some d"
    using assms unfolding b64_value_def code Let_def by auto
  show "(of_char (b64_char d) :: nat) < 128"
    using assms unfolding code by auto
  have "(of_char (b64_char d) :: nat) \<noteq> of_char b64_pad"
    using assms unfolding code by (auto simp: b64_pad_def)
  then show "b64_char d \<noteq> b64_pad" by auto
qed

lemma unat_byte: "unat (b :: 8 word) < 256"
  using unsigned_less [of b] by simp

text \<open>The arithmetic of one group of three bytes, on numbers below 256.\<close>

lemma bounds_nat:
  assumes "a < 256" "b < 256" "c < (256 :: nat)"
  shows "a div 4 < 64" "a mod 4 * 16 < 64" "a mod 4 * 16 + b div 16 < 64" "b mod 16 * 4 < 64"
    "b mod 16 * 4 + c div 64 < 64" "c mod 64 < 64"
proof -
  have "a div 4 < 64" "b div 16 < 16" "c div 64 < 4"
    using assms by (simp_all add: div_less_iff_less_mult)
  moreover have "a mod 4 < 4" "b mod 16 < 16" "c mod 64 < 64" by simp_all
  ultimately show "a div 4 < 64" "a mod 4 * 16 < 64" "a mod 4 * 16 + b div 16 < 64" "b mod 16 * 4 < 64"
    "b mod 16 * 4 + c div 64 < 64" "c mod 64 < 64"
    by linarith+
qed

lemma div_digit: "y < m \<Longrightarrow> (x * m + y) div m = (x :: nat)"
  by simp

lemma mod_digit: "y < m \<Longrightarrow> (x * m + y) mod m = (y :: nat)"
  by simp

lemma group_nat:
  assumes "a < 256" "b < 256" "c < (256 :: nat)"
  shows "a div 4 * 4 + (a mod 4 * 16 + b div 16) div 16 = a"
    "a div 4 * 4 + (a mod 4 * 16) div 16 = a"
    "(a mod 4 * 16 + b div 16) mod 16 * 16 + (b mod 16 * 4 + c div 64) div 4 = b"
    "(a mod 4 * 16 + b div 16) mod 16 * 16 + (b mod 16 * 4) div 4 = b"
    "(b mod 16 * 4 + c div 64) mod 4 * 64 + c mod 64 = c"
proof -
  have b: "b div 16 < 16" and c: "c div 64 < 4"
    using assms by (simp_all add: div_less_iff_less_mult)
  show "a div 4 * 4 + (a mod 4 * 16 + b div 16) div 16 = a" unfolding div_digit [OF b] by simp
  show "a div 4 * 4 + (a mod 4 * 16) div 16 = a" by simp
  show "(a mod 4 * 16 + b div 16) mod 16 * 16 + (b mod 16 * 4 + c div 64) div 4 = b"
    unfolding mod_digit [OF b] div_digit [OF c] by simp
  show "(a mod 4 * 16 + b div 16) mod 16 * 16 + (b mod 16 * 4) div 4 = b"
    unfolding mod_digit [OF b] by simp
  show "(b mod 16 * 4 + c div 64) mod 4 * 64 + c mod 64 = c" unfolding mod_digit [OF c] by simp
qed

lemmas byte_bounds = bounds_nat [OF unat_byte unat_byte unat_byte]
lemmas b64_group = group_nat [OF unat_byte unat_byte unat_byte]

lemma b64_loop_digits:
  "d < 64 \<Longrightarrow> b64_loop 0 l p (b64_char d # cs) = b64_loop 1 d 0 cs"
  "d < 64 \<Longrightarrow> b64_loop (Suc 0) l p (b64_char d # cs) =
     map_option ((#) (word_of_nat (l * 4 + d div 16))) (b64_loop 2 (d mod 16) 0 cs)"
  "d < 64 \<Longrightarrow> b64_loop 2 l p (b64_char d # cs) =
     map_option ((#) (word_of_nat (l * 16 + d div 4))) (b64_loop 3 (d mod 4) 0 cs)"
  "d < 64 \<Longrightarrow> b64_loop 3 l p (b64_char d # cs) =
     map_option ((#) (word_of_nat (l * 64 + d))) (b64_loop 0 0 0 cs)"
  by (simp_all add: b64_char_facts)

lemma b64_loop_pads:
  "b64_loop 2 l 0 [b64_pad, b64_pad] = Some []" "b64_loop 3 l 0 [b64_pad] = Some []"
  by simp_all

lemma word_of_nat_unat_byte: "word_of_nat (unat b) = (b :: 8 word)"
  by simp

lemma b64_loop_encode: "b64_loop 0 0 0 (b64encode bs) = Some bs"
  by (induction bs rule: b64encode.induct)
    (simp_all only: b64encode.simps b64_loop_digits b64_loop_digits [unfolded One_nat_def [symmetric]]
      b64_loop_pads byte_bounds b64_group word_of_nat_unat_byte option.map b64_loop.simps(1) simp_thms if_True)

lemma b64encode_ascii: "c \<in> set (b64encode bs) \<Longrightarrow> (of_char c :: nat) < 128"
  by (induction bs rule: b64encode.induct) (auto simp: b64_char_facts byte_bounds b64_pad_def)

lemma b64decode_encode [simp]: "b64decode (b64encode bs) = Inr bs"
  using b64encode_ascii [of _ bs] by (auto simp: b64decode_def b64_loop_encode not_le)

lemma b64encode_inject [simp]: "b64encode xs = b64encode ys \<longleftrightarrow> xs = ys"
  by (metis b64decode_encode sum.inject(2))

subsection \<open>UTF-8\<close>

definition utf8_char :: "char \<Rightarrow> bytes" where
  "utf8_char c =
     (let n = of_char c :: nat in
      if n < 128 then [word_of_nat n] else [word_of_nat (192 + n div 64), word_of_nat (128 + n mod 64)])"

definition encode_utf8 :: "string \<Rightarrow> bytes" where
  "encode_utf8 s = concat (map utf8_char s)"

text \<open>\<open>None\<close> for bytes that are not UTF-8, and for code points above 255, which are not modelled.\<close>

fun decode_utf8 :: "bytes \<Rightarrow> string option" where
  "decode_utf8 [] = Some []"
| "decode_utf8 (b # bs) =
     (if unat b < 128 then map_option ((#) (char_of (unat b))) (decode_utf8 bs)
      else case bs of
        [] \<Rightarrow> None
      | b' # bs' \<Rightarrow>
          if 194 \<le> unat b \<and> unat b \<le> 195 \<and> 128 \<le> unat b' \<and> unat b' < 192
          then map_option ((#) (char_of ((unat b - 192) * 64 + (unat b' - 128)))) (decode_utf8 bs')
          else None)"

lemma unat_of_nat_byte: "n < 256 \<Longrightarrow> unat (word_of_nat n :: 8 word) = n"
  by (simp add: unat_of_nat)

lemma decode_utf8_char: "decode_utf8 (utf8_char c @ bs) = map_option ((#) c) (decode_utf8 bs)"
proof -
  let ?n = "of_char c :: nat"
  have n: "?n < 256" by (rule of_char_less)
  show ?thesis
  proof (cases "?n < 128")
    case True
    then show ?thesis by (simp add: utf8_char_def unat_of_nat_byte)
  next
    case False
    have d: "2 \<le> ?n div 64" "?n div 64 < 4"
      using n False by (simp_all add: div_less_iff_less_mult less_eq_div_iff_mult_less_eq)
    have m: "?n mod 64 < 64" by simp
    have hi: "unat (word_of_nat (192 + ?n div 64) :: 8 word) = 192 + ?n div 64"
      using d(2) by (intro unat_of_nat_byte) linarith
    have lo: "unat (word_of_nat (128 + ?n mod 64) :: 8 word) = 128 + ?n mod 64"
      using m by (intro unat_of_nat_byte) linarith
    have "(192 + ?n div 64 - 192) * 64 + (128 + ?n mod 64 - 128) = ?n" by simp
    moreover have "\<not> 192 + ?n div 64 < 128" "194 \<le> 192 + ?n div 64" "192 + ?n div 64 \<le> 195"
      "128 \<le> 128 + ?n mod 64" "128 + ?n mod 64 < 192"
      using d m by linarith+
    ultimately show ?thesis
      unfolding utf8_char_def Let_def if_not_P [OF False] append.simps decode_utf8.simps hi lo list.case
      by (simp only: if_True if_False simp_thms char_of_char)
  qed
qed

lemma decode_encode_utf8 [simp]: "decode_utf8 (encode_utf8 s) = Some s"
  by (induction s) (simp_all add: encode_utf8_def decode_utf8_char)

end
