(* ===== verification/Crypto.thy ===== *)
theory Crypto
  imports Storage Base64
begin

section \<open>Encryption at rest\<close>

text \<open>
  Models \<open>src/dynamokv/crypto.py\<close>: the key file, and \<open>EncryptedStorage\<close>, which wraps another
  backend. A backend of the program is a value of the type \<open>storage\<close>, so wrappers nest as they do in
  the code, and \<open>st_get\<close>, \<open>st_put\<close>, \<open>st_delete\<close> and \<open>st_exists\<close> are the method calls.

  The cipher belongs to the package \<open>cryptography\<close>: it is a parameter, the record \<open>aesgcm\<close> of an
  encryption and a decryption under the key, with the documented behaviour as hypotheses
  (\<open>aes_correct\<close>: decrypting what was encrypted under the same nonce gives the plaintext;
  \<open>aes_authentic\<close>: nothing else decrypts). What \<open>os.urandom\<close> returns is the stream \<open>entropy\<close>, read at
  \<open>position\<close>; one call of \<open>put\<close> takes one nonce.
\<close>

record aesgcm =
  aes_encrypt :: "bytes \<Rightarrow> bytes \<Rightarrow> bytes"
  aes_decrypt :: "bytes \<Rightarrow> bytes \<Rightarrow> py_error + bytes"

definition aes_correct :: "aesgcm \<Rightarrow> bool" where
  "aes_correct a \<longleftrightarrow> (\<forall>nonce p. aes_decrypt a nonce (aes_encrypt a nonce p) = Inr p)"

definition aes_authentic :: "aesgcm \<Rightarrow> bool" where
  "aes_authentic a \<longleftrightarrow>
     (\<forall>nonce c p. aes_decrypt a nonce c = Inr p \<longrightarrow> c = aes_encrypt a nonce p)"

subsection \<open>The key file\<close>

text \<open>
  The files of the node by path. The generated key is the argument \<open>fresh\<close>; \<open>chmod\<close> is best effort
  and has no effect on what the function returns.
\<close>

definition load_or_create_encryption_key ::
  "bytes \<Rightarrow> string \<Rightarrow> (string, bytes) dict \<Rightarrow> bytes \<times> (string, bytes) dict" where
  "load_or_create_encryption_key fresh path files =
     (case map_of files path of
        Some key \<Rightarrow> (key, files)
      | None \<Rightarrow> (fresh, dict_put path fresh files))"

subsection \<open>Envelopes\<close>

definition seal :: "aesgcm \<Rightarrow> bytes \<Rightarrow> json \<Rightarrow> json" where
  "seal a nonce v =
     (let plaintext = encode_utf8 (dumps v);
          ciphertext = aes_encrypt a nonce plaintext
      in JObj [(''nonce'', JStr (b64encode nonce)), (''ciphertext'', JStr (b64encode ciphertext))])"

text \<open>\<open>envelope[name]\<close> and the \<open>b64decode\<close> of it: only a string can be decoded.\<close>

definition subscript :: "json \<Rightarrow> string \<Rightarrow> py_error + json" where
  "subscript j name =
     (case j of
        JObj d \<Rightarrow> (case map_of d name of None \<Rightarrow> Inl KeyError | Some v \<Rightarrow> Inr v)
      | _ \<Rightarrow> Inl TypeError)"

definition b64_field :: "json \<Rightarrow> string \<Rightarrow> py_error + bytes" where
  "b64_field j name =
     (case subscript j name of
        Inl e \<Rightarrow> Inl e
      | Inr (JStr s) \<Rightarrow> b64decode s
      | Inr _ \<Rightarrow> Inl TypeError)"

definition loads_bytes :: "bytes \<Rightarrow> py_error + json" where
  "loads_bytes bs = (case decode_utf8 bs of None \<Rightarrow> Inl ValueError | Some s \<Rightarrow> loads s)"

definition unseal :: "aesgcm \<Rightarrow> json \<Rightarrow> py_error + json" where
  "unseal a envelope =
     (case b64_field envelope ''nonce'' of
        Inl e \<Rightarrow> Inl e
      | Inr nonce \<Rightarrow>
          (case b64_field envelope ''ciphertext'' of
             Inl e \<Rightarrow> Inl e
           | Inr ciphertext \<Rightarrow>
               (case aes_decrypt a nonce ciphertext of
                  Inl e \<Rightarrow> Inl e
                | Inr plaintext \<Rightarrow> loads_bytes plaintext)))"

lemma b64_field_seal:
  "b64_field (seal a nonce v) ''nonce'' = Inr nonce"
  "b64_field (seal a nonce v) ''ciphertext'' = Inr (aes_encrypt a nonce (encode_utf8 (dumps v)))"
  by (simp_all add: b64_field_def subscript_def seal_def Let_def)

lemma unseal_seal: "aes_correct a \<Longrightarrow> json_ok v \<Longrightarrow> unseal a (seal a nonce v) = Inr v"
  by (simp add: unseal_def b64_field_seal aes_correct_def loads_bytes_def loads_dumps)

lemma json_ok_seal [simp]: "json_ok (seal a nonce v)"
  by (simp add: seal_def Let_def)

lemma seal_not_null [simp]: "seal a nonce v \<noteq> JNull"
  by (simp add: seal_def Let_def)

subsection \<open>The backends of the program\<close>

datatype storage =
    Memory memory_storage
  | Sqlite sqlite_storage
  | Encrypted (st_inner: storage) (st_aes: aesgcm) (entropy: "nat \<Rightarrow> bytes") (position: nat)

fun st_get :: "storage \<Rightarrow> key \<Rightarrow> py_error + json" where
  "st_get (Memory s) k = memory_get s k"
| "st_get (Sqlite s) k = sqlite_get s k"
| "st_get (Encrypted inner a u i) k =
     (case st_get inner k of
        Inl e \<Rightarrow> Inl e
      | Inr envelope \<Rightarrow> if envelope = JNull then Inr JNull else unseal a envelope)"

fun st_put :: "storage \<Rightarrow> key \<Rightarrow> json \<Rightarrow> storage" where
  "st_put (Memory s) k v = Memory (memory_put s k v)"
| "st_put (Sqlite s) k v = Sqlite (sqlite_put s k v)"
| "st_put (Encrypted inner a u i) k v = Encrypted (st_put inner k (seal a (u i) v)) a u (i + 1)"

fun st_delete :: "storage \<Rightarrow> key \<Rightarrow> bool \<times> storage" where
  "st_delete (Memory s) k = map_prod id Memory (memory_delete s k)"
| "st_delete (Sqlite s) k = map_prod id Sqlite (sqlite_delete s k)"
| "st_delete (Encrypted inner a u i) k =
     map_prod id (\<lambda>inner'. Encrypted inner' a u i) (st_delete inner k)"

fun st_exists :: "storage \<Rightarrow> key \<Rightarrow> bool" where
  "st_exists (Memory s) k = memory_exists s k"
| "st_exists (Sqlite s) k = sqlite_exists s k"
| "st_exists (Encrypted inner a u i) k = st_exists inner k"

text \<open>The map a backend stands for, and its invariant.\<close>

fun storage_map :: "storage \<Rightarrow> key \<Rightarrow> json option" where
  "storage_map (Memory s) k = memory_map s k"
| "storage_map (Sqlite s) k = sqlite_map s k"
| "storage_map (Encrypted inner a u i) k =
     (case storage_map inner k of
        None \<Rightarrow> None
      | Some envelope \<Rightarrow> (case unseal a envelope of Inl _ \<Rightarrow> None | Inr v \<Rightarrow> Some v))"

definition sealed_with :: "aesgcm \<Rightarrow> json option \<Rightarrow> bool" where
  "sealed_with a envelope \<longleftrightarrow>
     (\<forall>e. envelope = Some e \<longrightarrow> e \<noteq> JNull \<and> \<not> isl (unseal a e))"

fun storage_ok :: "storage \<Rightarrow> bool" where
  "storage_ok (Memory s) \<longleftrightarrow> memory_ok s"
| "storage_ok (Sqlite s) \<longleftrightarrow> sqlite_ok s"
| "storage_ok (Encrypted inner a u i) \<longleftrightarrow>
     storage_ok inner \<and> aes_correct a \<and> (\<forall>k. sealed_with a (storage_map inner k))"

lemma sealed_with_simps [simp]: "sealed_with a None"
  by (simp add: sealed_with_def)

lemma sealed_with_Some [simp]:
  "sealed_with a (Some e) \<longleftrightarrow> e \<noteq> JNull \<and> (\<exists>v. unseal a e = Inr v)"
  by (cases "unseal a e") (simp_all add: sealed_with_def)

lemma sealed_with_seal: "aes_correct a \<Longrightarrow> json_ok v \<Longrightarrow> sealed_with a (Some (seal a nonce v))"
  by (simp add: sealed_with_def unseal_seal)

lemma st_put_laws:
  "storage_ok s \<Longrightarrow> json_ok v \<Longrightarrow>
     storage_map (st_put s k v) = (storage_map s)(k \<mapsto> v) \<and> storage_ok (st_put s k v)"
proof (induction s arbitrary: v)
  case (Memory s)
  then show ?case by (simp add: fun_eq_iff memory.absm_put memory.inv_put)
next
  case (Sqlite s)
  then show ?case by (simp add: fun_eq_iff sqlite.absm_put sqlite.inv_put)
next
  case (Encrypted inner a u i)
  then have "storage_map (st_put inner k (seal a (u i) v)) = (storage_map inner)(k \<mapsto> seal a (u i) v)"
    and "storage_ok (st_put inner k (seal a (u i) v))"
    by (simp_all del: fun_upd_apply)
  then show ?case using Encrypted.prems
    by (simp add: fun_eq_iff unseal_seal sealed_with_seal)
qed

lemma st_delete_laws:
  "storage_ok s \<Longrightarrow>
     (fst (st_delete s k) \<longleftrightarrow> storage_map s k \<noteq> None) \<and>
     storage_map (snd (st_delete s k)) = (storage_map s)(k := None) \<and> storage_ok (snd (st_delete s k))"
proof (induction s)
  case (Memory s)
  then show ?case
    by (simp add: fun_eq_iff memory.absm_delete memory.fst_delete memory.inv_delete)
next
  case (Sqlite s)
  then show ?case
    by (simp add: fun_eq_iff sqlite.absm_delete sqlite.fst_delete sqlite.inv_delete)
next
  case (Encrypted inner a u i)
  moreover from Encrypted.prems have "sealed_with a (storage_map inner k)" by simp
  ultimately show ?case
    by (cases "storage_map inner k") (auto simp: fun_eq_iff)
qed

lemma st_read_laws:
  "storage_ok s \<Longrightarrow>
     st_get s k = Inr (none_or (storage_map s k)) \<and> (st_exists s k \<longleftrightarrow> storage_map s k \<noteq> None)"
proof (induction s)
  case (Memory s)
  then show ?case by (simp add: memory.get_absm memory.exists_absm)
next
  case (Sqlite s)
  then show ?case by (simp add: sqlite.get_absm sqlite.exists_absm)
next
  case (Encrypted inner a u i)
  then have "sealed_with a (storage_map inner k)" by simp
  with Encrypted show ?case
    by (cases "storage_map inner k") auto
qed

interpretation st: storage_backend storage_ok storage_map json_ok st_get st_put st_delete st_exists
  by unfold_locales (simp_all add: st_put_laws st_delete_laws st_read_laws)

lemma key_file_stable:
  assumes "load_or_create_encryption_key fresh path files = (key, files')"
  shows "load_or_create_encryption_key fresh' path files' = (key, files')"
  using assms by (auto simp: load_or_create_encryption_key_def split: option.splits)

text \<open>A cipher that appends a tag byte, for the examples.\<close>

definition tag_cipher :: aesgcm where
  "tag_cipher =
     \<lparr>aes_encrypt = (\<lambda>nonce p. p @ [0]),
      aes_decrypt = (\<lambda>nonce c. if c \<noteq> [] \<and> last c = 0 then Inr (butlast c) else Inl InvalidTag)\<rparr>"

lemma tag_cipher_ok: "aes_correct tag_cipher" "aes_authentic tag_cipher"
  by (auto simp: aes_correct_def aes_authentic_def tag_cipher_def split: if_splits)
    (metis append_butlast_last_id)

definition example_store :: storage where
  "example_store = Encrypted (Sqlite (sqlite_new ''kv.db'')) tag_cipher (\<lambda>i. [word_of_nat i]) 0"

lemma example_store_ok: "storage_ok example_store"
  by (simp add: example_store_def tag_cipher_ok sqlite_ok_new)
    (simp add: sqlite_map_def sqlite_new_def)

subsection \<open>Properties\<close>

text \<open>C40. Every backend, however wrapped, is a map from keys to JSON values: after a put, get returns
  the value at that key and what it returned before at every other key; delete reports whether the
  key was there, removes it and nothing else; exists agrees with both.\<close>

theorem backend_contract:
  assumes "storage_ok s" "json_ok v"
  shows "st_get (st_put s k v) k' = (if k' = k then Inr v else st_get s k') \<and>
    st_exists (st_put s k v) k \<and>
    st_get (snd (st_delete s k)) k' = (if k' = k then Inr JNull else st_get s k') \<and>
    (fst (st_delete s k) \<longleftrightarrow> st_exists s k) \<and> \<not> st_exists (snd (st_delete s k)) k \<and>
    storage_ok (st_put s k v) \<and> storage_ok (snd (st_delete s k))"
  using assms by (rule st.contract)

theorem backend_contract_witness:
  "st_get (st_put example_store ''k'' (JArr [JInt 1, JStr ''x''])) ''k'' = Inr (JArr [JInt 1, JStr ''x''])"
  using backend_contract [OF example_store_ok, of "JArr [JInt 1, JStr ''x'']" "''k''" "''k''"] by simp

text \<open>An envelope that was altered on disk is never read back as a value: with a cipher that
  authenticates, get returns a value only if the stored ciphertext is an encryption under the stored
  nonce of bytes that parse to that value.\<close>

theorem altered_envelope_rejected:
  assumes "aes_authentic a"
    and "st_get inner k = Inr e" "e \<noteq> JNull"
    and "b64_field e ''nonce'' = Inr nonce" "b64_field e ''ciphertext'' = Inr c"
    and "st_get (Encrypted inner a u i) k = Inr v"
  shows "\<exists>p. c = aes_encrypt a nonce p \<and> loads_bytes p = Inr v"
  using assms by (auto simp: unseal_def aes_authentic_def split: sum.splits)

theorem altered_envelope_rejected_witness:
  "let e = JObj [(''nonce'', JStr (b64encode [7])), (''ciphertext'', JStr (b64encode [49, 1]))];
       inner = Memory (memory_put memory_new ''k'' e)
   in \<not> (\<exists>v. st_get (Encrypted inner tag_cipher (\<lambda>i. [word_of_nat i]) 0) ''k'' = Inr v)"
proof -
  let ?e = "JObj [(''nonce'', JStr (b64encode [7])), (''ciphertext'', JStr (b64encode [49, 1]))]"
  let ?inner = "Memory (memory_put memory_new ''k'' ?e)"
  have row: "st_get ?inner ''k'' = Inr ?e"
    by (simp add: memory_get_def memory_put_def)
  have fields: "b64_field ?e ''nonce'' = Inr [7]" "b64_field ?e ''ciphertext'' = Inr [49, 1]"
    by (simp_all add: b64_field_def subscript_def del: b64encode.simps)
  have "\<not> (\<exists>p. [49, 1 :: 8 word] = aes_encrypt tag_cipher [7] p)"
    by (auto simp: tag_cipher_def)
  then show ?thesis
    unfolding Let_def using altered_envelope_rejected [OF tag_cipher_ok(2) row _ fields] by blast
qed

text \<open>The envelope is not bound to its key (no associated data is passed to the cipher): copying
  the stored envelope of one key over the row of another makes get return the first key's value
  for the second, and no error is raised.\<close>

theorem envelope_relocation_undetected:
  assumes "storage_ok (Encrypted inner a u i)" "json_ok v"
    and "st_put (Encrypted inner a u i) k v = Encrypted inner' a u i'"
    and "st_get inner' k = Inr e"
  shows "st_get (Encrypted (st_put inner' k' e) a u i') k' = Inr v"
proof -
  have inner: "storage_ok inner" and a: "aes_correct a" using assms(1) by simp_all
  have i': "inner' = st_put inner k (seal a (u i) v)" using assms(3) by simp
  then have e: "e = seal a (u i) v" and ok: "storage_ok inner'"
    using assms(4) st.get_put [OF inner json_ok_seal, of k a "u i" v k]
      st.inv_put [OF inner json_ok_seal, of k a "u i" v] by simp_all
  have "st_get (st_put inner' k' e) k' = Inr e"
    unfolding e using st.get_put [OF ok json_ok_seal, of k' a "u i" v k'] by simp
  then show ?thesis using e unseal_seal [OF a assms(2)] by simp
qed

theorem envelope_relocation_undetected_witness:
  "\<exists>inner' i' e. st_put example_store ''bob'' (JInt 5) = Encrypted inner' tag_cipher (\<lambda>i. [word_of_nat i]) i' \<and>
     st_get (Encrypted (st_put inner' ''eve'' e) tag_cipher (\<lambda>i. [word_of_nat i]) i') ''eve'' = Inr (JInt 5)"
proof -
  let ?u = "\<lambda>i. [word_of_nat i] :: bytes"
  let ?s = "Sqlite (sqlite_new ''kv.db'')"
  let ?e = "seal tag_cipher (?u 0) (JInt 5)"
  have ok: "storage_ok (Encrypted ?s tag_cipher ?u 0)"
    using example_store_ok unfolding example_store_def .
  have json: "json_ok (JInt 5)" by simp
  have put: "st_put (Encrypted ?s tag_cipher ?u 0) ''bob'' (JInt 5) =
      Encrypted (st_put ?s ''bob'' ?e) tag_cipher ?u 1"
    by simp
  have "st_get (st_put ?s ''bob'' ?e) ''bob'' = Inr ?e"
    using st.get_put [of ?s ?e "''bob''" "''bob''"] ok by (simp del: st_put.simps)
  then have "st_get (Encrypted (st_put (st_put ?s ''bob'' ?e) ''eve'' ?e) tag_cipher ?u 1) ''eve'' = Inr (JInt 5)"
    by (rule envelope_relocation_undetected [OF ok json put])
  with put show ?thesis unfolding example_store_def by (intro exI conjI)
qed

text \<open>Every put encrypts under the next nonce of the entropy stream, so as long as the stream does
  not repeat, two puts never store the same envelope, even of the same value at the same key.\<close>

theorem put_uses_fresh_nonce:
  assumes "storage_ok (Encrypted inner a u i)" "json_ok v" "json_ok w" "inj u"
  shows "\<exists>s1 s2 e1 e2. st_put (Encrypted inner a u i) k v = Encrypted s1 a u (i + 1) \<and>
    st_put (Encrypted s1 a u (i + 1)) k' w = Encrypted s2 a u (i + 2) \<and>
    st_get s1 k = Inr e1 \<and> st_get s2 k' = Inr e2 \<and>
    b64_field e1 ''nonce'' = Inr (u i) \<and> b64_field e2 ''nonce'' = Inr (u (i + 1)) \<and> e1 \<noteq> e2"
proof -
  let ?e1 = "seal a (u i) v" and ?e2 = "seal a (u (i + 1)) w"
  have inner: "storage_ok inner" using assms(1) by simp
  have "?e1 \<noteq> ?e2" using injD [OF assms(4), of i "i + 1"] by (auto simp: seal_def Let_def)
  moreover have "st_get (st_put inner k ?e1) k = Inr ?e1"
    using st.get_put [OF inner, of ?e1 k k] by simp
  moreover have "st_get (st_put (st_put inner k ?e1) k' ?e2) k' = Inr ?e2"
    using st.get_put [OF st.inv_put [OF inner, of ?e1 k], of ?e2 k' k'] by simp
  ultimately show ?thesis
    by (intro exI [of _ "st_put inner k ?e1"] exI [of _ "st_put (st_put inner k ?e1) k' ?e2"]
        exI [of _ ?e1] exI [of _ ?e2]) (simp add: b64_field_seal)
qed

text \<open>The stream of the example does not repeat within its first 256 positions only, so the witness
  takes nonces of growing length.\<close>

theorem put_uses_fresh_nonce_witness:
  "\<exists>s1 s2 e1 e2. st_put (Encrypted (Memory memory_new) tag_cipher (\<lambda>i. replicate i 1) 12) ''k'' JNull =
       Encrypted s1 tag_cipher (\<lambda>i. replicate i 1) 13 \<and>
     st_put (Encrypted s1 tag_cipher (\<lambda>i. replicate i 1) 13) ''k'' JNull =
       Encrypted s2 tag_cipher (\<lambda>i. replicate i 1) 14 \<and>
     st_get s1 ''k'' = Inr e1 \<and> st_get s2 ''k'' = Inr e2 \<and> e1 \<noteq> e2"
proof -
  have ok: "storage_ok (Encrypted (Memory memory_new) tag_cipher (\<lambda>i. replicate i 1) 12)"
    by (simp add: tag_cipher_ok memory_ok_new) (simp add: memory_map_def memory_new_def)
  have inj: "inj (\<lambda>i. replicate i (1 :: 8 word))"
    by (rule injI) (metis length_replicate)
  show ?thesis
    using put_uses_fresh_nonce [OF ok _ _ inj, of JNull JNull "''k''" "''k''"] by (simp del: st_put.simps) blast
qed

end
