(* ===== verification/Vector_Clock.thy ===== *)
theory Vector_Clock
  imports Json
begin

section \<open>Vector clocks, versions and sibling reconciliation\<close>

text \<open>
  Models \<open>src/dynamokv/vector_clock.py\<close>: the class \<open>VectorClock\<close> (a dictionary of counters, integers
  of any sign since they also arrive over the wire), its comparison, increment and merge, the class
  \<open>Version\<close> with its JSON form, and \<open>reconcile\<close>, which folds one version into a sibling list.

  The lemmas relate \<open>compare\<close> to the pointwise order of the counters (an instance of the library's
  class \<open>preorder\<close>), \<open>merge\<close> to the least upper bound, and a fold of \<open>reconcile\<close> to the
  set of maximal elements. The last step is proved once for any preorder, in the locale
  \<open>sibling_merge\<close>, and interpreted on the code's \<open>reconcile\<close>.
\<close>

subsection \<open>Vector clocks\<close>

datatype vclock = VectorClock (counters: "(string, int) dict")

definition vc_get :: "vclock \<Rightarrow> node_id \<Rightarrow> int" where
  "vc_get c k = dict_get (counters c) k 0"

definition incremented :: "vclock \<Rightarrow> node_id \<Rightarrow> vclock" where
  "incremented c k = VectorClock (dict_put k (dict_get (counters c) k 0 + 1) (counters c))"

datatype ordering = Equal | Dominates | Dominated | Concurrent

definition compare :: "vclock \<Rightarrow> vclock \<Rightarrow> ordering" where
  "compare a b =
     (let ks = map fst (counters a) @ map fst (counters b);
          self_ge = list_all (\<lambda>k. vc_get a k \<ge> vc_get b k) ks;
          other_ge = list_all (\<lambda>k. vc_get b k \<ge> vc_get a k) ks
      in if self_ge \<and> other_ge then Equal
         else if self_ge then Dominates
         else if other_ge then Dominated
         else Concurrent)"

definition dominates_or_equal :: "vclock \<Rightarrow> vclock \<Rightarrow> bool" where
  "dominates_or_equal a b \<longleftrightarrow> compare a b \<in> {Dominates, Equal}"

definition vc_eq :: "vclock \<Rightarrow> vclock \<Rightarrow> bool" where
  "vc_eq a b \<longleftrightarrow> compare a b = Equal"

fun merge_items :: "(string, int) dict \<Rightarrow> (string, int) dict \<Rightarrow> (string, int) dict" where
  "merge_items result [] = result"
| "merge_items result ((k, v) # items) =
     merge_items (dict_put k (max (dict_get result k 0) v) result) items"

fun merge_clocks :: "(string, int) dict \<Rightarrow> vclock list \<Rightarrow> (string, int) dict" where
  "merge_clocks result [] = result"
| "merge_clocks result (c # cs) = merge_clocks (merge_items result (counters c)) cs"

definition merge :: "vclock list \<Rightarrow> vclock" where
  "merge cs = VectorClock (merge_clocks [] cs)"

text \<open>A clock whose counters are a real dictionary: no key occurs twice.\<close>

definition clock_ok :: "vclock \<Rightarrow> bool" where
  "clock_ok c \<longleftrightarrow> dict_ok (counters c)"

subsection \<open>The pointwise order of clocks\<close>

text \<open>
  \<open>a \<le> b\<close> says that every counter of \<open>a\<close> is at most that of \<open>b\<close>, a missing counter
  being 0: \<open>b\<close> has seen every write that \<open>a\<close> has seen.
\<close>

instantiation vclock :: preorder
begin

definition less_eq_vclock :: "vclock \<Rightarrow> vclock \<Rightarrow> bool" where
  "a \<le> b \<longleftrightarrow> (\<forall>k. vc_get a k \<le> vc_get b k)"

definition less_vclock :: "vclock \<Rightarrow> vclock \<Rightarrow> bool" where
  "a < b \<longleftrightarrow> a \<le> b \<and> \<not> b \<le> (a :: vclock)"

instance
  by standard (auto simp: less_eq_vclock_def less_vclock_def intro: order_trans)

end

lemma vc_leI: "(\<And>k. vc_get a k \<le> vc_get b k) \<Longrightarrow> a \<le> b"
  by (simp add: less_eq_vclock_def)

lemma vc_leD: "a \<le> b \<Longrightarrow> vc_get a k \<le> vc_get b k"
  by (simp add: less_eq_vclock_def)

lemma vc_get_not_key: "k \<notin> fst ` set (counters c) \<Longrightarrow> vc_get c k = 0"
  by (simp add: vc_get_def dict_get_def map_of_eq_None_iff [THEN iffD2])

lemma le_iff_keys:
  "a \<le> b \<longleftrightarrow> (\<forall>k \<in> fst ` set (counters a) \<union> fst ` set (counters b). vc_get a k \<le> vc_get b k)"
proof
  assume "a \<le> b"
  then show "\<forall>k \<in> fst ` set (counters a) \<union> fst ` set (counters b). vc_get a k \<le> vc_get b k"
    by (simp add: vc_leD)
next
  assume *: "\<forall>k \<in> fst ` set (counters a) \<union> fst ` set (counters b). vc_get a k \<le> vc_get b k"
  show "a \<le> b"
  proof (rule vc_leI)
    fix k
    show "vc_get a k \<le> vc_get b k"
      using * by (cases "k \<in> fst ` set (counters a) \<union> fst ` set (counters b)")
        (auto simp: vc_get_not_key)
  qed
qed

lemma compare_order:
  "compare a b =
     (if a \<le> b \<and> b \<le> a then Equal else if b \<le> a then Dominates
      else if a \<le> b then Dominated else Concurrent)"
  unfolding compare_def Let_def le_iff_keys [of a b] le_iff_keys [of b a]
  by (auto simp: ball_Un)

lemma dominates_or_equal_iff [simp]: "dominates_or_equal a b \<longleftrightarrow> b \<le> a"
  by (auto simp: dominates_or_equal_def compare_order)

lemma compare_Dominates [simp]: "compare a b = Dominates \<longleftrightarrow> b < a"
  by (auto simp: compare_order less_vclock_def)

lemma compare_Dominated: "compare a b = Dominated \<longleftrightarrow> a < b"
  by (auto simp: compare_order less_vclock_def)

lemma compare_Equal: "compare a b = Equal \<longleftrightarrow> a \<le> b \<and> b \<le> a"
  by (auto simp: compare_order)

lemma compare_Concurrent: "compare a b = Concurrent \<longleftrightarrow> \<not> a \<le> b \<and> \<not> b \<le> a"
  by (auto simp: compare_order)

lemma vc_eq_iff: "vc_eq a b \<longleftrightarrow> vc_get a = vc_get b"
  by (auto simp: vc_eq_def compare_Equal less_eq_vclock_def fun_eq_iff intro: antisym)

lemma vc_le_antisym_get: "a \<le> b \<Longrightarrow> b \<le> a \<Longrightarrow> vc_get a = vc_get b"
  by (auto simp: less_eq_vclock_def fun_eq_iff intro: antisym)

subsection \<open>Increment and merge\<close>

lemma vc_get_incremented [simp]:
  "vc_get (incremented c n) k = (if k = n then vc_get c k + 1 else vc_get c k)"
  by (simp add: vc_get_def incremented_def)

lemma incremented_less: "c < incremented c n"
  unfolding less_vclock_def less_eq_vclock_def by (auto simp: not_le)

lemma clock_ok_incremented [wf_intros]: "clock_ok c \<Longrightarrow> clock_ok (incremented c n)"
  by (simp add: clock_ok_def incremented_def dict_ok_put)

lemma merge_items_get:
  "dict_ok items \<Longrightarrow>
     dict_get (merge_items r items) k 0 =
       (case map_of items k of None \<Rightarrow> dict_get r k 0 | Some v \<Rightarrow> max (dict_get r k 0) v)"
  by (induction r items rule: merge_items.induct)
    (auto split: option.splits simp: map_of_eq_None_iff [THEN iffD2] rev_image_eqI
      dest: map_of_SomeD)

lemma merge_items_ok: "dict_ok r \<Longrightarrow> dict_ok (merge_items r items)"
  by (induction r items rule: merge_items.induct) (auto intro: dict_ok_put)

lemma merge_items_nonneg:
  "\<forall>k. 0 \<le> dict_get r k 0 \<Longrightarrow> \<forall>k. 0 \<le> dict_get (merge_items r items) k 0"
  by (induction r items rule: merge_items.induct) (simp_all add: le_max_iff_disj)

lemma merge_clocks_ok: "dict_ok r \<Longrightarrow> dict_ok (merge_clocks r cs)"
  by (induction r cs rule: merge_clocks.induct) (auto intro: merge_items_ok)

lemma clock_ok_merge [wf_intros]: "clock_ok (merge cs)"
  by (simp add: clock_ok_def merge_def merge_clocks_ok)

lemma merge_items_get_max:
  assumes "clock_ok c" "0 \<le> dict_get r k 0"
  shows "dict_get (merge_items r (counters c)) k 0 = max (dict_get r k 0) (vc_get c k)"
  using assms merge_items_get [of "counters c" r k]
  by (auto simp: clock_ok_def vc_get_def dict_get_def [of "counters c"] split: option.splits)

lemma merge_clocks_get:
  assumes "\<forall>c \<in> set cs. clock_ok c" "\<forall>k. 0 \<le> dict_get r k 0"
  shows "dict_get (merge_clocks r cs) k 0 = foldl max (dict_get r k 0) (map (\<lambda>c. vc_get c k) cs)"
  using assms
proof (induction r cs rule: merge_clocks.induct)
  case (1 r)
  then show ?case by simp
next
  case (2 r c cs)
  have "\<forall>k. 0 \<le> dict_get (merge_items r (counters c)) k 0"
    using "2.prems"(2) merge_items_nonneg by blast
  with 2 show ?case by (simp add: merge_items_get_max)
qed

lemma foldl_max_Max: "foldl max (z :: int) xs = Max (insert z (set xs))"
proof (induction xs arbitrary: z)
  case Nil
  then show ?case by simp
next
  case (Cons x xs)
  then show ?case by (cases "xs = []") (simp_all add: max.assoc)
qed

lemma vc_get_merge:
  assumes "\<forall>c \<in> set cs. clock_ok c"
  shows "vc_get (merge cs) k = Max (insert 0 ((\<lambda>c. vc_get c k) ` set cs))"
  using merge_clocks_get [OF assms, of "[]" k] unfolding foldl_max_Max
  by (simp add: vc_get_def merge_def)

lemma merge_upper: "\<forall>c \<in> set cs. clock_ok c \<Longrightarrow> c \<in> set cs \<Longrightarrow> c \<le> merge cs"
  by (rule vc_leI) (simp add: vc_get_merge)

lemma merge_nonneg: "\<forall>c \<in> set cs. clock_ok c \<Longrightarrow> 0 \<le> vc_get (merge cs) k"
  by (simp add: vc_get_merge)

lemma merge_least:
  assumes "\<forall>c \<in> set cs. clock_ok c" "\<forall>c \<in> set cs. c \<le> u" "\<forall>k. 0 \<le> vc_get u k"
  shows "merge cs \<le> u"
  using assms by (intro vc_leI) (auto simp: vc_get_merge vc_leD)

lemma next_clock_dominates:
  assumes "\<forall>c \<in> set cs. clock_ok c" "c \<in> set cs"
  shows "c < incremented (merge cs) n"
  using merge_upper [OF assms] incremented_less by (rule order_le_less_trans)

subsection \<open>Versions\<close>

record version =
  ver_value :: json
  ver_clock :: vclock

abbreviation Version :: "json \<Rightarrow> vclock \<Rightarrow> version" where
  "Version v c \<equiv> \<lparr>ver_value = v, ver_clock = c\<rparr>"

definition clock_to_json :: "vclock \<Rightarrow> json" where
  "clock_to_json c = JObj (map (\<lambda>(k, n). (k, JInt n)) (counters c))"

definition to_dict :: "version \<Rightarrow> json" where
  "to_dict v = JObj [(''value'', ver_value v), (''clock'', clock_to_json (ver_clock v))]"

text \<open>
  The constructor call \<open>VectorClock(d)\<close> on a decoded value: \<open>dict(counters or {})\<close> maps a falsy
  value to the empty clock and copies a dictionary. Counters that are not integers make the later
  comparisons raise; the model raises at once. Other values are not dictionaries.
\<close>

fun counters_of_items :: "(string \<times> json) list \<Rightarrow> py_error + (string, int) dict" where
  "counters_of_items [] = Inr []"
| "counters_of_items ((k, JInt n) # items) = map_sum id (\<lambda>d. (k, n) # d) (counters_of_items items)"
| "counters_of_items ((k, _) # items) = Inl TypeError"

fun clock_of_json :: "json \<Rightarrow> py_error + vclock" where
  "clock_of_json (JObj items) = map_sum id VectorClock (counters_of_items items)"
| "clock_of_json JNull = Inr (VectorClock [])"
| "clock_of_json (JBool False) = Inr (VectorClock [])"
| "clock_of_json (JInt n) = (if n = 0 then Inr (VectorClock []) else Inl TypeError)"
| "clock_of_json (JStr s) = (if s = [] then Inr (VectorClock []) else Inl ValueError)"
| "clock_of_json (JArr xs) = (if xs = [] then Inr (VectorClock []) else Inl TypeError)"
| "clock_of_json _ = Inl TypeError"

fun from_dict :: "json \<Rightarrow> py_error + version" where
  "from_dict (JObj d) =
     (case map_of d ''value'' of
        None \<Rightarrow> Inl KeyError
      | Some v \<Rightarrow>
          (case map_of d ''clock'' of
             None \<Rightarrow> Inl KeyError
           | Some c \<Rightarrow> map_sum id (Version v) (clock_of_json c)))"
| "from_dict _ = Inl TypeError"

text \<open>The list comprehension \<open>[Version.from_dict(v) for v in raw]\<close>, which raises at the first bad entry.\<close>

fun from_dicts :: "json list \<Rightarrow> py_error + version list" where
  "from_dicts [] = Inr []"
| "from_dicts (j # js) =
     (case from_dict j of
        Inl e \<Rightarrow> Inl e
      | Inr v \<Rightarrow> map_sum id ((#) v) (from_dicts js))"

lemma counters_of_items_map [simp]:
  "counters_of_items (map (\<lambda>(k, n). (k, JInt n)) d) = Inr d"
  by (induction d) auto

lemma from_dict_to_dict [simp]: "from_dict (to_dict v) = Inr v"
  by (simp add: to_dict_def clock_to_json_def)

lemma from_dicts_to_dict [simp]: "from_dicts (map to_dict vs) = Inr vs"
  by (induction vs) auto

subsection \<open>Reconciliation\<close>

definition reconcile :: "version list \<Rightarrow> version \<Rightarrow> version list" where
  "reconcile existing incoming =
     (if list_ex (\<lambda>v. dominates_or_equal (ver_clock v) (ver_clock incoming)) existing
      then existing
      else filter (\<lambda>v. compare (ver_clock incoming) (ver_clock v) \<noteq> Dominates) existing @ [incoming])"

text \<open>The running merge of a read and of a sequence of writes.\<close>

definition reconcile_all :: "version list \<Rightarrow> version list \<Rightarrow> version list" where
  "reconcile_all = foldl reconcile"

text \<open>
  The interface: an operation that inserts an element into a list unless an element above it is
  there, and drops what the new element supersedes, over any preorder. The clients of
  \<open>reconcile\<close> (replica writes, hint stores, merged reads) need only these laws.
\<close>

locale sibling_merge =
  fixes le :: "'a \<Rightarrow> 'a \<Rightarrow> bool"
    and ins :: "'a list \<Rightarrow> 'a \<Rightarrow> 'a list"
  assumes le_refl: "le x x"
    and le_trans: "le x y \<Longrightarrow> le y z \<Longrightarrow> le x z"
    and ins_covered: "\<exists>u \<in> set vs. le v u \<Longrightarrow> ins vs v = vs"
    and ins_new: "\<not> (\<exists>u \<in> set vs. le v u) \<Longrightarrow> ins vs v = filter (\<lambda>u. \<not> le u v) vs @ [v]"
begin

definition antichain :: "'a list \<Rightarrow> bool" where
  "antichain vs \<longleftrightarrow> sorted_wrt (\<lambda>x y. \<not> le x y \<and> \<not> le y x) vs"

definition covered :: "'a list \<Rightarrow> 'a \<Rightarrow> bool" where
  "covered vs x \<longleftrightarrow> (\<exists>u \<in> set vs. le x u)"

definition maximal :: "'a set \<Rightarrow> 'a set" where
  "maximal S = {x \<in> S. \<forall>y \<in> S. le x y \<longrightarrow> le y x}"

lemma antichain_ins: "antichain vs \<Longrightarrow> antichain (ins vs v)"
  by (cases "\<exists>u \<in> set vs. le v u")
    (auto simp: ins_covered ins_new antichain_def sorted_wrt_append sorted_wrt_filter)

lemma set_ins: "set (ins vs v) \<subseteq> insert v (set vs)"
  by (cases "\<exists>u \<in> set vs. le v u") (auto simp: ins_covered ins_new)

lemma ins_not_Nil: "ins vs v \<noteq> []"
  by (cases "\<exists>u \<in> set vs. le v u") (auto simp: ins_covered ins_new)

lemma covered_ins_self: "covered (ins vs v) v"
  by (cases "\<exists>u \<in> set vs. le v u") (auto simp: covered_def ins_covered ins_new le_refl)

lemma covered_ins_mono: "covered vs x \<Longrightarrow> covered (ins vs v) x"
  by (cases "\<exists>u \<in> set vs. le v u")
    (auto simp: covered_def ins_covered ins_new intro: le_trans)

lemma covered_trans: "covered vs y \<Longrightarrow> le x y \<Longrightarrow> covered vs x"
  by (auto simp: covered_def intro: le_trans)

lemma antichain_foldl: "antichain vs \<Longrightarrow> antichain (foldl ins vs xs)"
  by (induction xs arbitrary: vs) (auto intro: antichain_ins)

lemma set_foldl: "set (foldl ins vs xs) \<subseteq> set vs \<union> set xs"
proof (induction xs arbitrary: vs)
  case (Cons x xs)
  then show ?case using set_ins [of vs x] by fastforce
qed simp

lemma covered_foldl_mono: "covered vs x \<Longrightarrow> covered (foldl ins vs xs) x"
  by (induction xs arbitrary: vs) (auto intro: covered_ins_mono)

lemma covered_foldl: "x \<in> set xs \<Longrightarrow> covered (foldl ins vs xs) x"
  by (induction xs arbitrary: vs) (auto intro: covered_foldl_mono covered_ins_self)

lemma antichain_maximal:
  assumes "antichain vs" "x \<in> set vs" "y \<in> set vs" "le x y"
  shows "x = y"
  using assms unfolding antichain_def sorted_wrt_iff_nth_less
  by (metis in_set_conv_nth linorder_neqE_nat)

text \<open>
  Folding a list in, from nothing: the result holds maximal elements only, one for each
  equivalence class of them.
\<close>

lemma foldl_maximal: "set (foldl ins [] xs) \<subseteq> maximal (set xs)"
proof
  fix x
  assume x: "x \<in> set (foldl ins [] xs)"
  have chain: "antichain (foldl ins [] xs)"
    by (rule antichain_foldl) (simp add: antichain_def)
  have "le y x" if "y \<in> set xs" "le x y" for y
  proof -
    obtain u where "u \<in> set (foldl ins [] xs)" "le y u"
      using covered_foldl [OF \<open>y \<in> set xs\<close>] by (auto simp: covered_def)
    with x that chain show ?thesis by (metis antichain_maximal le_trans)
  qed
  with x set_foldl [of "[]" xs] show "x \<in> maximal (set xs)" by (auto simp: maximal_def)
qed

lemma maximal_foldl:
  assumes "x \<in> maximal (set xs)"
  shows "\<exists>y \<in> set (foldl ins [] xs). le x y \<and> le y x"
proof -
  obtain y where y: "y \<in> set (foldl ins [] xs)" "le x y"
    using assms covered_foldl [of x xs "[]"] by (auto simp: maximal_def covered_def)
  moreover from y(1) have "y \<in> set xs" using set_foldl [of "[]" xs] by auto
  ultimately show ?thesis using assms by (auto simp: maximal_def)
qed

lemma foldl_classes:
  assumes "\<And>x y. le x y \<Longrightarrow> le y x \<Longrightarrow> f x = f y"
  shows "f ` set (foldl ins [] xs) = f ` maximal (set xs)"
  using foldl_maximal [of xs] maximal_foldl [of _ xs] assms by (auto simp: image_iff) metis+

end

interpretation versions: sibling_merge "\<lambda>v w. ver_clock v \<le> ver_clock w" reconcile
  by unfold_locales
    (auto simp: reconcile_def less_vclock_def intro: order_trans intro!: filter_cong)


lemma reconcile_covers_incoming: "\<exists>u \<in> set (reconcile vs v). ver_clock v \<le> ver_clock u"
  using versions.covered_ins_self by (simp add: versions.covered_def)

lemma reconcile_not_Nil [simp]: "reconcile vs v \<noteq> []"
  by (rule versions.ins_not_Nil)

lemma antichain_concurrent:
  "versions.antichain vs \<longleftrightarrow>
     sorted_wrt (\<lambda>v w. compare (ver_clock v) (ver_clock w) = Concurrent) vs"
  unfolding versions.antichain_def compare_Concurrent ..

subsection \<open>Properties\<close>

text \<open>Comparing two clocks decides their pointwise order over all node ids, a missing counter
  counting as 0: \<open>equal\<close> when all counters agree, \<open>dominates\<close> or \<open>dominated\<close> when one
  clock is pointwise at least the other, and \<open>concurrent\<close> otherwise.\<close>

theorem compare_pointwise:
  "compare a b =
     (if (\<forall>k. vc_get a k = vc_get b k) then Equal
      else if (\<forall>k. vc_get b k \<le> vc_get a k) then Dominates
      else if (\<forall>k. vc_get a k \<le> vc_get b k) then Dominated
      else Concurrent)"
proof -
  have "(\<forall>k. vc_get a k = vc_get b k) \<longleftrightarrow> a \<le> b \<and> b \<le> a"
    by (auto simp: less_eq_vclock_def order_eq_iff)
  then show ?thesis by (auto simp: compare_order less_eq_vclock_def)
qed

text \<open>The clock of a new write, the merge of the clocks that were read incremented at the
  coordinator, strictly dominates every clock that was read; and the merge itself is the least
  clock with non-negative counters above all of them.\<close>

theorem new_write_clock_dominates:
  assumes "\<forall>c \<in> set cs. clock_ok c"
  shows "(\<forall>c \<in> set cs. compare (incremented (merge cs) n) c = Dominates) \<and>
     (\<forall>k. vc_get (merge cs) k = Max (insert 0 ((\<lambda>c. vc_get c k) ` set cs)))"
  using next_clock_dominates [OF assms] vc_get_merge [OF assms] by simp

theorem new_write_clock_dominates_witness:
  "let cs = [VectorClock [(''a'', 3), (''b'', 1)], VectorClock [(''b'', 5)]] in
     (\<forall>c \<in> set cs. clock_ok c) \<and>
     (\<forall>c \<in> set cs. compare (incremented (merge cs) ''a'') c = Dominates)"
proof -
  let ?cs = "[VectorClock [(''a'', 3), (''b'', 1)], VectorClock [(''b'', 5)]]"
  have ok: "\<forall>c \<in> set ?cs. clock_ok c" by (simp add: clock_ok_def)
  show ?thesis unfolding Let_def using ok new_write_clock_dominates [OF ok, of "''a''"] by blast
qed

text \<open>C38. Folding versions one at a time through \<open>reconcile\<close>, in any order and with any repetition,
  keeps exactly the clocks that no other version's clock dominates; the survivors are pairwise
  concurrent.\<close>

theorem reconcile_all_maximal_antichain:
  "(\<lambda>v. vc_get (ver_clock v)) ` set (reconcile_all [] vs) =
     (\<lambda>v. vc_get (ver_clock v)) `
       {v \<in> set vs. \<not> (\<exists>w \<in> set vs. compare (ver_clock w) (ver_clock v) = Dominates)} \<and>
   sorted_wrt (\<lambda>v w. compare (ver_clock v) (ver_clock w) = Concurrent) (reconcile_all [] vs)"
proof -
  have "versions.maximal (set vs) =
      {v \<in> set vs. \<not> (\<exists>w \<in> set vs. compare (ver_clock w) (ver_clock v) = Dominates)}"
    by (auto simp: versions.maximal_def less_vclock_def)
  moreover have "versions.antichain (reconcile_all [] vs)"
    unfolding reconcile_all_def by (rule versions.antichain_foldl) (simp add: versions.antichain_def)
  moreover have "(\<lambda>v. vc_get (ver_clock v)) ` set (reconcile_all [] vs) =
      (\<lambda>v. vc_get (ver_clock v)) ` versions.maximal (set vs)"
    unfolding reconcile_all_def by (rule versions.foldl_classes) (rule vc_le_antisym_get)
  ultimately show ?thesis
    by (simp only: antichain_concurrent simp_thms)
qed

text \<open>When two versions carry equal clocks and different values, the fold keeps whichever comes
  first: the surviving value depends on the order of arrival although the surviving clocks do not.\<close>

theorem reconcile_equal_clocks_first_wins:
  assumes "compare (ver_clock v) (ver_clock w) = Equal"
  shows "reconcile_all [] [v, w] = [v] \<and> reconcile_all [] [w, v] = [w]"
  using assms by (simp add: reconcile_all_def reconcile_def compare_Equal)

theorem reconcile_equal_clocks_first_wins_witness:
  "let v = Version (JStr ''x'') (VectorClock [(''n'', 1)]); w = Version (JStr ''y'') (VectorClock [(''n'', 1)])
   in reconcile_all [] [v, w] = [v] \<and> reconcile_all [] [w, v] = [w] \<and> v \<noteq> w"
proof -
  let ?c = "VectorClock [(''n'', 1)]"
  have eq: "compare (ver_clock (Version (JStr ''x'') ?c)) (ver_clock (Version (JStr ''y'') ?c)) = Equal"
    by (simp add: compare_def)
  show ?thesis unfolding Let_def using reconcile_equal_clocks_first_wins [OF eq] by simp
qed

text \<open>The dictionary form of a version, which is what storage, hints and the wire hold, decodes
  to the same version, and so does a whole sibling list.\<close>

theorem version_roundtrip:
  "from_dict (to_dict v) = Inr v \<and> from_dicts (map to_dict vs) = Inr vs"
  by simp

end
