(* ===== verification/Hint_Store.thy ===== *)
theory Hint_Store
  imports Crypto Vector_Clock
begin

section \<open>Stored sibling lists and the hint store\<close>

text \<open>
  Models \<open>src/dynamokv/hint_store.py\<close>: writes held for an unreachable node, in a storage backend of
  their own whose keys are the node ids of the recipients and whose values are one object for each
  recipient, from keys to sibling lists. A method takes the backend and returns an error or the new
  backend; the lock of the class makes \<open>add\<close> and \<open>clear_key\<close> single steps.

  The interface \<open>hint_queue\<close> says what the node relies on: for each recipient and key a sibling list
  to which \<open>add\<close> reconciles one version and which \<open>clear_key\<close> empties. The class is interpreted in
  it, over any well-formed backend.
\<close>

subsection \<open>Sibling lists as JSON\<close>

text \<open>A version that JSON can hold: a printable value and a clock without repeated node ids.\<close>

definition version_ok :: "version \<Rightarrow> bool" where
  "version_ok v \<longleftrightarrow> json_ok (ver_value v) \<and> clock_ok (ver_clock v)"

definition siblings_json :: "version list \<Rightarrow> json" where
  "siblings_json vs = JArr (map to_dict vs)"

text \<open>
  \<open>[Version.from_dict(v) for v in raw]\<close> for any decoded \<open>raw\<close>: objects and strings iterate over
  strings, which have no \<open>["value"]\<close>; numbers and booleans do not iterate.
\<close>

definition versions_of_json :: "json \<Rightarrow> py_error + version list" where
  "versions_of_json raw =
     (case raw of
        JArr xs \<Rightarrow> from_dicts xs
      | JObj d \<Rightarrow> if d = [] then Inr [] else Inl TypeError
      | JStr s \<Rightarrow> if s = [] then Inr [] else Inl TypeError
      | _ \<Rightarrow> Inl TypeError)"

lemma versions_of_siblings [simp]: "versions_of_json (siblings_json vs) = Inr vs"
  by (simp add: versions_of_json_def siblings_json_def)

lemma siblings_json_not_null [simp]: "siblings_json vs \<noteq> JNull"
  by (simp add: siblings_json_def)

lemma map_fst_pair: "map (fst \<circ> (\<lambda>(k, v). (k, f v))) d = map fst d"
  by (induction d) auto

lemma json_ok_to_dict: "version_ok v \<Longrightarrow> json_ok (to_dict v)"
  by (auto simp: version_ok_def to_dict_def clock_to_json_def clock_ok_def map_fst_pair)

lemma json_ok_siblings [simp]: "\<forall>v \<in> set vs. version_ok v \<Longrightarrow> json_ok (siblings_json vs)"
  by (simp add: siblings_json_def json_ok_to_dict)

text \<open>What a replica, a hint or a merged read holds for a key: concurrent printable versions.\<close>

definition siblings_ok :: "version list \<Rightarrow> bool" where
  "siblings_ok vs \<longleftrightarrow> versions.antichain vs \<and> (\<forall>v \<in> set vs. version_ok v)"

lemma siblings_ok_Nil [simp]: "siblings_ok []"
  by (simp add: siblings_ok_def versions.antichain_def)

lemma siblings_ok_reconcile [wf_intros]:
  "siblings_ok vs \<Longrightarrow> version_ok v \<Longrightarrow> siblings_ok (reconcile vs v)"
  using versions.set_ins [of vs v] by (auto simp: siblings_ok_def versions.antichain_ins)

subsection \<open>The interface\<close>

locale hint_queue =
  fixes inv :: "'s \<Rightarrow> bool"
    and pending :: "'s \<Rightarrow> node_id \<Rightarrow> key \<Rightarrow> version list"
    and add :: "'s \<Rightarrow> node_id \<Rightarrow> key \<Rightarrow> version \<Rightarrow> py_error + 's"
    and clear :: "'s \<Rightarrow> node_id \<Rightarrow> key \<Rightarrow> py_error + 's"
    and has :: "'s \<Rightarrow> node_id \<Rightarrow> bool"
  assumes add_law: "inv s \<Longrightarrow> version_ok v \<Longrightarrow>
      \<exists>s'. add s t k v = Inr s' \<and> inv s' \<and>
        (\<forall>t' k'. pending s' t' k' = (if t' = t \<and> k' = k then reconcile (pending s t k) v else pending s t' k'))"
    and clear_law: "inv s \<Longrightarrow>
      \<exists>s'. clear s t k = Inr s' \<and> inv s' \<and>
        (\<forall>t' k'. pending s' t' k' = (if t' = t \<and> k' = k then [] else pending s t' k'))"
    and has_law: "inv s \<Longrightarrow> has s t \<longleftrightarrow> (\<exists>k. pending s t k \<noteq> [])"
begin

lemma add_Inr:
  assumes "inv s" "version_ok v" "add s t k v = Inr s'"
  shows "inv s'"
    and "pending s' t' k' = (if t' = t \<and> k' = k then reconcile (pending s t k) v else pending s t' k')"
  using add_law [OF assms(1,2), of t k] assms(3) by auto

lemma clear_Inr:
  assumes "inv s" "clear s t k = Inr s'"
  shows "inv s'" and "pending s' t' k' = (if t' = t \<and> k' = k then [] else pending s t' k')"
  using clear_law [OF assms(1), of t k] assms(2) by auto

text \<open>What is added stays covered until its key is cleared, whatever else is added.\<close>

lemma add_covered:
  assumes "inv s" "version_ok v" "add s t k v = Inr s'"
  shows "versions.covered (pending s' t k) v"
    and "versions.covered (pending s t' k') w \<Longrightarrow> versions.covered (pending s' t' k') w"
  using add_Inr(2) [OF assms] by (auto simp: versions.covered_ins_self versions.covered_ins_mono)

lemma add_has:
  assumes "inv s" "version_ok v" "add s t k v = Inr s'"
  shows "has s' t' \<longleftrightarrow> t' = t \<or> has s t'"
  using add_Inr [OF assms] by (auto simp: has_law [OF assms(1)] has_law [OF add_Inr(1) [OF assms]])

end

subsection \<open>The class HintStore\<close>

definition hs_load :: "storage \<Rightarrow> node_id \<Rightarrow> py_error + json" where
  "hs_load s target =
     (case st_get s target of
        Inl e \<Rightarrow> Inl e
      | Inr raw \<Rightarrow> Inr (if raw \<noteq> JNull then raw else JObj []))"

definition hs_save :: "storage \<Rightarrow> node_id \<Rightarrow> json \<Rightarrow> storage" where
  "hs_save s target blob = st_put s target blob"

definition hs_add :: "storage \<Rightarrow> node_id \<Rightarrow> key \<Rightarrow> version \<Rightarrow> py_error + storage" where
  "hs_add s target k v =
     (case hs_load s target of
        Inl e \<Rightarrow> Inl e
      | Inr (JObj blob) \<Rightarrow>
          (case versions_of_json (dict_get blob k (JArr [])) of
             Inl e \<Rightarrow> Inl e
           | Inr existing \<Rightarrow>
               let merged = reconcile existing v
               in Inr (hs_save s target (JObj (dict_put k (siblings_json merged) blob))))
      | Inr _ \<Rightarrow> Inl AttributeError)"

fun decode_items :: "(key, json) dict \<Rightarrow> py_error + (key, version list) dict" where
  "decode_items [] = Inr []"
| "decode_items ((k, raw) # items) =
     (case versions_of_json raw of
        Inl e \<Rightarrow> Inl e
      | Inr vs \<Rightarrow> map_sum id ((#) (k, vs)) (decode_items items))"

definition hs_pending_for :: "storage \<Rightarrow> node_id \<Rightarrow> py_error + (key, version list) dict" where
  "hs_pending_for s target =
     (case hs_load s target of
        Inl e \<Rightarrow> Inl e
      | Inr (JObj blob) \<Rightarrow> decode_items blob
      | Inr _ \<Rightarrow> Inl AttributeError)"

definition hs_clear_key :: "storage \<Rightarrow> node_id \<Rightarrow> key \<Rightarrow> py_error + storage" where
  "hs_clear_key s target k =
     (case hs_load s target of
        Inl e \<Rightarrow> Inl e
      | Inr (JObj blob) \<Rightarrow>
          if map_of blob k = None then Inr s
          else
            let blob' = dict_del k blob
            in if blob' \<noteq> [] then Inr (hs_save s target (JObj blob')) else Inr (snd (st_delete s target))
      | Inr _ \<Rightarrow> Inl TypeError)"

definition hs_has_pending :: "storage \<Rightarrow> node_id \<Rightarrow> bool" where
  "hs_has_pending s target = st_exists s target"

subsection \<open>Its invariant and its view\<close>

definition blob_of :: "(key, version list) dict \<Rightarrow> json" where
  "blob_of d = JObj (map (\<lambda>(k, vs). (k, siblings_json vs)) d)"

definition pend_ok :: "(key, version list) dict \<Rightarrow> bool" where
  "pend_ok d \<longleftrightarrow> dict_ok d \<and> (\<forall>(k, vs) \<in> set d. vs \<noteq> [] \<and> siblings_ok vs)"

definition row_of :: "(key, version list) dict \<Rightarrow> json option" where
  "row_of d = (if d = [] then None else Some (blob_of d))"

definition hint_ok :: "storage \<Rightarrow> bool" where
  "hint_ok s \<longleftrightarrow> storage_ok s \<and> (\<forall>t. \<exists>d. pend_ok d \<and> storage_map s t = row_of d)"

definition hs_pending :: "storage \<Rightarrow> node_id \<Rightarrow> key \<Rightarrow> version list" where
  "hs_pending s t k = (case hs_pending_for s t of Inl _ \<Rightarrow> [] | Inr d \<Rightarrow> dict_get d k [])"

lemma hint_okE:
  assumes "hint_ok s"
  obtains d where "storage_ok s" "pend_ok d" "storage_map s t = row_of d"
  using assms by (auto simp: hint_ok_def)

lemma blob_lookup: "map_of (map (\<lambda>(k, vs). (k, f vs)) d) k = map_option f (map_of d k)"
  by (induction d) auto

lemma blob_put:
  "dict_put k (f x) (map (\<lambda>(k, vs). (k, f vs)) d) = map (\<lambda>(k, vs). (k, f vs)) (dict_put k x d)"
  by (induction d) auto

lemma blob_del: "dict_del k (map (\<lambda>(k, vs). (k, f vs)) d) = map (\<lambda>(k, vs). (k, f vs)) (dict_del k d)"
  by (induction d) (auto simp: AList.delete_eq)

lemma decode_items_blob [simp]: "decode_items (map (\<lambda>(k, vs). (k, siblings_json vs)) d) = Inr d"
  by (induction d) auto

lemma hs_load_row:
  "storage_ok s \<Longrightarrow> storage_map s t = row_of d \<Longrightarrow> hs_load s t = Inr (blob_of d)"
  by (auto simp: hs_load_def st.get_absm row_of_def blob_of_def)

lemma hs_pending_for_row:
  "storage_ok s \<Longrightarrow> storage_map s t = row_of d \<Longrightarrow> hs_pending_for s t = Inr d"
  by (simp add: hs_pending_for_def hs_load_row) (simp add: blob_of_def)

lemma hs_pending_row:
  "storage_ok s \<Longrightarrow> storage_map s t = row_of d \<Longrightarrow> hs_pending s t k = dict_get d k []"
  by (simp add: hs_pending_def hs_pending_for_row)

lemma json_ok_blob: "pend_ok d \<Longrightarrow> json_ok (blob_of d)"
  by (auto simp: pend_ok_def blob_of_def map_fst_pair siblings_ok_def)

lemma pend_ok_put: "pend_ok d \<Longrightarrow> vs \<noteq> [] \<Longrightarrow> siblings_ok vs \<Longrightarrow> pend_ok (dict_put k vs d)"
  using dict_put_subset [of k vs d] by (fastforce simp: pend_ok_def dict_ok_put)

lemma pend_ok_del: "pend_ok d \<Longrightarrow> pend_ok (dict_del k d)"
  using dict_del_subset [of k d] by (fastforce simp: pend_ok_def dict_ok_del)

lemma pend_ok_get: "pend_ok d \<Longrightarrow> siblings_ok (dict_get d k [])"
  by (auto simp: pend_ok_def dict_get_def split: option.splits dest!: map_of_SomeD)

text \<open>Writing one recipient's row: the view of the others does not change.\<close>

lemma hint_ok_row:
  assumes "hint_ok s" "pend_ok d" "storage_ok s'" "storage_map s' = (storage_map s)(t := row_of d)"
  shows "hint_ok s'" and "hs_pending s' t' k = (if t' = t then dict_get d k [] else hs_pending s t' k)"
proof -
  show "hint_ok s'" using assms by (auto simp: hint_ok_def)
  obtain d' where "storage_map s t' = row_of d'" "storage_ok s" using assms(1) by (rule hint_okE)
  then show "hs_pending s' t' k = (if t' = t then dict_get d k [] else hs_pending s t' k)"
    using assms(3,4) by (auto simp: hs_pending_row intro: hs_pending_row)
qed

lemma hs_add_laws:
  assumes ok: "hint_ok s" and v: "version_ok v"
  shows "\<exists>s'. hs_add s t k v = Inr s' \<and> hint_ok s' \<and>
    (\<forall>t' k'. hs_pending s' t' k' = (if t' = t \<and> k' = k then reconcile (hs_pending s t k) v else hs_pending s t' k'))"
proof -
  obtain d where d: "storage_ok s" "pend_ok d" "storage_map s t = row_of d" using ok by (rule hint_okE)
  let ?vs = "reconcile (dict_get d k []) v" and ?d = "dict_put k (reconcile (dict_get d k []) v) d"
  let ?s = "st_put s t (blob_of ?d)"
  have pend: "pend_ok ?d"
    using d(2) v by (intro pend_ok_put) (auto intro: wf_intros pend_ok_get)
  have "versions_of_json (JArr []) = Inr []" by (simp add: versions_of_json_def)
  then have "versions_of_json (dict_get (map (\<lambda>(k, vs). (k, siblings_json vs)) d) k (JArr [])) = Inr (dict_get d k [])"
    by (cases "map_of d k") (simp_all add: dict_get_def blob_lookup)
  then have "hs_add s t k v = Inr ?s"
    using hs_load_row [OF d(1,3)] by (simp add: hs_add_def hs_save_def blob_of_def blob_put Let_def)
  moreover have map: "storage_map ?s = (storage_map s)(t := row_of ?d)"
    using st.absm_put [OF d(1) json_ok_blob [OF pend]] by (simp add: row_of_def)
  moreover have "storage_ok ?s" using st.inv_put [OF d(1) json_ok_blob [OF pend]] .
  ultimately show ?thesis
    using hint_ok_row [OF ok pend _ map] hs_pending_row [OF d(1,3)] by auto
qed

lemma hs_clear_laws:
  assumes ok: "hint_ok s"
  shows "\<exists>s'. hs_clear_key s t k = Inr s' \<and> hint_ok s' \<and>
    (\<forall>t' k'. hs_pending s' t' k' = (if t' = t \<and> k' = k then [] else hs_pending s t' k'))"
proof -
  obtain d where d: "storage_ok s" "pend_ok d" "storage_map s t = row_of d" using ok by (rule hint_okE)
  let ?d = "dict_del k d"
  have clear: "hs_clear_key s t k =
      (if map_of d k = None then Inr s
       else if ?d \<noteq> [] then Inr (st_put s t (blob_of ?d)) else Inr (snd (st_delete s t)))"
    using hs_load_row [OF d(1,3)]
    by (simp add: hs_clear_key_def hs_save_def blob_of_def blob_lookup blob_del Let_def)
  have pend: "pend_ok ?d" using d(2) by (rule pend_ok_del)
  have view: "dict_get ?d k' [] = (if k' = k then [] else dict_get d k' [])" for k'
    by (simp add: dict_get_def)
  show ?thesis
  proof (cases "map_of d k = None")
    case True
    then have "hs_pending s t k = []" using hs_pending_row [OF d(1,3)] by (simp add: dict_get_def)
    then show ?thesis using True clear ok by auto
  next
    case False
    define s' where "s' = (if ?d \<noteq> [] then st_put s t (blob_of ?d) else snd (st_delete s t))"
    have "storage_ok s'" "storage_map s' = (storage_map s)(t := row_of ?d)"
      using json_ok_blob [OF pend] st.inv_put [OF d(1)] st.inv_delete [OF d(1)]
        st.absm_put [OF d(1)] st.absm_delete [OF d(1)]
      by (simp_all add: s'_def row_of_def)
    moreover have "hs_clear_key s t k = Inr s'" unfolding clear s'_def using False by auto
    ultimately show ?thesis
      using hint_ok_row [OF ok pend, of s' t] hs_pending_row [OF d(1,3)] view by auto
  qed
qed

lemma hs_has_laws: "hint_ok s \<Longrightarrow> hs_has_pending s t \<longleftrightarrow> (\<exists>k. hs_pending s t k \<noteq> [])"
proof -
  assume "hint_ok s"
  then obtain d where d: "storage_ok s" "pend_ok d" "storage_map s t = row_of d" by (rule hint_okE)
  have "(\<exists>k. dict_get d k [] \<noteq> []) \<longleftrightarrow> d \<noteq> []"
  proof (cases d)
    case (Cons kv d')
    then show ?thesis using d(2) by (cases kv) (auto simp: pend_ok_def dict_get_def)
  qed simp
  then show ?thesis using d by (simp add: hs_has_pending_def st.exists_absm hs_pending_row row_of_def)
qed

interpretation hints: hint_queue hint_ok hs_pending hs_add hs_clear_key hs_has_pending
  using hs_add_laws hs_clear_laws hs_has_laws by unfold_locales

text \<open>A sequence of additions, stopping at the first that raises.\<close>

fun hs_add_all :: "storage \<Rightarrow> (node_id \<times> key \<times> version) list \<Rightarrow> py_error + storage" where
  "hs_add_all s [] = Inr s"
| "hs_add_all s ((t, k, v) # ops) =
     (case hs_add s t k v of Inl e \<Rightarrow> Inl e | Inr s' \<Rightarrow> hs_add_all s' ops)"

definition hints_to :: "(node_id \<times> key \<times> version) list \<Rightarrow> node_id \<Rightarrow> key \<Rightarrow> version list" where
  "hints_to ops t k = map (\<lambda>(_, _, v). v) (filter (\<lambda>(t', k', _). t' = t \<and> k' = k) ops)"

lemma hs_add_all_pending:
  "hint_ok s \<Longrightarrow> \<forall>(t, k, v) \<in> set ops. version_ok v \<Longrightarrow>
     \<exists>s'. hs_add_all s ops = Inr s' \<and> hint_ok s' \<and>
       (\<forall>t k. hs_pending s' t k = reconcile_all (hs_pending s t k) (hints_to ops t k))"
proof (induction ops arbitrary: s)
  case Nil
  then show ?case by (simp add: reconcile_all_def hints_to_def)
next
  case (Cons op ops)
  obtain t k v where op: "op = (t, k, v)" by (cases op)
  obtain s1 where s1: "hs_add s t k v = Inr s1" "hint_ok s1"
      "\<forall>t' k'. hs_pending s1 t' k' =
        (if t' = t \<and> k' = k then reconcile (hs_pending s t k) v else hs_pending s t' k')"
    using hints.add_law [OF Cons.prems(1), of v t k] Cons.prems(2) op by auto
  obtain s' where "hs_add_all s1 ops = Inr s'" "hint_ok s'"
      "\<forall>t k. hs_pending s' t k = reconcile_all (hs_pending s1 t k) (hints_to ops t k)"
    using Cons.IH [OF s1(2)] Cons.prems(2) by auto
  then show ?case using s1 op by (auto simp: hints_to_def reconcile_all_def)
qed

lemma hint_ok_new [wf_intros]:
  "hint_ok (Memory memory_new)" "hint_ok (Sqlite (sqlite_new path))"
  by (auto simp: hint_ok_def memory_ok_def sqlite_ok_def row_of_def pend_ok_def memory_map_def
      memory_new_def sqlite_map_def sqlite_new_def intro!: exI [of _ "[]"])

lemma hs_pending_new: "hs_pending (Memory memory_new) t k = []"
  by (simp add: hs_pending_def hs_pending_for_def hs_load_def memory_get_def memory_new_def)

subsection \<open>Properties\<close>

text \<open>Any sequence of additions to a hint store succeeds and leaves, for each recipient and key,
  the reconciliation of what was pending there with the versions added for that recipient and key, in
  their order: recipients and keys never affect each other.\<close>

theorem hint_additions_independent:
  assumes "hint_ok s" "\<forall>(t, k, v) \<in> set ops. version_ok v"
  shows "\<exists>s'. hs_add_all s ops = Inr s' \<and> hint_ok s' \<and>
    (\<forall>t k. hs_pending s' t k = reconcile_all (hs_pending s t k) (hints_to ops t k)) \<and>
    (\<forall>t. hs_has_pending s' t \<longleftrightarrow> (\<exists>k. reconcile_all (hs_pending s t k) (hints_to ops t k) \<noteq> []))"
  using hs_add_all_pending [OF assms] hints.has_law by fastforce

theorem hint_additions_independent_witness:
  "let v1 = Version (JInt 1) (VectorClock [(''a'', 1)]); v2 = Version (JInt 2) (VectorClock [(''a'', 2)]);
       w = Version (JInt 3) (VectorClock [(''b'', 1)])
   in \<exists>s. hs_add_all (Memory memory_new) [(''n1'', ''k'', v1), (''n2'', ''k'', w), (''n1'', ''k'', v2)] = Inr s \<and>
     hs_pending s ''n1'' ''k'' = [v2] \<and> hs_pending s ''n2'' ''k'' = [w] \<and> hs_pending s ''n1'' ''j'' = []"
proof -
  let ?v1 = "Version (JInt 1) (VectorClock [(''a'', 1)])" and ?v2 = "Version (JInt 2) (VectorClock [(''a'', 2)])"
  let ?w = "Version (JInt 3) (VectorClock [(''b'', 1)])"
  let ?ops = "[(''n1'', ''k'', ?v1), (''n2'', ''k'', ?w), (''n1'', ''k'', ?v2)]"
  have ok: "\<forall>(t, k, v) \<in> set ?ops. version_ok v" by (simp add: version_ok_def clock_ok_def)
  have vals: "reconcile_all [] (hints_to ?ops ''n1'' ''k'') = [?v2]"
    "reconcile_all [] (hints_to ?ops ''n2'' ''k'') = [?w]" "reconcile_all [] (hints_to ?ops ''n1'' ''j'') = []"
    by (simp_all add: hints_to_def reconcile_all_def reconcile_def dominates_or_equal_def compare_def
        vc_get_def dict_get_def del: dominates_or_equal_iff compare_Dominates)
  obtain s where "hs_add_all (Memory memory_new) ?ops = Inr s"
      "\<forall>t k. hs_pending s t k = reconcile_all (hs_pending (Memory memory_new) t k) (hints_to ?ops t k)"
    using hint_additions_independent [OF hint_ok_new(1) ok] by blast
  then show ?thesis unfolding Let_def using vals hs_pending_new by metis
qed

text \<open>Clearing a key drops what was pending for that recipient and key and nothing else; the
  recipient's row goes with its last key, so the store then reports nothing pending for it.\<close>

theorem clear_key_effect:
  assumes "hint_ok s"
  shows "\<exists>s'. hs_clear_key s t k = Inr s' \<and> hint_ok s' \<and>
    (\<forall>t' k'. hs_pending s' t' k' = (if t' = t \<and> k' = k then [] else hs_pending s t' k')) \<and>
    ((\<forall>k'. k' \<noteq> k \<longrightarrow> hs_pending s t k' = []) \<longrightarrow> \<not> hs_has_pending s' t)"
  using hints.clear_law [OF assms, of t k] hints.has_law by fastforce

theorem clear_key_effect_witness:
  "let v = Version (JInt 1) (VectorClock [(''a'', 1)])
   in \<exists>s s'. hs_add (Memory memory_new) ''n'' ''k'' v = Inr s \<and> hs_pending s ''n'' ''k'' = [v] \<and>
     hs_clear_key s ''n'' ''k'' = Inr s' \<and> hs_pending s' ''n'' ''k'' = [] \<and> \<not> hs_has_pending s' ''n''"
proof -
  let ?v = "Version (JInt 1) (VectorClock [(''a'', 1)])"
  have v: "version_ok ?v" by (simp add: version_ok_def clock_ok_def)
  have one: "reconcile [] ?v = [?v]" by (simp add: reconcile_def)
  obtain s where s: "hs_add (Memory memory_new) ''n'' ''k'' ?v = Inr s" "hint_ok s"
      "\<forall>t' k'. hs_pending s t' k' = (if t' = ''n'' \<and> k' = ''k'' then [?v] else [])"
    using hints.add_law [OF hint_ok_new(1) v, of "''n''" "''k''"] one hs_pending_new by auto
  show ?thesis
    unfolding Let_def using clear_key_effect [OF s(2), of "''n''" "''k''"] s by auto
qed

end
