(* ===== verification/Node.thy ===== *)
theory Node
  imports Hash_Ring Gossip Hint_Store
begin

section \<open>A node's own state\<close>

text \<open>
  Models the part of \<open>src/dynamokv/node.py\<close> that touches one node only: the constructor, the local
  primitives that every replica's internal endpoint calls, the preference list, the split of replicas
  by liveness, the reception of gossip and the read-only views. The HTTP client, the thread pool and
  the clock are not state: requests and their outcomes are in the theory \<open>Cluster\<close>, and each reading
  of the clock is an argument.

  The invariant \<open>node_ok\<close> says what a node's memory holds: each stored key has a non-empty list of
  pairwise concurrent versions. The lemmas give every primitive's effect on the view
  \<open>siblings\<close> (the versions a replica holds for a key), and that it keeps the invariant; the quorum operations rest on
  these laws only.
\<close>

record node =
  nd_id :: node_id
  nd_storage :: storage
  nd_ring :: hash_ring
  nd_peers :: "(node_id, url) dict"
  nd_n :: int
  nd_r :: int
  nd_w :: int
  nd_timeout :: real
  nd_gossip :: gossip_state
  nd_hints :: storage

definition node_init ::
  "(string \<Rightarrow> bytes) \<Rightarrow> node_id \<Rightarrow> storage \<Rightarrow> hash_ring option \<Rightarrow> (node_id, url) dict option \<Rightarrow>
     int \<Rightarrow> int \<Rightarrow> int \<Rightarrow> storage option \<Rightarrow> real \<Rightarrow> real \<Rightarrow> node" where
  "node_init D i storage ring peers n r w hint_storage now timeout =
     \<lparr>nd_id = i, nd_storage = storage,
      nd_ring = (case ring of Some ring' \<Rightarrow> ring' | None \<Rightarrow> new_ring D [i] 150),
      nd_peers = (case peers of Some ps \<Rightarrow> ps | None \<Rightarrow> []),
      nd_n = n, nd_r = r, nd_w = w, nd_timeout = timeout,
      nd_gossip = gossip_init i now,
      nd_hints = (case hint_storage of Some s \<Rightarrow> s | None \<Rightarrow> Memory memory_new)\<rparr>"

subsection \<open>Local primitives\<close>

definition get_local :: "node \<Rightarrow> key \<Rightarrow> py_error + version list" where
  "get_local nd k =
     (case st_get (nd_storage nd) k of
        Inl e \<Rightarrow> Inl e
      | Inr raw \<Rightarrow> if raw = JNull then Inr [] else versions_of_json raw)"

definition put_local :: "node \<Rightarrow> key \<Rightarrow> version \<Rightarrow> py_error + node" where
  "put_local nd k v =
     (case get_local nd k of
        Inl e \<Rightarrow> Inl e
      | Inr existing \<Rightarrow>
          let merged = reconcile existing v
          in Inr (nd\<lparr>nd_storage := st_put (nd_storage nd) k (siblings_json merged)\<rparr>))"

text \<open>
  The write of \<open>put_local\<close>, given what it read. Nothing holds a lock from the read to the write, and the
  handlers run on a thread pool: \<open>existing\<close> need not be what the storage holds when the write happens.
\<close>

definition put_local_write :: "node \<Rightarrow> key \<Rightarrow> version list \<Rightarrow> version \<Rightarrow> node" where
  "put_local_write nd k existing v =
     nd\<lparr>nd_storage := st_put (nd_storage nd) k (siblings_json (reconcile existing v))\<rparr>"

lemma put_local_halves:
  "put_local nd k v = map_sum id (\<lambda>existing. put_local_write nd k existing v) (get_local nd k)"
  by (cases "get_local nd k") (simp_all add: put_local_def put_local_write_def Let_def)

definition delete_local :: "node \<Rightarrow> key \<Rightarrow> bool \<times> node" where
  "delete_local nd k =
     (case st_delete (nd_storage nd) k of (existed, s) \<Rightarrow> (existed, nd\<lparr>nd_storage := s\<rparr>))"

definition exists_local :: "node \<Rightarrow> key \<Rightarrow> bool" where
  "exists_local nd k = st_exists (nd_storage nd) k"

definition add_hint :: "node \<Rightarrow> node_id \<Rightarrow> key \<Rightarrow> version \<Rightarrow> py_error + node" where
  "add_hint nd target k v =
     map_sum id (\<lambda>s. nd\<lparr>nd_hints := s\<rparr>) (hs_add (nd_hints nd) target k v)"

text \<open>\<open>clear_key\<close> on the node's hint store, as the flush calls it.\<close>

definition clear_hint :: "node \<Rightarrow> node_id \<Rightarrow> key \<Rightarrow> py_error + node" where
  "clear_hint nd target k =
     map_sum id (\<lambda>s. nd\<lparr>nd_hints := s\<rparr>) (hs_clear_key (nd_hints nd) target k)"

subsection \<open>Placement, addresses and liveness\<close>

definition preference_list :: "(string \<Rightarrow> bytes) \<Rightarrow> node \<Rightarrow> key \<Rightarrow> py_error + node_id list" where
  "preference_list D nd k = get_preference_list D (nd_ring nd) k (nd_n nd)"

definition peer_base_url :: "node \<Rightarrow> node_id \<Rightarrow> py_error + url" where
  "peer_base_url nd m = (case map_of (nd_peers nd) m of None \<Rightarrow> Inl RuntimeError | Some u \<Rightarrow> Inr u)"

fun partition_loop ::
  "node \<Rightarrow> real \<Rightarrow> node_id list \<Rightarrow> node_id list \<Rightarrow> node_id list \<Rightarrow> node_id list \<times> node_id list" where
  "partition_loop nd now [] live presumed_down = (live, presumed_down)"
| "partition_loop nd now (m # ms) live presumed_down =
     (if believed_down (nd_gossip nd) m now (nd_timeout nd)
      then partition_loop nd now ms live (presumed_down @ [m])
      else partition_loop nd now ms (live @ [m]) presumed_down)"

definition partition_by_liveness :: "node \<Rightarrow> real \<Rightarrow> node_id list \<Rightarrow> node_id list \<times> node_id list" where
  "partition_by_liveness nd now prefs = partition_loop nd now prefs [] []"

definition handle_gossip :: "node \<Rightarrow> real \<Rightarrow> (node_id, int) dict \<Rightarrow> (node_id, int) dict \<times> node" where
  "handle_gossip nd now incoming =
     (let nd' = nd\<lparr>nd_gossip := merge_wire now incoming (nd_gossip nd)\<rparr>
      in (to_wire (nd_gossip nd'), nd'))"

definition peer_ids :: "node \<Rightarrow> node_id set" where
  "peer_ids nd = set (map fst (nd_peers nd))"

definition ring_topology :: "node \<Rightarrow> py_error + (real \<times> node_id) list" where
  "ring_topology nd = sorted_points (nd_ring nd)"

fun pending_counts :: "storage \<Rightarrow> node_id list \<Rightarrow> py_error + (node_id, nat) dict" where
  "pending_counts s [] = Inr []"
| "pending_counts s (m # ms) =
     (case hs_pending_for s m of
        Inl e \<Rightarrow> Inl e
      | Inr d \<Rightarrow> map_sum id ((#) (m, length d)) (pending_counts s ms))"

definition pending_hints :: "node \<Rightarrow> py_error + (node_id, nat) dict" where
  "pending_hints nd = pending_counts (nd_hints nd) (map fst (nd_peers nd))"

definition down_peers :: "node \<Rightarrow> real \<Rightarrow> node_id set" where
  "down_peers nd now =
     set (filter (\<lambda>m. believed_down (nd_gossip nd) m now (nd_timeout nd)) (map fst (nd_peers nd)))"

lemma partition_loop_filter:
  "partition_loop nd now ms live down =
     (live @ filter (\<lambda>m. \<not> believed_down (nd_gossip nd) m now (nd_timeout nd)) ms,
      down @ filter (\<lambda>m. believed_down (nd_gossip nd) m now (nd_timeout nd)) ms)"
  by (induction ms arbitrary: live down) auto

lemma partition_filter:
  "partition_by_liveness nd now prefs =
     (filter (\<lambda>m. \<not> believed_down (nd_gossip nd) m now (nd_timeout nd)) prefs,
      filter (\<lambda>m. believed_down (nd_gossip nd) m now (nd_timeout nd)) prefs)"
  by (simp add: partition_by_liveness_def partition_loop_filter)

subsection \<open>The invariant and the view\<close>

definition siblings :: "node \<Rightarrow> key \<Rightarrow> version list" where
  "siblings nd k = (case get_local nd k of Inl _ \<Rightarrow> [] | Inr vs \<Rightarrow> vs)"

definition data_row :: "version list \<Rightarrow> json option" where
  "data_row vs = (if vs = [] then None else Some (siblings_json vs))"

definition node_ok :: "node \<Rightarrow> bool" where
  "node_ok nd \<longleftrightarrow>
     storage_ok (nd_storage nd) \<and>
     (\<forall>k. \<exists>vs. siblings_ok vs \<and> storage_map (nd_storage nd) k = data_row vs) \<and>
     hint_ok (nd_hints nd) \<and> gossip_ok (nd_gossip nd)"

lemma node_okE:
  assumes "node_ok nd"
  obtains vs where "storage_ok (nd_storage nd)" "siblings_ok vs"
    "storage_map (nd_storage nd) k = data_row vs"
  using assms by (auto simp: node_ok_def)

lemma node_ok_parts:
  assumes "node_ok nd"
  shows "storage_ok (nd_storage nd)" "hint_ok (nd_hints nd)" "gossip_ok (nd_gossip nd)"
  using assms by (simp_all add: node_ok_def)

lemma get_local_row:
  "storage_ok (nd_storage nd) \<Longrightarrow> storage_map (nd_storage nd) k = data_row vs \<Longrightarrow>
     get_local nd k = Inr vs"
  by (simp add: get_local_def st.get_absm data_row_def)

lemma get_local_siblings: "node_ok nd \<Longrightarrow> get_local nd k = Inr (siblings nd k)"
  by (rule node_okE [of nd k]) (auto simp: siblings_def get_local_row)

lemma siblings_ok_siblings: "node_ok nd \<Longrightarrow> siblings_ok (siblings nd k)"
  by (rule node_okE [of nd k]) (auto simp: siblings_def get_local_row)

lemma storage_map_siblings: "node_ok nd \<Longrightarrow> storage_map (nd_storage nd) k = data_row (siblings nd k)"
  by (rule node_okE [of nd k]) (auto simp: siblings_def get_local_row)

lemma exists_local_siblings: "node_ok nd \<Longrightarrow> exists_local nd k \<longleftrightarrow> siblings nd k \<noteq> []"
  by (simp add: exists_local_def st.exists_absm node_ok_parts storage_map_siblings data_row_def)

text \<open>Replacing the rows of one key.\<close>

lemma node_ok_row:
  assumes "node_ok nd" "siblings_ok vs" "storage_ok s"
    and "storage_map s = (storage_map (nd_storage nd))(k := data_row vs)"
  shows "node_ok (nd\<lparr>nd_storage := s\<rparr>)"
    and "siblings (nd\<lparr>nd_storage := s\<rparr>) k' = (if k' = k then vs else siblings nd k')"
proof -
  have "\<exists>ws. siblings_ok ws \<and> storage_map s k' = data_row ws" for k'
    using assms(1,2) unfolding assms(4) node_ok_def by (cases "k' = k") auto
  then show "node_ok (nd\<lparr>nd_storage := s\<rparr>)" using assms(1,3) by (simp add: node_ok_def)
  have "storage_map s k' = data_row (if k' = k then vs else siblings nd k')"
    using assms(1,4) by (simp add: storage_map_siblings)
  then have "get_local (nd\<lparr>nd_storage := s\<rparr>) k' = Inr (if k' = k then vs else siblings nd k')"
    by (intro get_local_row) (simp_all add: assms(3))
  then show "siblings (nd\<lparr>nd_storage := s\<rparr>) k' = (if k' = k then vs else siblings nd k')"
    by (simp add: siblings_def)
qed

lemma put_local_write_laws:
  assumes "node_ok nd" "siblings_ok existing" "version_ok v"
  shows "node_ok (put_local_write nd k existing v)"
    and "siblings (put_local_write nd k existing v) k' = (if k' = k then reconcile existing v else siblings nd k')"
proof -
  let ?vs = "reconcile existing v"
  let ?s = "st_put (nd_storage nd) k (siblings_json ?vs)"
  have s: "storage_ok (nd_storage nd)" using assms(1) by (simp add: node_ok_def)
  have vs: "siblings_ok ?vs" using assms(2,3) by (rule siblings_ok_reconcile)
  have j: "json_ok (siblings_json ?vs)" using vs by (simp add: siblings_ok_def)
  have map: "storage_map ?s = (storage_map (nd_storage nd))(k := data_row ?vs)"
    using st.absm_put [OF s j] by (simp add: data_row_def)
  note row = node_ok_row [OF assms(1) vs st.inv_put [OF s j] map]
  show "node_ok (put_local_write nd k existing v)"
    "siblings (put_local_write nd k existing v) k' = (if k' = k then ?vs else siblings nd k')"
    using row unfolding put_local_write_def by simp_all
qed

lemma put_local_laws:
  assumes "node_ok nd" "version_ok v"
  shows "\<exists>s. put_local nd k v = Inr (nd\<lparr>nd_storage := s\<rparr>) \<and> node_ok (nd\<lparr>nd_storage := s\<rparr>) \<and>
    (\<forall>k'. siblings (nd\<lparr>nd_storage := s\<rparr>) k' = (if k' = k then reconcile (siblings nd k) v else siblings nd k'))"
  using put_local_write_laws [OF assms(1) siblings_ok_siblings [OF assms(1)] assms(2), of k]
  by (auto simp: put_local_halves get_local_siblings [OF assms(1)] put_local_write_def)

text \<open>When nobody has changed the row since the read, the two halves are the whole.\<close>

lemma put_local_undisturbed:
  "node_ok nd \<Longrightarrow> siblings nd k = existing \<Longrightarrow> put_local nd k v = Inr (put_local_write nd k existing v)"
  by (simp add: put_local_halves get_local_siblings)

lemma delete_local_laws:
  assumes "node_ok nd"
  shows "\<exists>s. delete_local nd k = (siblings nd k \<noteq> [], nd\<lparr>nd_storage := s\<rparr>) \<and> node_ok (nd\<lparr>nd_storage := s\<rparr>) \<and>
    (\<forall>k'. siblings (nd\<lparr>nd_storage := s\<rparr>) k' = (if k' = k then [] else siblings nd k'))"
proof -
  let ?s = "snd (st_delete (nd_storage nd) k)"
  have s: "storage_ok (nd_storage nd)" using assms by (simp add: node_ok_def)
  have map: "storage_map ?s = (storage_map (nd_storage nd))(k := data_row [])"
    using st.absm_delete [OF s] by (simp add: data_row_def)
  have "fst (st_delete (nd_storage nd) k) \<longleftrightarrow> siblings nd k \<noteq> []"
    using st.fst_delete [OF s] storage_map_siblings [OF assms] by (simp add: data_row_def)
  then have "delete_local nd k = (siblings nd k \<noteq> [], nd\<lparr>nd_storage := ?s\<rparr>)"
    by (simp add: delete_local_def case_prod_unfold)
  with node_ok_row [OF assms siblings_ok_Nil st.inv_delete [OF s] map] show ?thesis by blast
qed

subsection \<open>Other parts of a node\<close>

lemma siblings_other [simp]:
  "siblings (nd\<lparr>nd_hints := h\<rparr>) k = siblings nd k" "siblings (nd\<lparr>nd_gossip := g\<rparr>) k = siblings nd k"
  by (simp_all add: siblings_def get_local_def)

lemma add_hint_laws:
  assumes "node_ok nd" "version_ok v"
  shows "\<exists>h. add_hint nd t k v = Inr (nd\<lparr>nd_hints := h\<rparr>) \<and> node_ok (nd\<lparr>nd_hints := h\<rparr>) \<and>
    (\<forall>t' k'. hs_pending h t' k' =
      (if t' = t \<and> k' = k then reconcile (hs_pending (nd_hints nd) t k) v else hs_pending (nd_hints nd) t' k'))"
proof -
  have "hint_ok (nd_hints nd)" using assms(1) by (simp add: node_ok_def)
  from hints.add_law [OF this assms(2), of t k] show ?thesis
    using assms(1) by (auto simp: add_hint_def node_ok_def)
qed

lemma clear_hint_laws:
  assumes "node_ok nd"
  shows "\<exists>h. clear_hint nd t k = Inr (nd\<lparr>nd_hints := h\<rparr>) \<and> node_ok (nd\<lparr>nd_hints := h\<rparr>) \<and>
    (\<forall>t' k'. hs_pending h t' k' = (if t' = t \<and> k' = k then [] else hs_pending (nd_hints nd) t' k'))"
proof -
  have "hint_ok (nd_hints nd)" using assms(1) by (simp add: node_ok_def)
  from hints.clear_law [OF this, of t k] show ?thesis
    using assms(1) by (auto simp: clear_hint_def node_ok_def)
qed

lemma node_ok_gossip [wf_intros]: "node_ok nd \<Longrightarrow> gossip_ok g \<Longrightarrow> node_ok (nd\<lparr>nd_gossip := g\<rparr>)"
  by (simp add: node_ok_def)

lemma node_ok_init [wf_intros]:
  assumes "storage_ok s" "\<forall>k. storage_map s k = None" "\<forall>h. hs = Some h \<longrightarrow> hint_ok h"
  shows "node_ok (node_init D i s ring peers n r w hs now timeout)"
proof -
  have "\<exists>vs. siblings_ok vs \<and> None = data_row vs" by (rule exI [of _ "[]"]) (simp add: data_row_def)
  then show ?thesis using assms
    by (auto simp: node_ok_def node_init_def gossip_ok_init hint_ok_new split: option.splits)
qed

end
