(* ===== verification/Cluster.thy ===== *)
theory Cluster
  imports Node
begin

section \<open>The cluster: internal endpoints, requests and coordinators\<close>

text \<open>
  Models the internal routes of \<open>src/dynamokv/api/routes.py\<close> and the part of \<open>src/dynamokv/node.py\<close>
  that talks to other nodes: the replica operations, \<open>_quorum_op\<close>, the merged read, hinted handoff, the
  gossip round, and the public \<open>get\<close>, \<open>put\<close> and \<open>delete\<close>.

  The cluster is a function from node ids to nodes. What is not the program is a parameter: \<open>net\<close>
  says which node listens at a base URL and which key a handler receives for a key that was put in the
  path of an internal URL (\<open>None\<close> when no route matches), and each request has a \<open>delivery\<close>:
  \<open>Unreachable\<close> (no handler ran), \<open>ResponseLost\<close> (the handler ran, the client saw an error) or
  \<open>Delivered\<close>.

  Other threads and nodes run at the same time. A coordinator's operation is therefore cut at its
  requests: before each one an arbitrary list of \<open>action\<close>s of others is performed. An action is one
  atomic change of one node; \<open>Operations\<close> shows that every operation here is a list of actions itself, so
  the lists cover every interleaving of any number of operations. \<open>put_local\<close> reads, reconciles and
  writes without a lock. A call during which nobody else changes the row is one action, \<open>StorePut\<close>; a
  call that was overtaken is the action \<open>StoreLate\<close>, at its write, with the versions that it had read. The
  calls that an operation makes itself are of the first kind; one that is overtaken is written as
  \<open>StoreLate\<close> in the list before it (\<open>Traces.own_call_overtaken\<close>).

  \<open>_quorum_op\<close> gets the replicas in the order in which they complete. It stops at the threshold; the
  stragglers are the rest of the list, returned so that they can complete later.
\<close>

type_synonym cluster = "node_id \<Rightarrow> node"

subsection \<open>Atomic actions\<close>

datatype action =
    StorePut node_id key version
  | StoreLate node_id key "version list" version
  | StoreDelete node_id key
  | HintAdd node_id node_id key version
  | HintClear node_id node_id key
  | GossipTick node_id real
  | GossipMerge node_id real "(node_id, int) dict"

fun perform :: "action \<Rightarrow> cluster \<Rightarrow> cluster" where
  "perform (StorePut i k v) c = (case put_local (c i) k v of Inl _ \<Rightarrow> c | Inr nd \<Rightarrow> c(i := nd))"
| "perform (StoreLate i k existing v) c = c(i := put_local_write (c i) k existing v)"
| "perform (StoreDelete i k) c = c(i := snd (delete_local (c i) k))"
| "perform (HintAdd i t k v) c = (case add_hint (c i) t k v of Inl _ \<Rightarrow> c | Inr nd \<Rightarrow> c(i := nd))"
| "perform (HintClear i t k) c = (case clear_hint (c i) t k of Inl _ \<Rightarrow> c | Inr nd \<Rightarrow> c(i := nd))"
| "perform (GossipTick i now) c =
     (case tick now (nd_gossip (c i)) of Inl _ \<Rightarrow> c | Inr g \<Rightarrow> c(i := (c i)\<lparr>nd_gossip := g\<rparr>))"
| "perform (GossipMerge i now table) c = c(i := snd (handle_gossip (c i) now table))"

definition run :: "action list \<Rightarrow> cluster \<Rightarrow> cluster" where
  "run as c = fold perform as c"

lemma run_simps [simp]: "run [] c = c" "run (a # as) c = run as (perform a c)"
  "run (as @ bs) c = run bs (run as c)"
  by (simp_all add: run_def)

subsection \<open>The internal endpoints\<close>

type_synonym response = "nat \<times> json"

definition detail_body :: "string \<Rightarrow> json" where
  "detail_body text = JObj [(''detail'', JStr text)]"

text \<open>\<open>f"key '{key}' not found"\<close>\<close>

definition not_found_text :: "key \<Rightarrow> string" where
  "not_found_text k = ''key '' @ [CHR 0x27] @ k @ [CHR 0x27] @ '' not found''"

definition put_key_local :: "node \<Rightarrow> key \<Rightarrow> json \<Rightarrow> vclock \<Rightarrow> response \<times> node" where
  "put_key_local nd k val clk =
     (let v = Version val clk
      in case put_local nd k v of
           Inl _ \<Rightarrow> ((500, JNull), nd)
         | Inr nd' \<Rightarrow>
             ((200, JObj [(''key'', JStr k), (''value'', ver_value v), (''clock'', clock_to_json (ver_clock v))]), nd'))"

definition get_key_local :: "node \<Rightarrow> key \<Rightarrow> response" where
  "get_key_local nd k =
     (case get_local nd k of
        Inl _ \<Rightarrow> (500, JNull)
      | Inr vs \<Rightarrow>
          if vs = [] then (404, detail_body (not_found_text k))
          else (200, JObj [(''key'', JStr k), (''versions'', siblings_json vs)]))"

definition delete_key_local :: "node \<Rightarrow> key \<Rightarrow> response \<times> node" where
  "delete_key_local nd k =
     (case delete_local nd k of
        (deleted, nd') \<Rightarrow>
          if \<not> deleted then ((404, detail_body (not_found_text k)), nd')
          else ((200, JObj [(''key'', JStr k), (''deleted'', JBool True)]), nd'))"

definition table_json :: "(node_id, int) dict \<Rightarrow> json" where
  "table_json t = JObj (map (\<lambda>(k, n). (k, JInt n)) t)"

definition gossip_endpoint :: "node \<Rightarrow> real \<Rightarrow> (node_id, int) dict \<Rightarrow> response \<times> node" where
  "gossip_endpoint nd now table =
     (case handle_gossip nd now table of (reply, nd') \<Rightarrow> ((200, JObj [(''table'', table_json reply)]), nd'))"

definition put_hint :: "node \<Rightarrow> key \<Rightarrow> node_id \<Rightarrow> json \<Rightarrow> vclock \<Rightarrow> response \<times> node" where
  "put_hint nd k target val clk =
     (let v = Version val clk
      in case add_hint nd target k v of
           Inl _ \<Rightarrow> ((500, JNull), nd)
         | Inr nd' \<Rightarrow> ((200, JObj [(''status'', JStr ''ok'')]), nd'))"

subsection \<open>Requests\<close>

text \<open>The last argument of a gossip request is the receiver's clock when it handles it.\<close>

datatype request =
    PutKey key json vclock
  | GetKey key
  | DeleteKey key
  | PutHint key node_id json vclock
  | PostGossip node_id "(node_id, int) dict" real

datatype delivery = Delivered | Unreachable | ResponseLost

record net =
  net_host :: "url \<Rightarrow> node_id option"
  net_wire :: "key \<Rightarrow> key option"

definition on_route :: "net \<Rightarrow> key \<Rightarrow> (key \<Rightarrow> response \<times> node) \<Rightarrow> node \<Rightarrow> response \<times> node" where
  "on_route nt k handler nd =
     (case net_wire nt k of None \<Rightarrow> ((404, detail_body ''Not Found''), nd) | Some k' \<Rightarrow> handler k')"

fun serve :: "net \<Rightarrow> request \<Rightarrow> node \<Rightarrow> response \<times> node" where
  "serve nt (PutKey k val clk) nd = on_route nt k (\<lambda>k'. put_key_local nd k' val clk) nd"
| "serve nt (GetKey k) nd = on_route nt k (\<lambda>k'. (get_key_local nd k', nd)) nd"
| "serve nt (DeleteKey k) nd = on_route nt k (delete_key_local nd) nd"
| "serve nt (PutHint k target val clk) nd = on_route nt k (\<lambda>k'. put_hint nd k' target val clk) nd"
| "serve nt (PostGossip sender table now) nd = gossip_endpoint nd now table"

definition http_send ::
  "net \<Rightarrow> delivery \<Rightarrow> url \<Rightarrow> request \<Rightarrow> cluster \<Rightarrow> (py_error + response) \<times> cluster" where
  "http_send nt dl u req c =
     (case net_host nt u of
        None \<Rightarrow> (Inl HTTPError, c)
      | Some m \<Rightarrow>
          (case dl of
             Unreachable \<Rightarrow> (Inl HTTPError, c)
           | ResponseLost \<Rightarrow> (Inl HTTPError, c(m := snd (serve nt req (c m))))
           | Delivered \<Rightarrow> (case serve nt req (c m) of (resp, nd) \<Rightarrow> (Inr resp, c(m := nd)))))"

subsection \<open>Replica operations\<close>

definition get_op ::
  "net \<Rightarrow> node_id \<Rightarrow> key \<Rightarrow> node_id \<Rightarrow> delivery \<Rightarrow> cluster \<Rightarrow> (py_error + version list) \<times> cluster" where
  "get_op nt self k m dl c =
     (if m = self then (get_local (c self) k, c)
      else case peer_base_url (c self) m of
             Inl e \<Rightarrow> (Inl e, c)
           | Inr u \<Rightarrow>
               (case http_send nt dl u (GetKey k) c of
                  (Inl e, c') \<Rightarrow> (Inl e, c')
                | (Inr (status, body), c') \<Rightarrow>
                    (if status = 200 then
                       (case subscript body ''versions'' of Inl e \<Rightarrow> Inl e | Inr vs \<Rightarrow> versions_of_json vs)
                     else if status = 404 then Inr []
                     else Inl RuntimeError, c')))"

definition put_op ::
  "net \<Rightarrow> node_id \<Rightarrow> key \<Rightarrow> version \<Rightarrow> node_id \<Rightarrow> delivery \<Rightarrow> cluster \<Rightarrow> (py_error + bool) \<times> cluster" where
  "put_op nt self k v m dl c =
     (if m = self then
        (case put_local (c self) k v of Inl e \<Rightarrow> (Inl e, c) | Inr nd \<Rightarrow> (Inr True, c(self := nd)))
      else case peer_base_url (c self) m of
             Inl e \<Rightarrow> (Inl e, c)
           | Inr u \<Rightarrow>
               (case http_send nt dl u (PutKey k (ver_value v) (ver_clock v)) c of
                  (Inl e, c') \<Rightarrow> (Inl e, c')
                | (Inr (status, body), c') \<Rightarrow> (if status \<noteq> 200 then Inl RuntimeError else Inr True, c')))"

definition delete_op ::
  "net \<Rightarrow> node_id \<Rightarrow> key \<Rightarrow> node_id \<Rightarrow> delivery \<Rightarrow> cluster \<Rightarrow> (py_error + bool) \<times> cluster" where
  "delete_op nt self k m dl c =
     (if m = self then (case delete_local (c self) k of (existed, nd) \<Rightarrow> (Inr existed, c(self := nd)))
      else case peer_base_url (c self) m of
             Inl e \<Rightarrow> (Inl e, c)
           | Inr u \<Rightarrow>
               (case http_send nt dl u (DeleteKey k) c of
                  (Inl e, c') \<Rightarrow> (Inl e, c')
                | (Inr (status, body), c') \<Rightarrow>
                    (if status \<notin> {200, 404} then Inl RuntimeError else Inr (status = 200), c')))"

subsection \<open>Quorum operations\<close>

text \<open>
  A completion: the replica, the outcomes of its requests, and what others did before it.
\<close>

type_synonym 'd completion = "node_id \<times> 'd \<times> action list"

fun quorum_op ::
  "(node_id \<Rightarrow> 'd \<Rightarrow> cluster \<Rightarrow> (py_error + 'a) \<times> cluster) \<Rightarrow> int \<Rightarrow> 'd completion list \<Rightarrow> 'a list \<Rightarrow>
     cluster \<Rightarrow> 'a list \<times> 'd completion list \<times> cluster" where
  "quorum_op op_fn threshold [] successes c = (successes, [], c)"
| "quorum_op op_fn threshold ((m, d, others) # futures) successes c =
     (case op_fn m d (run others c) of
        (Inl _, c') \<Rightarrow> quorum_op op_fn threshold futures successes c'
      | (Inr x, c') \<Rightarrow>
          let successes' = successes @ [x]
          in if int (length successes') \<ge> threshold then (successes', futures, c')
             else quorum_op op_fn threshold futures successes' c')"

text \<open>The stragglers complete later; nobody looks at their results.\<close>

fun stragglers ::
  "(node_id \<Rightarrow> 'd \<Rightarrow> cluster \<Rightarrow> (py_error + 'a) \<times> cluster) \<Rightarrow> 'd completion list \<Rightarrow> cluster \<Rightarrow> cluster" where
  "stragglers op_fn [] c = c"
| "stragglers op_fn ((m, d, others) # futures) c =
     stragglers op_fn futures (snd (op_fn m d (run others c)))"

definition merged_read ::
  "net \<Rightarrow> node_id \<Rightarrow> int \<Rightarrow> key \<Rightarrow> delivery completion list \<Rightarrow> cluster \<Rightarrow>
     (py_error + version list) \<times> cluster" where
  "merged_read nt self threshold k futures c =
     (case quorum_op (get_op nt self k) threshold futures [] c of
        (results, _, c') \<Rightarrow>
          (if int (length results) < threshold then Inl (HTTPException 503)
           else Inr (foldl (foldl reconcile) [] results), c'))"

subsection \<open>Hinted handoff\<close>

definition deliver_hint ::
  "net \<Rightarrow> node_id \<Rightarrow> node_id \<Rightarrow> node_id \<Rightarrow> key \<Rightarrow> version \<Rightarrow> delivery \<Rightarrow> cluster \<Rightarrow>
     py_error option \<times> cluster" where
  "deliver_hint nt self hint_holder target k v dl c =
     (if hint_holder = self then
        (case add_hint (c self) target k v of
           Inl e \<Rightarrow> (Some e, c)
         | Inr nd \<Rightarrow> (None, c(self := nd)))
      else case peer_base_url (c self) hint_holder of
             Inl _ \<Rightarrow> (None, c)
           | Inr u \<Rightarrow> (None, snd (http_send nt dl u (PutHint k target (ver_value v) (ver_clock v)) c)))"

text \<open>What happens around one request of a flush: others before it, its outcome, others after it.\<close>

type_synonym fate = "action list \<times> delivery \<times> action list"

fun flush_items ::
  "net \<Rightarrow> node_id \<Rightarrow> node_id \<Rightarrow> url \<Rightarrow> (nat \<Rightarrow> fate) \<Rightarrow> nat \<Rightarrow> (key \<times> version) list \<Rightarrow> cluster \<Rightarrow>
     py_error option \<times> cluster" where
  "flush_items nt self target u fates i [] c = (None, c)"
| "flush_items nt self target u fates i ((k, v) # items) c =
     (case fates i of
        (before, dl, after) \<Rightarrow>
          (case http_send nt dl u (PutKey k (ver_value v) (ver_clock v)) (run before c) of
             (Inl _, c1) \<Rightarrow> flush_items nt self target u fates (i + 1) items c1
           | (Inr (status, _), c1) \<Rightarrow>
               let c2 = run after c1
               in if status = 200 then
                    (case clear_hint (c2 self) target k of
                       Inl e \<Rightarrow> (Some e, c2)
                     | Inr nd \<Rightarrow> flush_items nt self target u fates (i + 1) items (c2(self := nd)))
                  else flush_items nt self target u fates (i + 1) items c2))"

definition flush_hints_for ::
  "net \<Rightarrow> node_id \<Rightarrow> node_id \<Rightarrow> (nat \<Rightarrow> fate) \<Rightarrow> cluster \<Rightarrow> py_error option \<times> cluster" where
  "flush_hints_for nt self target fates c =
     (case hs_pending_for (nd_hints (c self)) target of
        Inl e \<Rightarrow> (Some e, c)
      | Inr pending \<Rightarrow>
          if pending = [] then (None, c)
          else case peer_base_url (c self) target of
                 Inl e \<Rightarrow> (Some e, c)
               | Inr u \<Rightarrow>
                   flush_items nt self target u fates 0
                     (concat (map (\<lambda>(k, vs). map (Pair k) vs) pending)) c)"

subsection \<open>The gossip round\<close>

text \<open>
  What a round takes from outside: clock readings, the random choice, the outcome of the exchange,
  what others do before the request and after the reply, and the fates of the flushed hints.
\<close>

record gossip_inputs =
  gi_tick :: real
  gi_choice :: node_id
  gi_before :: "action list"
  gi_delivery :: delivery
  gi_received :: real
  gi_after :: "action list"
  gi_merge :: real
  gi_now :: real
  gi_fates :: "node_id \<Rightarrow> nat \<Rightarrow> fate"

definition table_of_json :: "json \<Rightarrow> py_error + (node_id, int) dict" where
  "table_of_json body =
     (case subscript body ''table'' of
        Inl e \<Rightarrow> Inl e
      | Inr (JObj items) \<Rightarrow> counters_of_items items
      | Inr _ \<Rightarrow> Inl AttributeError)"

definition exchange :: "net \<Rightarrow> node_id \<Rightarrow> gossip_inputs \<Rightarrow> cluster \<Rightarrow> py_error option \<times> cluster" where
  "exchange nt self gi c =
     (case peer_base_url (c self) (gi_choice gi) of
        Inl e \<Rightarrow> (Some e, c)
      | Inr u \<Rightarrow>
          (case http_send nt (gi_delivery gi) u (PostGossip self (to_wire (nd_gossip (c self))) (gi_received gi))
               (run (gi_before gi) c) of
             (Inl _, c1) \<Rightarrow> (None, c1)
           | (Inr (status, body), c1) \<Rightarrow>
               let c2 = run (gi_after gi) c1
               in if status = 200 then
                    (case table_of_json body of
                       Inl e \<Rightarrow> (Some e, c2)
                     | Inr table \<Rightarrow>
                         (None, c2(self := (c2 self)\<lparr>nd_gossip := merge_wire (gi_merge gi) table (nd_gossip (c2 self))\<rparr>)))
                  else (None, c2)))"

fun flush_live ::
  "net \<Rightarrow> node_id \<Rightarrow> real \<Rightarrow> (node_id \<Rightarrow> nat \<Rightarrow> fate) \<Rightarrow> node_id list \<Rightarrow> cluster \<Rightarrow>
     py_error option \<times> cluster" where
  "flush_live nt self now fates [] c = (None, c)"
| "flush_live nt self now fates (m # ms) c =
     (if \<not> believed_down (nd_gossip (c self)) m now (nd_timeout (c self)) then
        (case flush_hints_for nt self m (fates m) c of
           (Some e, c') \<Rightarrow> (Some e, c')
         | (None, c') \<Rightarrow> flush_live nt self now fates ms c')
      else flush_live nt self now fates ms c)"

definition gossip_round :: "net \<Rightarrow> node_id \<Rightarrow> gossip_inputs \<Rightarrow> cluster \<Rightarrow> py_error option \<times> cluster" where
  "gossip_round nt self gi c =
     (case tick (gi_tick gi) (nd_gossip (c self)) of
        Inl e \<Rightarrow> (Some e, c)
      | Inr g \<Rightarrow>
          let c1 = c(self := (c self)\<lparr>nd_gossip := g\<rparr>)
          in case (if nd_peers (c1 self) \<noteq> [] then exchange nt self gi c1 else (None, c1)) of
               (Some e, c2) \<Rightarrow> (Some e, c2)
             | (None, c2) \<Rightarrow>
                 flush_live nt self (gi_now gi) (gi_fates gi) (map fst (nd_peers (c2 self))) c2)"

subsection \<open>The public operations\<close>

text \<open>What a read raises: an exception, or the conflict (status 409) with the versions it carries.\<close>

datatype get_error = Raised py_error | Conflict "version list"

definition get_key ::
  "(string \<Rightarrow> bytes) \<Rightarrow> net \<Rightarrow> node_id \<Rightarrow> key \<Rightarrow> delivery completion list \<Rightarrow> cluster \<Rightarrow>
     (get_error + version) \<times> cluster" where
  "get_key D nt self k futures c =
     (case preference_list D (c self) k of
        Inl e \<Rightarrow> (Inl (Raised e), c)
      | Inr prefs \<Rightarrow>
          let threshold = min (nd_r (c self)) (int (length prefs))
          in case merged_read nt self threshold k futures c of
               (Inl e, c') \<Rightarrow> (Inl (Raised e), c')
             | (Inr merged, c') \<Rightarrow>
                 (if merged = [] then Inl (Raised (HTTPException 404))
                  else if length merged = 1 then Inr (hd merged)
                  else Inl (Conflict merged), c'))"

text \<open>
  What a write takes from outside: the completions of its reads, what others do before it goes on,
  the clock reading, the fates of the hints for replicas presumed down, and the completions of its
  writes, each with the outcome of the write and of the hint that a failed write sends.
\<close>

record put_inputs =
  pi_reads :: "delivery completion list"
  pi_pause :: "action list"
  pi_now :: real
  pi_hints :: "nat \<Rightarrow> action list \<times> delivery"
  pi_writes :: "(delivery \<times> delivery) completion list"

text \<open>\<open>_quorum_op\<close> submits one call for each of the nodes it is given; only these can complete.\<close>

definition submitted :: "node_id list \<Rightarrow> 'd completion list \<Rightarrow> 'd completion list" where
  "submitted ms futures = filter (\<lambda>(m, _). m \<in> set ms) futures"

fun hint_down ::
  "net \<Rightarrow> node_id \<Rightarrow> node_id \<Rightarrow> key \<Rightarrow> version \<Rightarrow> (nat \<Rightarrow> action list \<times> delivery) \<Rightarrow> nat \<Rightarrow>
     node_id list \<Rightarrow> cluster \<Rightarrow> py_error option \<times> cluster" where
  "hint_down nt self hint_holder k v fates i [] c = (None, c)"
| "hint_down nt self hint_holder k v fates i (m # ms) c =
     (case fates i of
        (before, dl) \<Rightarrow>
          (case deliver_hint nt self hint_holder m k v dl (run before c) of
             (Some e, c') \<Rightarrow> (Some e, c')
           | (None, c') \<Rightarrow> hint_down nt self hint_holder k v fates (i + 1) ms c'))"

definition guarded_put_op ::
  "net \<Rightarrow> node_id \<Rightarrow> node_id option \<Rightarrow> key \<Rightarrow> version \<Rightarrow> node_id \<Rightarrow> delivery \<times> delivery \<Rightarrow> cluster \<Rightarrow>
     (py_error + bool) \<times> cluster" where
  "guarded_put_op nt self hint_holder k v m d c =
     (case put_op nt self k v m (fst d) c of
        (Inr b, c') \<Rightarrow> (Inr b, c')
      | (Inl e, c') \<Rightarrow>
          (case hint_holder of
             None \<Rightarrow> (Inl e, c')
           | Some h \<Rightarrow>
               if m \<noteq> h then
                 (case deliver_hint nt self h m k v (snd d) c' of
                    (Some e', c'') \<Rightarrow> (Inl e', c'')
                  | (None, c'') \<Rightarrow> (Inl e, c''))
               else (Inl e, c')))"

definition next_version :: "node_id \<Rightarrow> json \<Rightarrow> version list \<Rightarrow> version" where
  "next_version self val merged = Version val (incremented (merge (map ver_clock merged)) self)"

definition put_key ::
  "(string \<Rightarrow> bytes) \<Rightarrow> net \<Rightarrow> node_id \<Rightarrow> key \<Rightarrow> json \<Rightarrow> put_inputs \<Rightarrow> cluster \<Rightarrow>
     (py_error + version) \<times> (delivery \<times> delivery) completion list \<times> cluster" where
  "put_key D nt self k val ins c =
     (case preference_list D (c self) k of
        Inl e \<Rightarrow> (Inl e, [], c)
      | Inr prefs \<Rightarrow>
          (case merged_read nt self (min (nd_r (c self)) (int (length prefs))) k (pi_reads ins) c of
             (Inl e, c1) \<Rightarrow> (Inl e, [], c1)
           | (Inr merged, c1) \<Rightarrow>
               let v = next_version self val merged;
                   c2 = run (pi_pause ins) c1
               in case get_preference_list D (nd_ring (c2 self)) k (int (length prefs) + 1) of
                    Inl e \<Rightarrow> (Inl e, [], c2)
                  | Inr candidates \<Rightarrow>
                      let hint_holder = find (\<lambda>m. m \<notin> set prefs) candidates;
                          (live, presumed_down) = partition_by_liveness (c2 self) (pi_now ins) prefs
                      in case (case hint_holder of
                                 None \<Rightarrow> (None, c2)
                               | Some h \<Rightarrow> hint_down nt self h k v (pi_hints ins) 0 presumed_down c2) of
                           (Some e, c3) \<Rightarrow> (Inl e, [], c3)
                         | (None, c3) \<Rightarrow>
                             let write_threshold = min (nd_w (c3 self)) (int (length prefs))
                             in case quorum_op (guarded_put_op nt self hint_holder k v) write_threshold
                                    (submitted live (pi_writes ins)) [] c3 of
                                  (results, rest, c4) \<Rightarrow>
                                    (if int (length results) < write_threshold
                                     then Inl (HTTPException 503) else Inr v, rest, c4)))"

definition delete_key ::
  "(string \<Rightarrow> bytes) \<Rightarrow> net \<Rightarrow> node_id \<Rightarrow> key \<Rightarrow> delivery completion list \<Rightarrow> cluster \<Rightarrow>
     (py_error + bool) \<times> delivery completion list \<times> cluster" where
  "delete_key D nt self k futures c =
     (case preference_list D (c self) k of
        Inl e \<Rightarrow> (Inl e, [], c)
      | Inr prefs \<Rightarrow>
          let threshold = min (nd_w (c self)) (int (length prefs))
          in case quorum_op (delete_op nt self k) threshold futures [] c of
               (results, rest, c') \<Rightarrow>
                 (if int (length results) < threshold then Inl (HTTPException 503)
                  else Inr (list_ex (\<lambda>b. b) results), rest, c'))"

end
