(* ===== verification/Traces.thy ===== *)
theory Traces
  imports Cluster
begin

section \<open>Traces: what the operations do to the cluster\<close>

text \<open>
  The facts that every later proof uses: the invariant \<open>cluster_ok\<close> and its preservation by actions,
  the static fields of nodes, the effect of an action on the versions and the hints of a node, and the
  refinement of every coordinator operation to a list of atomic actions.

  \<open>steps Q c c'\<close> says that \<open>c'\<close> arises from \<open>c\<close> by actions that satisfy \<open>Q\<close>; \<open>trace A c c'\<close> that they
  are well-formed, and the destructive ones (deletes and hint clearings) in \<open>A\<close>. Versions and hints stay covered along
  a trace unless \<open>A\<close> names them; a late write counts as destructive. The interface \<open>fan_out\<close> states that a replica operation only does
  trace steps, and gives its clients what a quorum of successes means.
\<close>

subsection \<open>The invariant\<close>

definition cluster_ok :: "cluster \<Rightarrow> bool" where
  "cluster_ok c \<longleftrightarrow> (\<forall>i. node_ok (c i))"

lemma cluster_okD: "cluster_ok c \<Longrightarrow> node_ok (c i)"
  by (simp add: cluster_ok_def)

lemma cluster_ok_upd [wf_intros]: "cluster_ok c \<Longrightarrow> node_ok nd \<Longrightarrow> cluster_ok (c(i := nd))"
  by (simp add: cluster_ok_def)

fun action_ok :: "action \<Rightarrow> bool" where
  "action_ok (StorePut i k v) \<longleftrightarrow> version_ok v"
| "action_ok (StoreLate i k existing v) \<longleftrightarrow> siblings_ok existing \<and> version_ok v"
| "action_ok (HintAdd i t k v) \<longleftrightarrow> version_ok v"
| "action_ok (GossipMerge i now table) \<longleftrightarrow> dict_ok table"
| "action_ok _ \<longleftrightarrow> True"

fun destructive :: "action \<Rightarrow> bool" where
  "destructive (StoreDelete i k) \<longleftrightarrow> True"
| "destructive (StoreLate i k existing v) \<longleftrightarrow> True"
| "destructive (HintClear i t k) \<longleftrightarrow> True"
| "destructive _ \<longleftrightarrow> False"

definition allowed :: "action set \<Rightarrow> action \<Rightarrow> bool" where
  "allowed A a \<longleftrightarrow> action_ok a \<and> (destructive a \<longrightarrow> a \<in> A)"

text \<open>What would take a version of the key away from a node: a delete, or a \<open>put_local\<close> that was overtaken.\<close>

definition kept :: "action set \<Rightarrow> node_id \<Rightarrow> key \<Rightarrow> bool" where
  "kept A i k \<longleftrightarrow> StoreDelete i k \<notin> A \<and> (\<forall>existing v. StoreLate i k existing v \<notin> A)"

lemma kept_Un [simp]: "kept (A \<union> B) i k \<longleftrightarrow> kept A i k \<and> kept B i k" "kept {} i k"
  by (auto simp: kept_def)

lemma kept_insert [simp]: "kept (insert (HintClear j t k') A) i k \<longleftrightarrow> kept A i k"
  by (auto simp: kept_def)

definition hinted :: "node \<Rightarrow> node_id \<Rightarrow> key \<Rightarrow> version list" where
  "hinted nd t k = hs_pending (nd_hints nd) t k"

lemma hinted_other [simp]:
  "hinted (nd\<lparr>nd_storage := s\<rparr>) t k = hinted nd t k" "hinted (nd\<lparr>nd_gossip := g\<rparr>) t k = hinted nd t k"
  by (simp_all add: hinted_def)

text \<open>The configuration of a node, which no operation changes.\<close>

definition config_of :: "node \<Rightarrow> node_id \<times> hash_ring \<times> (node_id, url) dict \<times> int \<times> int \<times> int \<times> real" where
  "config_of nd = (nd_id nd, nd_ring nd, nd_peers nd, nd_n nd, nd_r nd, nd_w nd, nd_timeout nd)"

lemma config_of_upd [simp]:
  "config_of (nd\<lparr>nd_storage := s\<rparr>) = config_of nd" "config_of (nd\<lparr>nd_gossip := g\<rparr>) = config_of nd"
  "config_of (nd\<lparr>nd_hints := h\<rparr>) = config_of nd"
  by (simp_all add: config_of_def)

lemma config_of_local:
  "put_local nd k v = Inr nd' \<Longrightarrow> config_of nd' = config_of nd"
  "config_of (snd (delete_local nd k)) = config_of nd"
  "add_hint nd t k v = Inr nd' \<Longrightarrow> config_of nd' = config_of nd"
  "clear_hint nd t k = Inr nd' \<Longrightarrow> config_of nd' = config_of nd"
  "config_of (put_local_write nd k existing v) = config_of nd"
  by (auto simp: put_local_def put_local_write_def delete_local_def add_hint_def clear_hint_def Let_def case_prod_unfold
      map_sum_Inr_iff split: sum.splits)

subsection \<open>Effects of one action\<close>

lemma perform_config [simp]: "config_of (perform a c i) = config_of (c i)"
  by (cases a) (auto simp: config_of_local handle_gossip_def Let_def split: sum.splits)

lemma perform_ok:
  assumes "cluster_ok c" "action_ok a"
  shows "cluster_ok (perform a c)"
proof (cases a)
  case (StorePut i k v)
  then show ?thesis
    using put_local_laws [OF cluster_okD [OF assms(1)], of v i k] assms by (auto intro: cluster_ok_upd)
next
  case (StoreLate i k existing v)
  then show ?thesis
    using put_local_write_laws(1) [OF cluster_okD [OF assms(1)], of existing v i k] assms by (auto intro: cluster_ok_upd)
next
  case (StoreDelete i k)
  then show ?thesis
    using delete_local_laws [OF cluster_okD [OF assms(1)], of i k] assms(1) by (auto intro: cluster_ok_upd)
next
  case (HintAdd i t k v)
  then show ?thesis
    using add_hint_laws [OF cluster_okD [OF assms(1)], of v i t k] assms by (auto intro: cluster_ok_upd)
next
  case (HintClear i t k)
  then show ?thesis
    using clear_hint_laws [OF cluster_okD [OF assms(1)], of i t k] assms(1) by (auto intro: cluster_ok_upd)
next
  case (GossipTick i now)
  have "gossip_ok (nd_gossip (c i))" using assms(1) by (simp add: cluster_okD node_ok_parts)
  then obtain g where "tick now (nd_gossip (c i)) = Inr g" "gossip_ok g" using tick_ok by blast
  then show ?thesis using GossipTick assms(1)
    by (simp add: cluster_ok_upd node_ok_gossip cluster_okD)
next
  case (GossipMerge i now table)
  have "gossip_ok (nd_gossip (c i))" using assms(1) by (simp add: cluster_okD node_ok_parts)
  then show ?thesis using GossipMerge assms(1)
    by (simp add: handle_gossip_def Let_def cluster_ok_upd node_ok_gossip cluster_okD gossip_ok_merge_wire)
qed

text \<open>The versions a node holds for a key, after an action.\<close>

fun siblings_after :: "action \<Rightarrow> node_id \<Rightarrow> key \<Rightarrow> version list \<Rightarrow> version list" where
  "siblings_after (StorePut i k v) j k' vs = (if j = i \<and> k' = k then reconcile vs v else vs)"
| "siblings_after (StoreLate i k existing v) j k' vs = (if j = i \<and> k' = k then reconcile existing v else vs)"
| "siblings_after (StoreDelete i k) j k' vs = (if j = i \<and> k' = k then [] else vs)"
| "siblings_after _ j k' vs = vs"

lemma siblings_perform:
  assumes "cluster_ok c" "action_ok a"
  shows "siblings (perform a c j) k' = siblings_after a j k' (siblings (c j) k')"
proof (cases a)
  case (StorePut i k v)
  then show ?thesis
    using put_local_laws [OF cluster_okD [OF assms(1)], of v i k] assms(2) by auto
next
  case (StoreLate i k existing v)
  then show ?thesis
    using put_local_write_laws(2) [OF cluster_okD [OF assms(1)], of existing v i k k'] assms(2) by auto
next
  case (StoreDelete i k)
  then show ?thesis
    using delete_local_laws [OF cluster_okD [OF assms(1)], of i k] by auto
next
  case (HintAdd i t k v)
  then show ?thesis
    using add_hint_laws [OF cluster_okD [OF assms(1)], of v i t k] assms(2) by auto
next
  case (HintClear i t k)
  then show ?thesis
    using clear_hint_laws [OF cluster_okD [OF assms(1)], of i t k] by auto
qed (auto simp: handle_gossip_def Let_def split: sum.splits)

text \<open>The hints a node holds for a recipient and a key, after an action.\<close>

fun hinted_after :: "action \<Rightarrow> node_id \<Rightarrow> node_id \<Rightarrow> key \<Rightarrow> version list \<Rightarrow> version list" where
  "hinted_after (HintAdd i t k v) j t' k' vs = (if j = i \<and> t' = t \<and> k' = k then reconcile vs v else vs)"
| "hinted_after (HintClear i t k) j t' k' vs = (if j = i \<and> t' = t \<and> k' = k then [] else vs)"
| "hinted_after _ j t' k' vs = vs"

lemma hinted_perform:
  assumes "cluster_ok c" "action_ok a"
  shows "hinted (perform a c j) t' k' = hinted_after a j t' k' (hinted (c j) t' k')"
proof (cases a)
  case (StorePut i k v)
  then show ?thesis
    using put_local_laws [OF cluster_okD [OF assms(1)], of v i k] assms(2) by auto
next
  case (StoreLate i k existing v)
  then show ?thesis by (simp add: hinted_def put_local_write_def)
next
  case (StoreDelete i k)
  then show ?thesis
    using delete_local_laws [OF cluster_okD [OF assms(1)], of i k] by auto
next
  case (HintAdd i t k v)
  then show ?thesis
    using add_hint_laws [OF cluster_okD [OF assms(1)], of v i t k] assms(2)
    by (auto simp: hinted_def)
next
  case (HintClear i t k)
  then show ?thesis
    using clear_hint_laws [OF cluster_okD [OF assms(1)], of i t k] by (auto simp: hinted_def)
qed (auto simp: handle_gossip_def Let_def split: sum.splits)

lemma covered_siblings_after:
  "versions.covered vs v \<Longrightarrow> a \<noteq> StoreDelete j k \<Longrightarrow> \<forall>existing w. a \<noteq> StoreLate j k existing w \<Longrightarrow>
     versions.covered (siblings_after a j k vs) v"
  by (cases a) (auto intro: versions.covered_ins_mono)

lemma covered_hinted_after:
  "versions.covered vs v \<Longrightarrow> a \<noteq> HintClear j t k \<Longrightarrow> versions.covered (hinted_after a j t k vs) v"
  by (cases a) (auto intro: versions.covered_ins_mono)

subsection \<open>Traces\<close>

text \<open>
  \<open>steps Q c c'\<close> says that \<open>c'\<close> arises from \<open>c\<close> by actions that all satisfy \<open>Q\<close>. A trace is the
  case of the allowed actions.
\<close>

definition steps :: "(action \<Rightarrow> bool) \<Rightarrow> cluster \<Rightarrow> cluster \<Rightarrow> bool" where
  "steps Q c c' \<longleftrightarrow> (\<exists>as. (\<forall>a \<in> set as. Q a) \<and> c' = run as c)"

abbreviation trace :: "action set \<Rightarrow> cluster \<Rightarrow> cluster \<Rightarrow> bool" where
  "trace A \<equiv> steps (allowed A)"

lemma trace_refl [intro, simp]: "steps Q c c"
  unfolding steps_def by (rule exI [of _ "[]"]) simp

lemma trace_run: "\<forall>a \<in> set as. Q a \<Longrightarrow> steps Q c (run as c)"
  unfolding steps_def by blast

lemma trace_trans [trans]: "steps Q c c' \<Longrightarrow> steps Q c' c'' \<Longrightarrow> steps Q c c''"
proof -
  assume "steps Q c c'" "steps Q c' c''"
  then obtain as bs where "\<forall>a \<in> set as. Q a" "c' = run as c" "\<forall>a \<in> set bs. Q a" "c'' = run bs c'"
    by (auto simp: steps_def)
  then show ?thesis unfolding steps_def by (intro exI [of _ "as @ bs"]) auto
qed

lemma trace_perform: "Q a \<Longrightarrow> steps Q c (perform a c)"
  using trace_run [of "[a]"] by simp

lemma steps_mono: "steps Q c c' \<Longrightarrow> (\<And>a. Q a \<Longrightarrow> R a) \<Longrightarrow> steps R c c'"
  unfolding steps_def by blast

lemma trace_induct [consumes 1, case_names refl step]:
  assumes "steps Q c c'" "P c" "\<And>a d. Q a \<Longrightarrow> steps Q c d \<Longrightarrow> P d \<Longrightarrow> P (perform a d)"
  shows "P c'"
proof -
  obtain as where "\<forall>a \<in> set as. Q a" "c' = run as c" using assms(1) by (auto simp: steps_def)
  then show ?thesis
  proof (induction as arbitrary: c' rule: rev_induct)
    case Nil
    then show ?case using assms(2) by simp
  next
    case (snoc a as)
    then show ?case using assms(3) [of a "run as c"] trace_run [of as Q c] by simp
  qed
qed

lemma allowed_mono: "allowed A a \<Longrightarrow> A \<subseteq> B \<Longrightarrow> allowed B a"
  by (auto simp: allowed_def)

lemma trace_mono: "trace A c c' \<Longrightarrow> A \<subseteq> B \<Longrightarrow> trace B c c'"
  by (erule steps_mono) (rule allowed_mono)

lemma steps_ok: "steps Q c c' \<Longrightarrow> (\<And>a. Q a \<Longrightarrow> action_ok a) \<Longrightarrow> cluster_ok c \<Longrightarrow> cluster_ok c'"
  by (induction rule: trace_induct) (auto intro: perform_ok)

text \<open>
  Why \<open>StorePut\<close> may stand for a call of \<open>put_local\<close>: if nobody has changed the row between its read in
  state \<open>c\<close> and its write in state \<open>c'\<close>, the late write is the whole call at its write.
\<close>

lemma put_local_serialised:
  assumes "cluster_ok c'" "siblings (c' i) k = siblings (c i) k"
  shows "perform (StoreLate i k (siblings (c i) k) v) c' = perform (StorePut i k v) c'"
  using put_local_undisturbed [OF cluster_okD [OF assms(1)] assms(2), of v] by simp

text \<open>
  And why an operation's own calls may be of that kind although they can be overtaken too: the run in which
  the call of an operation is overtaken is the one in which its write is a \<open>StoreLate\<close> of others just
  before it; the \<open>StorePut\<close> of the same version then changes nothing.
\<close>

lemma own_call_overtaken:
  assumes "cluster_ok c" "siblings_ok existing" "version_ok v"
  shows "siblings (perform (StorePut i k v) (perform (StoreLate i k existing v) c) j) k' =
    siblings (perform (StoreLate i k existing v) c j) k'"
proof -
  have a: "action_ok (StoreLate i k existing v)" using assms(2,3) by simp
  have "reconcile (reconcile existing v) v = reconcile existing v"
    using versions.covered_ins_self [of existing v] by (simp add: versions.ins_covered versions.covered_def)
  then show ?thesis
    using siblings_perform [OF perform_ok [OF assms(1) a], of "StorePut i k v" j k'] siblings_perform [OF assms(1) a, of j k'] assms(3)
    by (simp del: perform.simps)
qed

text \<open>Gossip only changes by gossip.\<close>

fun gossips :: "action \<Rightarrow> bool" where
  "gossips (GossipTick i now) \<longleftrightarrow> True"
| "gossips (GossipMerge i now table) \<longleftrightarrow> True"
| "gossips _ \<longleftrightarrow> False"

lemma perform_gossip: "\<not> gossips a \<Longrightarrow> nd_gossip (perform a c i) = nd_gossip (c i)"
  by (cases a) (auto simp: put_local_def put_local_write_def delete_local_def add_hint_def clear_hint_def Let_def case_prod_unfold
      map_sum_Inr_iff split: sum.splits)

lemma steps_gossip: "steps Q c c' \<Longrightarrow> (\<And>a. Q a \<Longrightarrow> \<not> gossips a) \<Longrightarrow> nd_gossip (c' i) = nd_gossip (c i)"
  by (induction rule: trace_induct) (simp_all add: perform_gossip)

lemma trace_ok: "trace A c c' \<Longrightarrow> cluster_ok c \<Longrightarrow> cluster_ok c'"
  by (erule steps_ok) (simp add: allowed_def)

lemma trace_config: "steps Q c c' \<Longrightarrow> config_of (c' i) = config_of (c i)"
  by (induction rule: trace_induct) auto

lemma trace_fields:
  assumes "steps Q c c'"
  shows "nd_ring (c' i) = nd_ring (c i)" "nd_peers (c' i) = nd_peers (c i)" "nd_n (c' i) = nd_n (c i)"
    "nd_r (c' i) = nd_r (c i)" "nd_w (c' i) = nd_w (c i)" "nd_timeout (c' i) = nd_timeout (c i)"
  using trace_config [OF assms, of i] by (auto simp: config_of_def)

lemma trace_covered:
  assumes "trace A c c'" "cluster_ok c" "kept A i k" "versions.covered (siblings (c i) k) v"
  shows "versions.covered (siblings (c' i) k) v"
  using assms(1)
proof (induction rule: trace_induct)
  case refl
  then show ?case using assms(4) .
next
  case (step a d)
  then have "a \<noteq> StoreDelete i k" "\<forall>existing w. a \<noteq> StoreLate i k existing w" using assms(3) by (auto simp: allowed_def kept_def)
  moreover have "cluster_ok d" "action_ok a" using step trace_ok assms(2) by (auto simp: allowed_def)
  ultimately show ?case using step.IH by (simp add: siblings_perform covered_siblings_after)
qed

lemma trace_hinted:
  assumes "trace A c c'" "cluster_ok c" "HintClear i t k \<notin> A" "versions.covered (hinted (c i) t k) v"
  shows "versions.covered (hinted (c' i) t k) v"
  using assms(1)
proof (induction rule: trace_induct)
  case refl
  then show ?case using assms(4) .
next
  case (step a d)
  then have "a \<noteq> HintClear i t k" using assms(3) by (auto simp: allowed_def)
  moreover have "cluster_ok d" "action_ok a" using step trace_ok assms(2) by (auto simp: allowed_def)
  ultimately show ?case using step.IH by (simp add: hinted_perform covered_hinted_after)
qed

lemmas trace_simps = trace_fields trace_ok

subsection \<open>Requests are actions\<close>

fun request_actions :: "net \<Rightarrow> node_id \<Rightarrow> request \<Rightarrow> action list" where
  "request_actions nt m (PutKey k val clk) =
     (case net_wire nt k of None \<Rightarrow> [] | Some k' \<Rightarrow> [StorePut m k' (Version val clk)])"
| "request_actions nt m (GetKey k) = []"
| "request_actions nt m (DeleteKey k) =
     (case net_wire nt k of None \<Rightarrow> [] | Some k' \<Rightarrow> [StoreDelete m k'])"
| "request_actions nt m (PutHint k target val clk) =
     (case net_wire nt k of None \<Rightarrow> [] | Some k' \<Rightarrow> [HintAdd m target k' (Version val clk)])"
| "request_actions nt m (PostGossip sender table now) = [GossipMerge m now table]"

lemma serve_actions: "c(m := snd (serve nt req (c m))) = run (request_actions nt m req) c"
  by (cases req)
    (auto simp: on_route_def put_key_local_def delete_key_local_def put_hint_def gossip_endpoint_def
      Let_def case_prod_unfold split: option.splits sum.splits)

definition request_ok :: "(action \<Rightarrow> bool) \<Rightarrow> net \<Rightarrow> request \<Rightarrow> bool" where
  "request_ok Q nt req \<longleftrightarrow> (\<forall>m. \<forall>a \<in> set (request_actions nt m req). Q a)"

lemma http_send_trace: "request_ok Q nt req \<Longrightarrow> steps Q c (snd (http_send nt dl u req c))"
  using trace_run [of _ Q c] serve_actions [of c _ nt req]
  by (auto simp: http_send_def request_ok_def case_prod_unfold split: option.splits delivery.splits)

text \<open>A delivered request is served by the node that listens at the URL, and so is one whose
  response is lost.\<close>

lemma http_send_delivered:
  "net_host nt u = Some m \<Longrightarrow>
     http_send nt Delivered u req c = (Inr (fst (serve nt req (c m))), c(m := snd (serve nt req (c m))))"
  by (simp add: http_send_def case_prod_unfold)

lemma http_send_Inr:
  assumes "http_send nt dl u req c = (Inr resp, c')"
  shows "\<exists>m. net_host nt u = Some m \<and> dl = Delivered \<and> resp = fst (serve nt req (c m)) \<and>
    c' = c(m := snd (serve nt req (c m)))"
  using assms by (auto simp: http_send_def case_prod_unfold split: option.splits delivery.splits)

lemma version_collapse [simp]: "Version (ver_value v) (ver_clock v) = v"
  by (cases v) simp

text \<open>
  \<open>spreads Q nt k v\<close>: every action by which the version can be stored or hinted satisfies \<open>Q\<close>;
  \<open>removes Q nt k\<close>: every deletion of the key does. The replicas see the key that the network gives them.
\<close>

definition spreads :: "(action \<Rightarrow> bool) \<Rightarrow> net \<Rightarrow> key \<Rightarrow> version \<Rightarrow> bool" where
  "spreads Q nt k v \<longleftrightarrow>
     (\<forall>k'. k' = k \<or> net_wire nt k = Some k' \<longrightarrow> (\<forall>m. Q (StorePut m k' v) \<and> (\<forall>t. Q (HintAdd m t k' v))))"

definition removes :: "(action \<Rightarrow> bool) \<Rightarrow> net \<Rightarrow> key \<Rightarrow> bool" where
  "removes Q nt k \<longleftrightarrow> (\<forall>k'. k' = k \<or> net_wire nt k = Some k' \<longrightarrow> (\<forall>m. Q (StoreDelete m k')))"

lemma spreads_allowed: "version_ok v \<Longrightarrow> spreads (allowed A) nt k v"
  by (simp add: spreads_def allowed_def)

lemma removes_allowed:
  "\<forall>i. StoreDelete i k \<in> A \<Longrightarrow> \<forall>i k'. net_wire nt k = Some k' \<longrightarrow> StoreDelete i k' \<in> A \<Longrightarrow> removes (allowed A) nt k"
  by (auto simp: removes_def allowed_def)

lemma request_ok_put:
  "spreads Q nt k v \<Longrightarrow> request_ok Q nt (PutKey k (ver_value v) (ver_clock v))"
  "spreads Q nt k v \<Longrightarrow> request_ok Q nt (PutHint k target (ver_value v) (ver_clock v))"
  by (auto simp: request_ok_def spreads_def split: option.splits)

lemma request_ok_delete: "removes Q nt k \<Longrightarrow> request_ok Q nt (DeleteKey k)"
  by (auto simp: request_ok_def removes_def split: option.splits)

text \<open>Changes of the coordinator's own node.\<close>

lemma put_local_steps: "put_local (c i) k v = Inr nd \<Longrightarrow> spreads Q nt k v \<Longrightarrow> steps Q c (c(i := nd))"
  using trace_perform [of Q "StorePut i k v" c] by (simp add: spreads_def)

lemma delete_local_steps: "Q (StoreDelete i k) \<Longrightarrow> steps Q c (c(i := snd (delete_local (c i) k)))"
  using trace_perform [of Q "StoreDelete i k" c] by simp

lemma add_hint_steps: "add_hint (c i) t k v = Inr nd \<Longrightarrow> spreads Q nt k v \<Longrightarrow> steps Q c (c(i := nd))"
  using trace_perform [of Q "HintAdd i t k v" c] by (simp add: spreads_def)

lemma clear_hint_steps: "clear_hint (c i) t k = Inr nd \<Longrightarrow> Q (HintClear i t k) \<Longrightarrow> steps Q c (c(i := nd))"
  using trace_perform [of Q "HintClear i t k" c] by simp

lemma delete_local_trace:
  "StoreDelete i k \<in> A \<Longrightarrow> trace A c (c(i := snd (delete_local (c i) k)))"
  by (rule delete_local_steps) (simp add: allowed_def)

lemma clear_hint_trace:
  "clear_hint (c i) t k = Inr nd \<Longrightarrow> HintClear i t k \<in> A \<Longrightarrow> trace A c (c(i := nd))"
  by (erule clear_hint_steps) (simp add: allowed_def)

subsection \<open>Replica operations are traces\<close>

lemma get_op_cluster: "snd (get_op nt self k m dl c) = c"
proof -
  have "snd (http_send nt dl u (GetKey k) c) = c" for u
    by (auto simp: http_send_def on_route_def split: option.splits delivery.splits)
  then show ?thesis
    by (simp add: get_op_def case_prod_unfold split: sum.splits)
qed

lemma put_op_steps: "spreads Q nt k v \<Longrightarrow> steps Q c (snd (put_op nt self k v m dl c))"
  using http_send_trace [OF request_ok_put(1)]
  by (auto simp: put_op_def case_prod_unfold intro: put_local_steps split: sum.splits)

lemma delete_op_steps:
  assumes "removes Q nt k"
  shows "steps Q c (snd (delete_op nt self k m dl c))"
proof -
  have "Q (StoreDelete self k)" using assms by (simp add: removes_def)
  from delete_local_steps [where Q = Q, OF this] http_send_trace [OF request_ok_delete [OF assms]] show ?thesis
    by (auto simp: delete_op_def case_prod_unfold split: sum.splits)
qed

lemma deliver_hint_steps: "spreads Q nt k v \<Longrightarrow> steps Q c (snd (deliver_hint nt self h t k v dl c))"
  using http_send_trace [OF request_ok_put(2)]
  by (auto simp: deliver_hint_def intro: add_hint_steps split: sum.splits)

lemma guarded_put_op_steps:
  assumes "spreads Q nt k v"
  shows "steps Q c (snd (guarded_put_op nt self h k v m d c))"
proof -
  let ?c = "snd (put_op nt self k v m (fst d) c)"
  have "steps Q c ?c" using assms by (rule put_op_steps)
  moreover have "steps Q ?c (snd (deliver_hint nt self h' m k v (snd d) ?c))" for h'
    using assms by (rule deliver_hint_steps)
  ultimately show ?thesis
    by (auto simp: guarded_put_op_def case_prod_unfold intro: trace_trans split: sum.splits option.splits)
qed

lemmas put_op_trace = put_op_steps [OF spreads_allowed]
lemmas deliver_hint_trace = deliver_hint_steps [OF spreads_allowed]
lemmas guarded_put_op_trace = guarded_put_op_steps [OF spreads_allowed]

end
