(* ===== verification/Quorum.thy ===== *)
theory Quorum
  imports Traces
begin

section \<open>Quorum operations\<close>

text \<open>
  What \<open>_quorum_op\<close> guarantees, proved once in the locale \<open>fan_out\<close> for any replica operation that only
  does trace steps, and interpreted on the reads, the guarded writes and the deletes of the code; then
  the theorems on \<open>get\<close>, \<open>put\<close> and \<open>delete\<close>: what an acknowledged write means, that reads and writes
  whose quorums overlap are causally consistent, and when an operation raises 404, 409 or 503.
\<close>

definition others_in :: "(action \<Rightarrow> bool) \<Rightarrow> 'd completion list \<Rightarrow> bool" where
  "others_in Q futures \<longleftrightarrow> (\<forall>(m, d, others) \<in> set futures. \<forall>a \<in> set others. Q a)"

abbreviation others_ok :: "action set \<Rightarrow> 'd completion list \<Rightarrow> bool" where
  "others_ok A \<equiv> others_in (allowed A)"

lemma others_in_simps [simp]:
  "others_in Q []" "others_in Q ((m, d, others) # futures) \<longleftrightarrow> (\<forall>a \<in> set others. Q a) \<and> others_in Q futures"
  by (auto simp: others_in_def)

lemma subseq_distinct: "subseq xs ys \<Longrightarrow> distinct ys \<Longrightarrow> distinct xs \<and> set xs \<subseteq> set ys"
  by (induction rule: list_emb.induct) auto

text \<open>The futures complete each at most once, and belong to the submitted replicas.\<close>

definition completes :: "node_id list \<Rightarrow> 'd completion list \<Rightarrow> bool" where
  "completes prefs futures \<longleftrightarrow> distinct (map fst futures) \<and> set (map fst futures) \<subseteq> set prefs"

lemma others_in_submitted: "others_in Q futures \<Longrightarrow> others_in Q (submitted ms futures)"
  by (auto simp: others_in_def submitted_def)

lemma completes_submitted: "completes prefs futures \<Longrightarrow> completes prefs (submitted ms futures)"
  by (auto simp: completes_def submitted_def distinct_map_filter)

lemma set_submitted: "set (map fst (submitted ms futures)) = set (map fst futures) \<inter> set ms"
  by (force simp: submitted_def)

lemma submitted_all: "set (map fst futures) \<subseteq> set ms \<Longrightarrow> submitted ms futures = futures"
  by (force simp: submitted_def intro: filter_True)

text \<open>
  One success of a quorum operation: the replica and the result, and the states around it.
\<close>

locale fan_out =
  fixes Q :: "action \<Rightarrow> bool"
    and ok :: "'p \<Rightarrow> bool"
    and op_fn :: "'p \<Rightarrow> node_id \<Rightarrow> 'd \<Rightarrow> cluster \<Rightarrow> (py_error + 'a) \<times> cluster"
  assumes op_trace: "ok p \<Longrightarrow> steps Q c (snd (op_fn p m d c))"
begin

definition happened :: "'p \<Rightarrow> cluster \<Rightarrow> cluster \<Rightarrow> node_id \<times> 'a \<Rightarrow> bool" where
  "happened p c c' = (\<lambda>(m, x). \<exists>d c0 c1. op_fn p m d c0 = (Inr x, c1) \<and> steps Q c c0 \<and> steps Q c1 c')"

lemma happened_mono:
  "happened p c c' mx \<Longrightarrow> steps Q b c \<Longrightarrow> steps Q c' c'' \<Longrightarrow> happened p b c'' mx"
  unfolding happened_def by (blast intro: trace_trans case_prodI2 elim: case_prodE)

lemma quorum_trace:
  "ok p \<Longrightarrow> others_in Q futures \<Longrightarrow> quorum_op (op_fn p) th futures acc c = (succ, rest, c') \<Longrightarrow>
     steps Q c c' \<and> others_in Q rest"
proof (induction "op_fn p" th futures acc c arbitrary: succ rest c' rule: quorum_op.induct)
  case (1 th acc c)
  then show ?case by auto
next
  case (2 th m d others futures acc c)
  let ?c1 = "run others c"
  have "steps Q c ?c1" using "2.prems" by (intro trace_run) simp
  also have "steps Q ?c1 (snd (op_fn p m d ?c1))" using "2.prems"(1) by (rule op_trace)
  finally have t: "steps Q c (snd (op_fn p m d ?c1))" .
  show ?case
    using "2.prems" t "2.hyps" by (cases "op_fn p m d ?c1"; cases "fst (op_fn p m d ?c1)")
      (auto simp: Let_def intro: trace_trans split: if_splits)
qed

lemma quorum_done:
  "ok p \<Longrightarrow> others_in Q futures \<Longrightarrow> quorum_op (op_fn p) th futures acc c = (succ, rest, c') \<Longrightarrow>
     \<exists>done. succ = acc @ map snd done \<and> subseq (map fst done) (map fst futures) \<and>
       (\<forall>mx \<in> set done. happened p c c' mx)"
proof (induction "op_fn p" th futures acc c arbitrary: succ rest c' rule: quorum_op.induct)
  case (1 th acc c)
  then show ?case by (intro exI [of _ "[]"]) simp
next
  case (2 th m d others futures acc c)
  let ?c0 = "run others c" and ?r = "op_fn p m d (run others c)"
  have t0: "steps Q c ?c0" using "2.prems" by (intro trace_run) simp
  also have "steps Q ?c0 (snd ?r)" using "2.prems"(1) by (rule op_trace)
  finally have t: "steps Q c (snd ?r)" .
  show ?case
  proof (cases "fst ?r")
    case (Inl e)
    then have r: "?r = (Inl e, snd ?r)" by (metis prod.collapse)
    then have q: "quorum_op (op_fn p) th futures acc (snd ?r) = (succ, rest, c')"
      using "2.prems"(3) by (cases ?r) simp
    have fo: "others_in Q futures" using "2.prems"(2) by simp
    obtain dn where "succ = acc @ map snd dn" "subseq (map fst dn) (map fst futures)"
      "\<forall>mx \<in> set dn. happened p (snd ?r) c' mx"
      using "2.hyps"(1) [OF r [symmetric] refl "2.prems"(1) fo q] by blast
    then show ?thesis using happened_mono [OF _ t] by (intro exI [of _ dn]) auto
  next
    case (Inr x)
    then have r: "?r = (Inr x, snd ?r)" by (metis prod.collapse)
    show ?thesis
    proof (cases "th \<le> int (length (acc @ [x]))")
      case True
      then have "succ = acc @ [x]" "c' = snd ?r" using "2.prems"(3) r by (auto simp: Let_def split: prod.splits)
      then show ?thesis using r t0
        by (intro exI [of _ "[(m, x)]"]) (auto simp: happened_def)
    next
      case False
      then have q: "quorum_op (op_fn p) th futures (acc @ [x]) (snd ?r) = (succ, rest, c')"
        using "2.prems"(3) r by (cases ?r) (simp add: Let_def)
      have fo: "others_in Q futures" using "2.prems"(2) by simp
      obtain dn where dn: "succ = (acc @ [x]) @ map snd dn" "subseq (map fst dn) (map fst futures)"
        "\<forall>mx \<in> set dn. happened p (snd ?r) c' mx"
        using "2.hyps"(2) [OF r [symmetric] refl refl False "2.prems"(1) fo q] by blast
      have "steps Q (snd ?r) c'" using quorum_trace [OF "2.prems"(1) fo q] by blast
      then have "happened p c c' (m, x)" using r t0 by (auto simp: happened_def)
      then show ?thesis using dn happened_mono [OF _ t]
        by (intro exI [of _ "(m, x) # dn"]) auto
    qed
  qed
qed

text \<open>Distinct replicas stand behind the successes.\<close>

lemma quorum_successes:
  assumes "ok p" "others_in Q futures" "completes prefs futures"
    and "quorum_op (op_fn p) th futures [] c = (succ, rest, c')"
  shows "\<exists>done. succ = map snd done \<and> distinct (map fst done) \<and> set (map fst done) \<subseteq> set prefs \<and>
    (\<forall>mx \<in> set done. happened p c c' mx)"
proof -
  obtain dn where dn: "succ = map snd dn" "subseq (map fst dn) (map fst futures)"
    "\<forall>mx \<in> set dn. happened p c c' mx"
    using quorum_done [OF assms(1,2,4)] by auto
  have "distinct (map fst dn)" "set (map fst dn) \<subseteq> set (map fst futures)"
    using subseq_distinct [OF dn(2)] assms(3) unfolding completes_def by blast+
  then show ?thesis using dn assms(3) unfolding completes_def by blast
qed

lemma stragglers_trace:
  "ok p \<Longrightarrow> others_in Q futures \<Longrightarrow> steps Q c (stragglers (op_fn p) futures c)"
proof (induction "op_fn p" futures c rule: stragglers.induct)
  case (1 c)
  then show ?case by simp
next
  case (2 m d others futures c)
  have "steps Q c (run others c)" using "2.prems" by (intro trace_run) simp
  also have "steps Q (run others c) (snd (op_fn p m d (run others c)))" using "2.prems"(1) by (rule op_trace)
  also have "steps Q (snd (op_fn p m d (run others c))) (stragglers (op_fn p) futures (snd (op_fn p m d (run others c))))"
    using 2 by simp
  finally show ?case by simp
qed

text \<open>Whether the threshold is reached depends only on how many of the futures can succeed.\<close>

lemma quorum_enough:
  assumes "ok p" "others_in Q futures"
    and "\<And>m d c1. steps Q c c1 \<Longrightarrow> (\<exists>x. fst (op_fn p m d c1) = Inr x) \<longleftrightarrow> good m d"
    and "quorum_op (op_fn p) th futures acc c = (succ, rest, c')"
  shows "th \<le> int (length succ) \<longleftrightarrow> th \<le> int (length acc + length (filter (\<lambda>(m, d, _). good m d) futures))"
  using assms
proof (induction futures arbitrary: acc c)
  case Nil
  then show ?case by simp
next
  case (Cons f futures)
  obtain m d others where f: "f = (m, d, others)" by (cases f)
  let ?r = "op_fn p m d (run others c)"
  have t0: "steps Q c (run others c)" using Cons.prems(2) f by (intro trace_run) simp
  then have t: "steps Q c (snd ?r)" using op_trace [OF Cons.prems(1)] trace_trans by blast
  have good: "good m d \<longleftrightarrow> (\<exists>x. fst ?r = Inr x)" using Cons.prems(3) [OF t0] by simp
  have fo: "others_in Q futures" using Cons.prems(2) f by simp
  have later: "(\<exists>x. fst (op_fn p m d c1) = Inr x) \<longleftrightarrow> good m d" if "steps Q (snd ?r) c1" for m d c1
    using Cons.prems(3) trace_trans [OF t that] by blast
  show ?case
  proof (cases "fst ?r")
    case (Inl e)
    then have "quorum_op (op_fn p) th futures acc (snd ?r) = (succ, rest, c')"
      using Cons.prems(4) f by (cases ?r) simp
    then show ?thesis using Cons.IH [OF Cons.prems(1) fo later] good Inl f by simp
  next
    case (Inr x)
    show ?thesis
    proof (cases "th \<le> int (length (acc @ [x]))")
      case True
      then have "succ = acc @ [x]" using Cons.prems(4) f Inr by (cases ?r) (simp add: Let_def)
      then show ?thesis using True good Inr f by simp
    next
      case False
      then have "quorum_op (op_fn p) th futures (acc @ [x]) (snd ?r) = (succ, rest, c')"
        using Cons.prems(4) f Inr by (cases ?r) (simp add: Let_def)
      from Cons.IH [OF Cons.prems(1) fo later this] show ?thesis using good Inr f by (simp add: ac_simps)
    qed
  qed
qed

end

interpretation reads: fan_out Q "\<lambda>_. True" "\<lambda>(nt, self, k). get_op nt self k" for Q
  by unfold_locales (auto simp: get_op_cluster)

interpretation writes: fan_out Q "\<lambda>(nt, self, h, k, v). spreads Q nt k v"
    "\<lambda>(nt, self, h, k, v). guarded_put_op nt self h k v" for Q
  by unfold_locales (auto intro: guarded_put_op_steps)

interpretation deletes: fan_out Q "\<lambda>(nt, self, k). removes Q nt k" "\<lambda>(nt, self, k). delete_op nt self k" for Q
  by unfold_locales (auto intro: delete_op_steps)

lemmas read_trace =
  reads.quorum_trace [where p = "(nt, self, k)" for nt self k, unfolded prod.case, OF TrueI]
lemmas read_enough =
  reads.quorum_enough [where p = "(nt, self, k)" for nt self k, unfolded prod.case, OF TrueI]
lemmas write_steps =
  writes.quorum_trace [where p = "(nt, self, h, k, v)" for nt self h k v, unfolded prod.case]
lemmas write_stragglers_steps =
  writes.stragglers_trace [where p = "(nt, self, h, k, v)" for nt self h k v, unfolded prod.case]
lemmas write_successes =
  writes.quorum_successes [where p = "(nt, self, h, k, v)" for nt self h k v, unfolded prod.case, OF spreads_allowed]
lemmas write_enough =
  writes.quorum_enough [where p = "(nt, self, h, k, v)" for nt self h k v, unfolded prod.case, OF spreads_allowed]
lemmas write_trace = write_steps [OF spreads_allowed]
lemmas write_stragglers = write_stragglers_steps [OF spreads_allowed]
lemmas delete_trace =
  deletes.quorum_trace [where p = "(nt, self, k)" for nt self k, unfolded prod.case]
lemmas delete_stragglers =
  deletes.stragglers_trace [where p = "(nt, self, k)" for nt self k, unfolded prod.case]

subsection \<open>One replica's answer\<close>

text \<open>
  The network does what the deployment promises: the address that a node has for a peer is the peer's,
  and the key arrives in the peer's handler as it was sent.
\<close>

definition wired :: "net \<Rightarrow> cluster \<Rightarrow> node_id \<Rightarrow> key \<Rightarrow> bool" where
  "wired nt c self k \<longleftrightarrow>
     net_wire nt k = Some k \<and> (\<forall>m u. map_of (nd_peers (c self)) m = Some u \<longrightarrow> net_host nt u = Some m)"

lemma wired_trace: "wired nt c self k \<Longrightarrow> steps Q c c' \<Longrightarrow> wired nt c' self k"
  by (simp add: wired_def trace_fields)

lemma wiredD:
  assumes "wired nt c self k" "peer_base_url (c self) m = Inr u"
  shows "net_wire nt k = Some k" "net_host nt u = Some m"
  using assms by (auto simp: wired_def peer_base_url_def split: option.splits)

lemma get_op_result:
  assumes "get_op nt self k m dl c = (Inr x, c1)" "cluster_ok c" "wired nt c self k"
  shows "x = siblings (c m) k"
proof (cases "m = self")
  case True
  then show ?thesis using assms(1) get_local_siblings [OF cluster_okD [OF assms(2)]]
    by (auto simp: get_op_def)
next
  case False
  then obtain u where u: "peer_base_url (c self) m = Inr u"
    using assms(1) by (auto simp: get_op_def split: sum.splits)
  obtain resp c' where "http_send nt dl u (GetKey k) c = (Inr resp, c')"
    using assms(1) False u by (auto simp: get_op_def split: sum.splits prod.splits)
  moreover from this have "resp = get_key_local (c m) k"
    using http_send_Inr wiredD [OF assms(3) u] by (fastforce simp: on_route_def)
  ultimately show ?thesis
    using assms(1) False u get_local_siblings [OF cluster_okD [OF assms(2)], of m k]
    by (auto simp: get_op_def get_key_local_def subscript_def split: if_splits)
qed

lemma get_op_responds:
  assumes "cluster_ok c" "wired nt c self k" "m \<noteq> self \<longrightarrow> map_of (nd_peers (c self)) m \<noteq> None \<and> dl = Delivered"
  shows "get_op nt self k m dl c = (Inr (siblings (c m) k), c)"
proof (cases "m = self")
  case True
  then show ?thesis using get_local_siblings [OF cluster_okD [OF assms(1)]] by (simp add: get_op_def)
next
  case False
  then obtain u where u: "peer_base_url (c self) m = Inr u" and dl: "dl = Delivered"
    using assms(3) by (auto simp: peer_base_url_def)
  then show ?thesis
    using False http_send_delivered [OF wiredD(2) [OF assms(2) u], of "GetKey k" c] wiredD(1) [OF assms(2) u]
      get_local_siblings [OF cluster_okD [OF assms(1)], of m k]
    by (auto simp: get_op_def on_route_def get_key_local_def subscript_def)
qed

lemma put_op_result:
  assumes "put_op nt self k v m dl c = (Inr b, c1)" "cluster_ok c" "wired nt c self k" "version_ok v"
  shows "versions.covered (siblings (c1 m) k) v"
proof -
  have cov: "versions.covered (siblings (perform (StorePut m k v) c m) k) v"
    using siblings_perform [OF assms(2), of "StorePut m k v" m k] assms(4) versions.covered_ins_self
    by (simp del: perform.simps)
  show ?thesis
  proof (cases "m = self")
    case True
    then show ?thesis using assms(1) cov by (auto simp: put_op_def split: sum.splits)
  next
    case False
    then obtain u where u: "peer_base_url (c self) m = Inr u"
      using assms(1) by (auto simp: put_op_def split: sum.splits)
    obtain resp where "http_send nt dl u (PutKey k (ver_value v) (ver_clock v)) c = (Inr resp, c1)"
      using assms(1) False u by (auto simp: put_op_def split: sum.splits prod.splits)
    then have "c1 = c(m := snd (serve nt (PutKey k (ver_value v) (ver_clock v)) (c m)))"
      using http_send_Inr wiredD [OF assms(3) u] by fastforce
    then have "c1 = perform (StorePut m k v) c"
      unfolding serve_actions using wiredD [OF assms(3) u] by simp
    then show ?thesis using cov by simp
  qed
qed

lemma guarded_put_op_result:
  assumes "guarded_put_op nt self h k v m d c = (Inr b, c1)" "cluster_ok c" "wired nt c self k" "version_ok v"
  shows "versions.covered (siblings (c1 m) k) v"
proof -
  have "put_op nt self k v m (fst d) c = (Inr b, c1)"
    using assms(1) by (auto simp: guarded_put_op_def split: prod.splits sum.splits option.splits if_splits)
  then show ?thesis using assms(2-4) by (rule put_op_result)
qed

subsection \<open>Merged reads\<close>

lemma foldl_foldl: "foldl (foldl f) z xss = foldl f z (concat xss)"
  by (induction xss arbitrary: z) simp_all

lemma siblings_ok_fold:
  "siblings_ok vs \<Longrightarrow> \<forall>v \<in> set ws. version_ok v \<Longrightarrow> siblings_ok (foldl reconcile vs ws)"
  by (induction ws arbitrary: vs) (auto intro: siblings_ok_reconcile)

definition read_from :: "action set \<Rightarrow> cluster \<Rightarrow> key \<Rightarrow> version list \<Rightarrow> node_id \<Rightarrow> bool" where
  "read_from A c k merged m \<longleftrightarrow>
     (\<exists>c0. trace A c c0 \<and> (\<forall>v \<in> set (siblings (c0 m) k). versions.covered merged v))"

text \<open>Every answer that a read counts is what a replica held at some moment of the read.\<close>

lemma quorum_read_states:
  assumes "quorum_op (get_op nt self k) th futures [] c = (results, rest, c')"
    and "cluster_ok c" "wired nt c self k" "others_in Q futures" "\<And>a. Q a \<Longrightarrow> action_ok a"
  shows "\<exists>dn. results = map snd dn \<and> subseq (map fst dn) (map fst futures) \<and>
    (\<forall>m x. (m, x) \<in> set dn \<longrightarrow> (\<exists>c0. steps Q c c0 \<and> x = siblings (c0 m) k))"
proof -
  obtain dn where dn: "results = map snd dn" "subseq (map fst dn) (map fst futures)"
      and hap: "\<forall>mx \<in> set dn. reads.happened Q (nt, self, k) c c' mx"
    using reads.quorum_done [where p = "(nt, self, k)", unfolded prod.case, OF TrueI assms(4,1)] by auto
  have "\<exists>c0. steps Q c c0 \<and> x = siblings (c0 m) k" if mx: "(m, x) \<in> set dn" for m x
  proof -
    obtain d c0 c1 where op: "get_op nt self k m d c0 = (Inr x, c1)" and t: "steps Q c c0"
      using bspec [OF hap mx] unfolding reads.happened_def prod.case by blast
    show ?thesis using get_op_result [OF op steps_ok [OF t assms(5,2)] wired_trace [OF assms(3) t]] t by blast
  qed
  then show ?thesis using dn by blast
qed

lemma merged_read_sound:
  assumes "merged_read nt self th k futures c = (Inr merged, c')" "cluster_ok c" "wired nt c self k"
    and "others_ok A futures" "completes prefs futures"
  shows "trace A c c'" "siblings_ok merged"
    and "\<exists>ms. distinct ms \<and> set ms \<subseteq> set prefs \<and> th \<le> int (length ms) \<and> (\<forall>m \<in> set ms. read_from A c k merged m)"
proof -
  obtain results rest where q: "quorum_op (get_op nt self k) th futures [] c = (results, rest, c')"
      and len: "th \<le> int (length results)" and merged: "merged = foldl reconcile [] (concat results)"
    using assms(1) by (auto simp: merged_read_def foldl_foldl split: prod.splits if_splits)
  show t: "trace A c c'"
    using read_trace [OF assms(4) q] by simp
  have sound: "action_ok a" if "allowed A a" for a using that by (simp add: allowed_def)
  obtain dn where dn: "results = map snd dn" "subseq (map fst dn) (map fst futures)"
      and each: "\<And>m x. (m, x) \<in> set dn \<Longrightarrow> \<exists>c0. trace A c c0 \<and> x = siblings (c0 m) k"
    using quorum_read_states [OF q assms(2-4) sound] by blast
  have ms: "distinct (map fst dn)" "set (map fst dn) \<subseteq> set prefs"
    using subseq_distinct [OF dn(2)] assms(5) unfolding completes_def by blast+
  have "\<forall>v \<in> set (concat results). version_ok v"
  proof
    fix v
    assume "v \<in> set (concat results)"
    then obtain m x where mx: "(m, x) \<in> set dn" "v \<in> set x" using dn(1) by auto
    then obtain c0 where "trace A c c0" "x = siblings (c0 m) k" using each by blast
    then show "version_ok v"
      using mx(2) siblings_ok_siblings [OF cluster_okD [OF trace_ok [OF _ assms(2)]]]
      by (auto simp: siblings_ok_def)
  qed
  then show "siblings_ok merged" unfolding merged by (intro siblings_ok_fold) simp_all
  have "read_from A c k merged m" if mdn: "m \<in> set (map fst dn)" for m
  proof -
    obtain x where mx: "(m, x) \<in> set dn" using mdn by auto
    then obtain c0 where "trace A c c0" "x = siblings (c0 m) k" using each by blast
    moreover have "versions.covered merged v" if "v \<in> set x" for v
      unfolding merged using that mx dn(1) by (intro versions.covered_foldl) force
    ultimately show ?thesis unfolding read_from_def by blast
  qed
  then show "\<exists>ms. distinct ms \<and> set ms \<subseteq> set prefs \<and> th \<le> int (length ms) \<and> (\<forall>m \<in> set ms. read_from A c k merged m)"
    using dn(1) ms len by (intro exI [of _ "map fst dn"]) simp
qed

subsection \<open>Writes\<close>

lemma version_ok_next: "json_ok val \<Longrightarrow> version_ok (next_version self val merged)"
  by (simp add: version_ok_def next_version_def clock_ok_merge clock_ok_incremented)

lemma next_version_above:
  assumes "siblings_ok merged" "u \<in> set merged"
  shows "ver_clock u < ver_clock (next_version self val merged)"
  using assms next_clock_dominates [of "map ver_clock merged" "ver_clock u"]
  by (auto simp: next_version_def siblings_ok_def version_ok_def)

lemma next_version_above_covered:
  assumes "siblings_ok merged" "versions.covered merged u"
  shows "ver_clock u < ver_clock (next_version self val merged)"
  using assms next_version_above order_le_less_trans unfolding versions.covered_def by blast

definition fates_in :: "(action \<Rightarrow> bool) \<Rightarrow> (nat \<Rightarrow> action list \<times> delivery) \<Rightarrow> bool" where
  "fates_in Q fates \<longleftrightarrow> (\<forall>i. \<forall>a \<in> set (fst (fates i)). Q a)"

abbreviation fates_ok :: "action set \<Rightarrow> (nat \<Rightarrow> action list \<times> delivery) \<Rightarrow> bool" where
  "fates_ok A \<equiv> fates_in (allowed A)"

definition put_inputs_in :: "(action \<Rightarrow> bool) \<Rightarrow> node_id list \<Rightarrow> put_inputs \<Rightarrow> bool" where
  "put_inputs_in Q prefs ins \<longleftrightarrow>
     others_in Q (pi_reads ins) \<and> completes prefs (pi_reads ins) \<and>
     (\<forall>a \<in> set (pi_pause ins). Q a) \<and> fates_in Q (pi_hints ins) \<and>
     others_in Q (pi_writes ins) \<and> completes prefs (pi_writes ins)"

abbreviation put_inputs_ok :: "action set \<Rightarrow> node_id list \<Rightarrow> put_inputs \<Rightarrow> bool" where
  "put_inputs_ok A \<equiv> put_inputs_in (allowed A)"

lemma hint_down_steps:
  "spreads Q nt k v \<Longrightarrow> fates_in Q fates \<Longrightarrow> steps Q c (snd (hint_down nt self h k v fates i ms c))"
proof (induction ms arbitrary: i c)
  case Nil
  then show ?case by simp
next
  case (Cons m ms)
  obtain before dl where f: "fates i = (before, dl)" by (cases "fates i")
  let ?r = "deliver_hint nt self h m k v dl (run before c)"
  have "\<forall>a \<in> set before. Q a" using Cons.prems(2) f by (auto simp: fates_in_def dest: spec [of _ i])
  then have "steps Q c (run before c)" by (rule trace_run)
  also have "steps Q (run before c) (snd ?r)" using Cons.prems(1) by (rule deliver_hint_steps)
  finally have t: "steps Q c (snd ?r)" .
  show ?case
  proof (cases "fst ?r")
    case None
    then have "hint_down nt self h k v fates i (m # ms) c = hint_down nt self h k v fates (i + 1) ms (snd ?r)"
      using f by (cases ?r) simp
    then show ?thesis using t Cons.IH [OF Cons.prems] trace_trans by metis
  next
    case (Some e)
    then show ?thesis using f t by (cases ?r) simp
  qed
qed

lemmas hint_down_trace = hint_down_steps [OF spreads_allowed]

lemma deliver_hint_None:
  "cluster_ok c \<Longrightarrow> version_ok v \<Longrightarrow> fst (deliver_hint nt self h t k v dl c) = None"
  using add_hint_laws [OF cluster_okD, of c v self t k]
  by (auto simp: deliver_hint_def split: sum.splits)

lemma hint_down_None:
  "cluster_ok c \<Longrightarrow> version_ok v \<Longrightarrow> fates_ok A fates \<Longrightarrow>
     fst (hint_down nt self h k v fates i ms c) = None"
proof (induction ms arbitrary: i c)
  case (Cons m ms)
  obtain before dl where f: "fates i = (before, dl)" by (cases "fates i")
  let ?r = "deliver_hint nt self h m k v dl (run before c)"
  have "\<forall>a \<in> set before. allowed A a" using Cons.prems(3) f by (auto simp: fates_in_def dest: spec [of _ i])
  then have ok: "cluster_ok (run before c)" using trace_ok [OF trace_run] Cons.prems(1) by blast
  then have "fst ?r = None" and "cluster_ok (snd ?r)"
    using deliver_hint_None Cons.prems(2) trace_ok [OF deliver_hint_trace] by blast+
  then show ?case using Cons.IH [OF _ Cons.prems(2,3)] f by (cases ?r) simp
qed simp

lemma merged_read_trace:
  assumes "others_in Q futures" "merged_read nt self th k futures c = (rd, c1)"
  shows "steps Q c c1"
proof -
  obtain results rest where "quorum_op (get_op nt self k) th futures [] c = (results, rest, c1)"
    using assms(2) by (auto simp: merged_read_def split: prod.splits)
  then show ?thesis using read_trace [OF assms(1)] by blast
qed

lemma put_key_unfold:
  assumes "preference_list D (c self) k = Inr prefs"
    and "merged_read nt self (min (nd_r (c self)) (int (length prefs))) k (pi_reads ins) c = (Inr merged, c1)"
    and "c2 = run (pi_pause ins) c1"
    and "get_preference_list D (nd_ring (c2 self)) k (int (length prefs) + 1) = Inr cands"
    and "find (\<lambda>m. m \<notin> set prefs) cands = holder"
    and "partition_by_liveness (c2 self) (pi_now ins) prefs = (live, down)"
    and "(case holder of None \<Rightarrow> (None, c2)
          | Some h \<Rightarrow> hint_down nt self h k (next_version self val merged) (pi_hints ins) 0 down c2) = (None, c3)"
    and "quorum_op (guarded_put_op nt self holder k (next_version self val merged))
      (min (nd_w (c3 self)) (int (length prefs))) (submitted live (pi_writes ins)) [] c3 = (results, rest, c4)"
  shows "put_key D nt self k val ins c =
    (if int (length results) < min (nd_w (c3 self)) (int (length prefs)) then Inl (HTTPException 503)
     else Inr (next_version self val merged), rest, c4)"
  by (simp only: put_key_def Let_def assms(1) assms(2) assms(3) [symmetric] assms(4) assms(5) assms(6) assms(7) assms(8)
      sum.case prod.case option.case)

text \<open>A write after its reads: the hints for the replicas that are believed down, then the quorum.\<close>

definition after_hints ::
  "net \<Rightarrow> node_id \<Rightarrow> node_id option \<Rightarrow> key \<Rightarrow> version \<Rightarrow> put_inputs \<Rightarrow> node_id list \<Rightarrow> cluster \<Rightarrow> cluster" where
  "after_hints nt self holder k v ins prefs c =
     (case holder of
        None \<Rightarrow> c
      | Some h \<Rightarrow> snd (hint_down nt self h k v (pi_hints ins) 0 (snd (partition_by_liveness (c self) (pi_now ins) prefs)) c))"

lemma put_key_after_reads:
  assumes "preference_list D (c self) k = Inr prefs" "cluster_ok c" "json_ok val" "put_inputs_ok A prefs ins"
    and "merged_read nt self (min (nd_r (c self)) (int (length prefs))) k (pi_reads ins) c = (Inr merged, c1)"
    and "get_preference_list D (nd_ring (c self)) k (int (length prefs) + 1) = Inr cands"
  defines "v \<equiv> next_version self val merged" and "holder \<equiv> find (\<lambda>m. m \<notin> set prefs) cands" and "c2 \<equiv> run (pi_pause ins) c1"
  defines "c3 \<equiv> after_hints nt self holder k v ins prefs c2"
    and "ws \<equiv> submitted (fst (partition_by_liveness (c2 self) (pi_now ins) prefs)) (pi_writes ins)"
  shows "version_ok v" "trace A c c2" "trace A c2 c3"
    and "quorum_op (guarded_put_op nt self holder k v) (min (nd_w (c self)) (int (length prefs))) ws [] c3 = (results, rest, c4) \<Longrightarrow>
      put_key D nt self k val ins c =
        (if int (length results) < min (nd_w (c self)) (int (length prefs)) then Inl (HTTPException 503) else Inr v, rest, c4)"
proof -
  have inputs: "others_ok A (pi_reads ins)" "\<forall>a \<in> set (pi_pause ins). allowed A a" "fates_ok A (pi_hints ins)"
    using assms(4) by (auto simp: put_inputs_in_def)
  show v: "version_ok v" unfolding v_def using assms(3) by (rule version_ok_next)
  show t2: "trace A c c2"
    unfolding c2_def using merged_read_trace [OF inputs(1) assms(5)] trace_run [OF inputs(2)] by (rule trace_trans)
  show t3: "trace A c2 c3"
    using hint_down_trace [OF v inputs(3)] by (simp add: c3_def after_hints_def split: option.split)
  obtain live down where ld: "partition_by_liveness (c2 self) (pi_now ins) prefs = (live, down)" by (metis surj_pair)
  have hints: "(case holder of None \<Rightarrow> (None, c2) | Some h \<Rightarrow> hint_down nt self h k v (pi_hints ins) 0 down c2) = (None, c3)"
    using hint_down_None [OF trace_ok [OF t2 assms(2)] v inputs(3)]
    by (cases holder) (simp_all add: c3_def after_hints_def ld prod_eq_iff)
  have cands: "get_preference_list D (nd_ring (c2 self)) k (int (length prefs) + 1) = Inr cands"
    using assms(6) trace_fields(1) [OF t2] by simp
  have w: "nd_w (c3 self) = nd_w (c self)" using trace_fields(5) [OF t3] trace_fields(5) [OF t2] by simp
  show "put_key D nt self k val ins c =
      (if int (length results) < min (nd_w (c self)) (int (length prefs)) then Inl (HTTPException 503) else Inr v, rest, c4)"
    if "quorum_op (guarded_put_op nt self holder k v) (min (nd_w (c self)) (int (length prefs))) ws [] c3 = (results, rest, c4)"
    using put_key_unfold [OF assms(1,5) meta_eq_to_obj_eq [OF c2_def] cands meta_eq_to_obj_eq [OF holder_def, symmetric] ld
        hints [unfolded v_def]] that [unfolded v_def ws_def ld fst_conv]
    by (simp add: w v_def)
qed

text \<open>The phases of a write that got as far as its write quorum, or raised before it.\<close>

lemma put_key_phases:
  assumes "put_key D nt self k val ins c = (res, rest, c')" "preference_list D (c self) k = Inr prefs"
    and "cluster_ok c" "wired nt c self k" "json_ok val" "put_inputs_ok A prefs ins"
  shows "trace A c c'"
    and "(\<exists>e. res = Inl e \<and> rest = []) \<or>
      (\<exists>merged c1 h live c3 results.
        merged_read nt self (min (nd_r (c self)) (int (length prefs))) k (pi_reads ins) c = (Inr merged, c1) \<and>
        trace A c c3 \<and>
        quorum_op (guarded_put_op nt self h k (next_version self val merged)) (min (nd_w (c self)) (int (length prefs)))
          (submitted live (pi_writes ins)) [] c3 = (results, rest, c') \<and>
        res = (if int (length results) < min (nd_w (c self)) (int (length prefs)) then Inl (HTTPException 503)
               else Inr (next_version self val merged)))"
proof -
  let ?rth = "min (nd_r (c self)) (int (length prefs))" and ?wth = "min (nd_w (c self)) (int (length prefs))"
  let ?cands = "get_preference_list D (nd_ring (c self)) k (int (length prefs) + 1)"
  have inputs: "others_ok A (pi_reads ins)" "\<forall>a \<in> set (pi_pause ins). allowed A a" "others_ok A (pi_writes ins)"
    using assms(6) by (auto simp: put_inputs_in_def)
  obtain rd c1 where rd: "merged_read nt self ?rth k (pi_reads ins) c = (rd, c1)" by (metis surj_pair)
  have t2: "trace A c c1" "trace A c (run (pi_pause ins) c1)"
    using merged_read_trace [OF inputs(1) rd] trace_run [OF inputs(2)] trace_trans by blast+
  have "trace A c c' \<and> ((\<exists>e. res = Inl e \<and> rest = []) \<or>
      (\<exists>merged h live c3 results. rd = Inr merged \<and> trace A c c3 \<and>
        quorum_op (guarded_put_op nt self h k (next_version self val merged)) ?wth (submitted live (pi_writes ins)) [] c3 = (results, rest, c') \<and>
        res = (if int (length results) < ?wth then Inl (HTTPException 503) else Inr (next_version self val merged))))"
  proof (cases "isl rd \<or> isl ?cands")
    case True
    then show ?thesis using assms(1,2) rd t2 trace_fields(1) [OF t2(2), of self]
      by (cases rd; cases ?cands) (auto simp: put_key_def Let_def)
  next
    case False
    then obtain merged cands where ok: "rd = Inr merged" "?cands = Inr cands" by (cases rd; cases ?cands) auto
    note after = put_key_after_reads [OF assms(2,3,5,6) rd [unfolded ok(1)] ok(2)]
    let ?h = "find (\<lambda>m. m \<notin> set prefs) cands" and ?v = "next_version self val merged"
    let ?c3 = "after_hints nt self ?h k ?v ins prefs (run (pi_pause ins) c1)"
    let ?live = "fst (partition_by_liveness (run (pi_pause ins) c1 self) (pi_now ins) prefs)"
    obtain results rest' c4 where q: "quorum_op (guarded_put_op nt self ?h k ?v) ?wth (submitted ?live (pi_writes ins)) [] ?c3 =
        (results, rest', c4)"
      by (metis prod_cases3)
    have t3: "trace A c ?c3" using after(2,3) by (rule trace_trans)
    then have "trace A c c4" using write_trace [OF after(1) others_in_submitted [OF inputs(3)] q] trace_trans by blast
    then show ?thesis using after(4) [OF q] t3 q ok(1) assms(1) by auto
  qed
  with rd show "trace A c c'"
    and "(\<exists>e. res = Inl e \<and> rest = []) \<or>
      (\<exists>merged c1 h live c3 results.
        merged_read nt self ?rth k (pi_reads ins) c = (Inr merged, c1) \<and> trace A c c3 \<and>
        quorum_op (guarded_put_op nt self h k (next_version self val merged)) ?wth (submitted live (pi_writes ins)) [] c3 = (results, rest, c') \<and>
        res = (if int (length results) < ?wth then Inl (HTTPException 503) else Inr (next_version self val merged)))"
    by auto
qed

text \<open>The actions of a write satisfy whatever those of others and of the new version do.\<close>

lemma put_key_steps:
  assumes "preference_list D (c self) k = Inr prefs" "put_inputs_in Q prefs ins"
    and "\<And>merged c1. merged_read nt self (min (nd_r (c self)) (int (length prefs))) k (pi_reads ins) c = (Inr merged, c1) \<Longrightarrow>
      spreads Q nt k (next_version self val merged)"
    and "put_key D nt self k val ins c = (res, rest, c')"
  shows "steps Q c c' \<and> others_in Q rest \<and>
    (\<forall>v. res = Inr v \<longrightarrow> (\<exists>merged c1. v = next_version self val merged \<and>
      merged_read nt self (min (nd_r (c self)) (int (length prefs))) k (pi_reads ins) c = (Inr merged, c1)))"
proof -
  obtain rd c1 where rd: "merged_read nt self (min (nd_r (c self)) (int (length prefs))) k (pi_reads ins) c = (rd, c1)"
    by (metis surj_pair)
  have inputs: "others_in Q (pi_reads ins)" "\<forall>a \<in> set (pi_pause ins). Q a" "fates_in Q (pi_hints ins)" "others_in Q (pi_writes ins)"
    using assms(2) by (auto simp: put_inputs_in_def)
  have t1: "steps Q c c1" using merged_read_trace [OF inputs(1) rd] .
  define c2 where "c2 = run (pi_pause ins) c1"
  have t2: "steps Q c c2" unfolding c2_def using t1 trace_run [OF inputs(2)] by (rule trace_trans)
  show ?thesis
  proof (cases "\<exists>merged cands. rd = Inr merged \<and>
      get_preference_list D (nd_ring (c2 self)) k (int (length prefs) + 1) = Inr cands")
    case False
    then show ?thesis using assms(4) t1 t2 by (auto simp: put_key_def assms(1) rd Let_def c2_def [symmetric] split: sum.splits)
  next
    case True
    then obtain merged cands where m: "rd = Inr merged"
        and cands: "get_preference_list D (nd_ring (c2 self)) k (int (length prefs) + 1) = Inr cands" by blast
    define v where "v = next_version self val merged"
    define holder where "holder = find (\<lambda>m. m \<notin> set prefs) cands"
    have spread: "spreads Q nt k v" unfolding v_def using assms(3) rd m by blast
    obtain live down where part: "partition_by_liveness (c2 self) (pi_now ins) prefs = (live, down)" by (metis surj_pair)
    obtain e c3 where hints: "(case holder of None \<Rightarrow> (None, c2)
        | Some h \<Rightarrow> hint_down nt self h k v (pi_hints ins) 0 down c2) = (e, c3)" by (metis surj_pair)
    have "steps Q c2 c3"
      using hints hint_down_steps [OF spread inputs(3), of c2 self _ 0 down] by (cases holder) (auto simp: prod_eq_iff)
    with t2 have t3: "steps Q c c3" by (rule trace_trans)
    obtain results rest' c4 where q: "quorum_op (guarded_put_op nt self holder k v) (min (nd_w (c3 self)) (int (length prefs)))
        (submitted live (pi_writes ins)) [] c3 = (results, rest', c4)" by (metis prod_cases3)
    note w = write_steps [OF spread others_in_submitted [OF inputs(4)] q]
    note eqs = assms(1) rd [unfolded m] c2_def [symmetric] cands part v_def [symmetric] holder_def [symmetric] hints q
    show ?thesis
    proof (cases e)
      case None
      then have "put_key D nt self k val ins c =
          (if int (length results) < min (nd_w (c3 self)) (int (length prefs)) then Inl (HTTPException 503) else Inr v, rest', c4)"
        by (simp only: put_key_def Let_def eqs sum.case prod.case option.case)
      then show ?thesis using assms(4) w trace_trans [OF t3] rd m v_def by (auto split: if_splits)
    next
      case (Some x)
      then have "put_key D nt self k val ins c = (Inl x, [], c3)"
        by (simp only: put_key_def Let_def eqs sum.case prod.case option.case)
      then show ?thesis using assms(4) t3 by auto
    qed
  qed
qed

subsection \<open>Availability\<close>

text \<open>A replica responds to the coordinator when it is the coordinator itself, or a known peer whose
  request is delivered.\<close>

definition responds :: "cluster \<Rightarrow> node_id \<Rightarrow> node_id \<Rightarrow> delivery \<Rightarrow> bool" where
  "responds c self m dl \<longleftrightarrow> m = self \<or> (map_of (nd_peers (c self)) m \<noteq> None \<and> dl = Delivered)"

definition responding :: "cluster \<Rightarrow> node_id \<Rightarrow> delivery completion list \<Rightarrow> nat" where
  "responding c self futures = length (filter (\<lambda>(m, dl, _). responds c self m dl) futures)"

definition responding_writes :: "cluster \<Rightarrow> node_id \<Rightarrow> (delivery \<times> delivery) completion list \<Rightarrow> nat" where
  "responding_writes c self futures = length (filter (\<lambda>(m, d, _). responds c self m (fst d)) futures)"

lemma responds_trace: "trace A c c1 \<Longrightarrow> responds c1 self m dl \<longleftrightarrow> responds c self m dl"
  by (simp add: responds_def trace_fields)

lemma get_op_iff:
  assumes "cluster_ok c" "wired nt c self k"
  shows "(\<exists>x. fst (get_op nt self k m dl c) = Inr x) \<longleftrightarrow> responds c self m dl"
proof (cases "responds c self m dl")
  case True
  then show ?thesis using get_op_responds [OF assms, of m dl] by (auto simp: responds_def)
next
  case False
  then have m: "m \<noteq> self" "map_of (nd_peers (c self)) m = None \<or> dl \<noteq> Delivered" by (auto simp: responds_def)
  show ?thesis
  proof (cases "peer_base_url (c self) m")
    case (Inl e)
    then show ?thesis using False m(1) by (simp add: get_op_def)
  next
    case (Inr u)
    then have "dl \<noteq> Delivered" using m(2) by (auto simp: peer_base_url_def)
    then have "\<exists>c'. http_send nt dl u (GetKey k) c = (Inl HTTPError, c')"
      by (cases dl) (auto simp: http_send_def split: option.splits)
    then show ?thesis using False m(1) Inr by (auto simp: get_op_def)
  qed
qed

lemma put_op_iff:
  assumes "cluster_ok c" "wired nt c self k" "version_ok v"
  shows "(\<exists>x. fst (put_op nt self k v m dl c) = Inr x) \<longleftrightarrow> responds c self m dl"
proof (cases "m = self")
  case True
  then show ?thesis using put_local_laws [OF cluster_okD [OF assms(1)] assms(3), of self k]
    by (auto simp: put_op_def responds_def)
next
  case False
  show ?thesis
  proof (cases "peer_base_url (c self) m")
    case (Inl e)
    then show ?thesis using False by (auto simp: put_op_def responds_def peer_base_url_def split: option.splits)
  next
    case (Inr u)
    let ?req = "PutKey k (ver_value v) (ver_clock v)"
    have host: "net_host nt u = Some m" and wire: "net_wire nt k = Some k" using wiredD [OF assms(2) Inr] by auto
    have known: "map_of (nd_peers (c self)) m \<noteq> None" using Inr by (auto simp: peer_base_url_def split: option.splits)
    obtain s where "put_local (c m) k v = Inr ((c m)\<lparr>nd_storage := s\<rparr>)"
      using put_local_laws [OF cluster_okD [OF assms(1)] assms(3), of m k] by blast
    then have "fst (fst (serve nt ?req (c m))) = 200"
      using wire by (simp add: on_route_def put_key_local_def Let_def)
    then have "(\<exists>x. fst (put_op nt self k v m dl c) = Inr x) \<longleftrightarrow> dl = Delivered"
      using False Inr host by (cases dl) (auto simp: put_op_def http_send_def case_prod_unfold)
    then show ?thesis using False known by (simp add: responds_def)
  qed
qed

lemma guarded_put_op_iff:
  assumes "cluster_ok c" "wired nt c self k" "version_ok v"
  shows "(\<exists>x. fst (guarded_put_op nt self h k v m d c) = Inr x) \<longleftrightarrow> responds c self m (fst d)"
  using put_op_iff [OF assms, of m "fst d"]
  by (auto simp: guarded_put_op_def case_prod_unfold split: sum.splits option.splits)

lemma merged_read_result:
  assumes "cluster_ok c" "wired nt c self k" "others_ok A futures"
  shows "if th \<le> int (responding c self futures)
    then \<exists>merged. fst (merged_read nt self th k futures c) = Inr merged
    else fst (merged_read nt self th k futures c) = Inl (HTTPException 503)"
proof -
  obtain succ rest c' where q: "quorum_op (get_op nt self k) th futures [] c = (succ, rest, c')"
    by (metis prod_cases3)
  have "(\<exists>x. fst (get_op nt self k m d c1) = Inr x) \<longleftrightarrow> responds c self m d" if "trace A c c1" for m d c1
    using get_op_iff [OF trace_ok [OF that assms(1)] wired_trace [OF assms(2) that]] responds_trace [OF that]
    by simp
  from read_enough [OF assms(3) this q] have "th \<le> int (length succ) \<longleftrightarrow> th \<le> int (responding c self futures)"
    by (simp add: responding_def)
  then show ?thesis using q by (auto simp: merged_read_def)
qed

text \<open>The replicas that a write is sent to: those believed up once its reads are done.\<close>

definition write_targets :: "net \<Rightarrow> node_id \<Rightarrow> key \<Rightarrow> node_id list \<Rightarrow> put_inputs \<Rightarrow> cluster \<Rightarrow> node_id list" where
  "write_targets nt self k prefs ins c =
     (let c1 = snd (merged_read nt self (min (nd_r (c self)) (int (length prefs))) k (pi_reads ins) c)
      in fst (partition_by_liveness (run (pi_pause ins) c1 self) (pi_now ins) prefs))"

lemma put_key_result:
  assumes "cluster_ok c" "wired nt c self k" "json_ok val" "put_inputs_ok A prefs ins"
    and "preference_list D (c self) k = Inr prefs" "ring_ok D (nd_ring (c self))" "ring_nodes (nd_ring (c self)) \<noteq> {}"
  shows "if min (nd_r (c self)) (int (length prefs)) \<le> int (responding c self (pi_reads ins)) \<and>
      min (nd_w (c self)) (int (length prefs)) \<le> int (responding_writes c self (submitted (write_targets nt self k prefs ins c) (pi_writes ins)))
    then \<exists>v. fst (put_key D nt self k val ins c) = Inr v
    else fst (put_key D nt self k val ins c) = Inl (HTTPException 503)"
proof -
  let ?rth = "min (nd_r (c self)) (int (length prefs))" and ?wth = "min (nd_w (c self)) (int (length prefs))"
  have inputs: "others_ok A (pi_reads ins)" "others_ok A (pi_writes ins)" using assms(4) by (auto simp: put_inputs_in_def)
  obtain rd c1 where rd: "merged_read nt self ?rth k (pi_reads ins) c = (rd, c1)" by (metis surj_pair)
  note res = merged_read_result [OF assms(1,2) inputs(1), of ?rth]
  show ?thesis
  proof (cases "?rth \<le> int (responding c self (pi_reads ins))")
    case False
    then have "rd = Inl (HTTPException 503)" using res rd by simp
    then show ?thesis using rd assms(5) False by (simp add: put_key_def)
  next
    case True
    then obtain merged where ok: "rd = Inr merged" using res rd by auto
    obtain cands where "get_preference_list D (nd_ring (c self)) k (int (length prefs) + 1) = Inr cands"
      using get_preference_list_order [OF assms(6,7)] by simp
    note after = put_key_after_reads [OF assms(5,1,3,4) rd [unfolded ok] this]
    let ?h = "find (\<lambda>m. m \<notin> set prefs) cands" and ?v = "next_version self val merged"
    let ?c3 = "after_hints nt self ?h k ?v ins prefs (run (pi_pause ins) c1)"
    have t3: "trace A c ?c3" using after(2,3) by (rule trace_trans)
    let ?ws = "submitted (write_targets nt self k prefs ins c) (pi_writes ins)"
    have targets: "write_targets nt self k prefs ins c = fst (partition_by_liveness (run (pi_pause ins) c1 self) (pi_now ins) prefs)"
      by (simp add: write_targets_def rd)
    obtain results rest c4 where q: "quorum_op (guarded_put_op nt self ?h k ?v) ?wth ?ws [] ?c3 = (results, rest, c4)"
      by (metis prod_cases3)
    have "(\<exists>x. fst (guarded_put_op nt self ?h k ?v m d c') = Inr x) \<longleftrightarrow> responds c self m (fst d)"
      if "trace A ?c3 c'" for m d c'
      using guarded_put_op_iff [OF trace_ok [OF trace_trans [OF t3 that] assms(1)]
          wired_trace [OF assms(2) trace_trans [OF t3 that]] after(1)]
        responds_trace [OF trace_trans [OF t3 that]] by simp
    from write_enough [OF after(1) others_in_submitted [OF inputs(2)] this q]
    have "?wth \<le> int (length results) \<longleftrightarrow> ?wth \<le> int (responding_writes c self ?ws)"
      by (simp add: responding_writes_def)
    then show ?thesis using after(4) [OF q [unfolded targets]] True by auto
  qed
qed

lemma get_key_merged:
  assumes "preference_list D (c self) k = Inr prefs"
    and "merged_read nt self (min (nd_r (c self)) (int (length prefs))) k futures c = (rd, c')"
  shows "get_key D nt self k futures c =
    (case rd of
       Inl e \<Rightarrow> Inl (Raised e)
     | Inr merged \<Rightarrow>
         if merged = [] then Inl (Raised (HTTPException 404))
         else if length merged = 1 then Inr (hd merged) else Inl (Conflict merged), c')"
  using assms by (cases rd) (simp_all add: get_key_def)

end
