(* ===== verification/Examples.thy ===== *)
theory Examples
  imports Quorum
begin

section \<open>Example clusters\<close>

text \<open>
  Concrete clusters on which the theorems are applied: three nodes \<open>a\<close>, \<open>b\<close>, \<open>c\<close> with N = 3, R = 2,
  W = 2 (the defaults of \<open>config.py\<close>) and one virtual node each, as \<open>run.py\<close> builds them, with empty
  in-memory stores; and a network that delivers keys as they are.
\<close>

definition ex_url :: "node_id \<Rightarrow> url" where
  "ex_url i = ''http://'' @ i"

definition ex_net :: net where
  "ex_net = \<lparr>net_host = (\<lambda>u. if take 7 u = ''http://'' then Some (drop 7 u) else None), net_wire = Some\<rparr>"

definition ex_ring :: hash_ring where
  "ex_ring = new_ring bytes_of [''a'', ''b'', ''c''] 1"

definition ex_node :: "int \<Rightarrow> node_id \<Rightarrow> node" where
  "ex_node n i =
     node_init bytes_of i (Memory memory_new) (Some ex_ring)
       (Some (map (\<lambda>j. (j, ex_url j)) (filter (\<lambda>j. j \<noteq> i) [''a'', ''b'', ''c'']))) n 2 2 None 0 6"

definition ex_cluster :: "int \<Rightarrow> cluster" where
  "ex_cluster n i = ex_node n i"

lemma storage_map_new: "storage_map (Memory memory_new) k = None"
  by (simp add: memory_map_def memory_new_def)

lemma storage_ok_new: "storage_ok (Memory memory_new)"
  by (simp add: memory_ok_new)

lemma ex_cluster_ok: "cluster_ok (ex_cluster n)"
  unfolding cluster_ok_def ex_cluster_def ex_node_def
  by (intro allI node_ok_init) (simp_all add: storage_map_new storage_ok_new del: storage_ok.simps storage_map.simps)

lemma ex_wired: "wired ex_net (ex_cluster n) self k"
  by (auto simp: wired_def ex_net_def ex_cluster_def ex_node_def node_init_def ex_url_def
      dest!: map_of_SomeD)

lemma ex_points:
  "point bytes_of ''a'' 0 = 6366000" "point bytes_of ''b'' 0 = 6431536" "point bytes_of ''c'' 0 = 6497072"
  "hash_of bytes_of ''k'' = 107"
  by (simp_all add: point_def hash_of_def from_bytes_big_def bytes_of_def vnode_label_def digit_char_def)

lemma ex_ring_eq:
  "ex_ring =
     \<lparr>virtual_nodes = 1, ring_map = [(6366000, ''a''), (6431536, ''b''), (6497072, ''c'')],
      sorted_hashes = [6366000, 6431536, 6497072], ring_nodes = {''a'', ''b'', ''c''}\<rparr>"
proof -
  have "[0..<Suc 0] = [0]" by simp
  then show ?thesis
    by (simp add: ex_ring_def new_ring_def add_node_def ex_points insort_right_def
        bisect_right_loop.simps insert_commute)
qed

text \<open>The example's key starts at the first node, so its replicas are the nodes in order.\<close>

lemma ex_prefs:
  "get_preference_list bytes_of ex_ring ''k'' 1 = Inr [''a'']"
  "get_preference_list bytes_of ex_ring ''k'' 2 = Inr [''a'', ''b'']"
  "get_preference_list bytes_of ex_ring ''k'' 3 = Inr [''a'', ''b'', ''c'']"
  "get_preference_list bytes_of ex_ring ''k'' 4 = Inr [''a'', ''b'', ''c'']"
  by (simp_all add: ex_ring_eq get_preference_list_def ex_points bisect_left_def
      bisect_left_loop.simps start_index_def owner_at_def upt_rec)

text \<open>Evaluation of the operations on the example.\<close>

lemma ex_node_sel [simp]:
  "nd_id (ex_node n i) = i" "nd_storage (ex_node n i) = Memory memory_new" "nd_ring (ex_node n i) = ex_ring"
  "nd_n (ex_node n i) = n" "nd_r (ex_node n i) = 2" "nd_w (ex_node n i) = 2" "nd_timeout (ex_node n i) = 6"
  "nd_gossip (ex_node n i) = gossip_init i 0" "nd_hints (ex_node n i) = Memory memory_new"
  by (simp_all add: ex_node_def node_init_def)

lemma ex_cluster_sel [simp]: "ex_cluster n i = ex_node n i"
  by (simp add: ex_cluster_def)

lemma ex_config:
  "nd_r (ex_cluster n i) = 2" "nd_w (ex_cluster n i) = 2" "nd_ring (ex_cluster n i) = ex_ring"
  by simp_all

lemma ex_empty:
  "siblings (ex_node n i) k = []" "hinted (ex_node n i) t k = []"
  by (simp_all add: siblings_def get_local_def memory_get_def memory_new_def hinted_def hs_pending_new [unfolded memory_new_def])

lemma ex_peers: "map_of (nd_peers (ex_node n i)) j = (if j \<noteq> i \<and> j \<in> {''a'', ''b'', ''c''} then Some (ex_url j) else None)"
  by (auto simp: ex_node_def node_init_def)

lemma ex_preference_list:
  "preference_list bytes_of (ex_cluster 3 i) ''k'' = Inr [''a'', ''b'', ''c'']"
  "preference_list bytes_of (ex_cluster 2 i) ''k'' = Inr [''a'', ''b'']"
  "preference_list bytes_of (ex_cluster 1 i) ''k'' = Inr [''a'']"
  by (simp_all add: preference_list_def ex_prefs)

lemma ex_ring_ok: "ring_ok bytes_of ex_ring" "ring_nodes ex_ring \<noteq> {}"
  using abc_ring_ok by (simp_all add: ex_ring_def)

text \<open>Reads with nothing else going on leave the cluster as it is.\<close>

lemma quorum_reads_still:
  "\<forall>(m, d, others) \<in> set futures. others = [] \<Longrightarrow>
     quorum_op (get_op nt self k) th futures acc c = (succ, rest, c') \<Longrightarrow> c' = c"
proof (induction "get_op nt self k" th futures acc c arbitrary: succ rest c' rule: quorum_op.induct)
  case (2 th m d others futures acc c)
  have "snd (get_op nt self k m d c) = c" by (rule get_op_cluster)
  then show ?case using 2 by (cases "get_op nt self k m d c"; cases "fst (get_op nt self k m d c)")
      (auto simp: Let_def split: if_splits)
qed simp

lemma merged_read_still:
  "merged_read nt self th k futures c = (rd, c') \<Longrightarrow> \<forall>(m, d, others) \<in> set futures. others = [] \<Longrightarrow> c' = c"
  using quorum_reads_still [of futures nt self k th "[]" c] by (auto simp: merged_read_def split: prod.splits)

text \<open>A write that every replica answers, in the order of the preference list.\<close>

definition ex_put :: "node_id list \<Rightarrow> put_inputs" where
  "ex_put prefs =
     \<lparr>pi_reads = map (\<lambda>m. (m, Delivered, [])) prefs, pi_pause = [], pi_now = 0,
      pi_hints = (\<lambda>_. ([], Delivered)), pi_writes = map (\<lambda>m. (m, (Delivered, Delivered), [])) prefs\<rparr>"

lemma ex_put_ok: "distinct prefs \<Longrightarrow> put_inputs_in Q prefs (ex_put prefs)"
  by (auto simp: ex_put_def put_inputs_in_def others_in_def completes_def fates_in_def o_def)

text \<open>A coordinator that has heard of nobody sends its writes to all replicas.\<close>

lemma ex_put_submitted:
  assumes "nd_gossip (c self) = gossip_init i now" "set ps \<subseteq> set prefs" "now = 0"
  shows "submitted (write_targets nt self k prefs (ex_put ps) c) (pi_writes (ex_put ps)) = pi_writes (ex_put ps)"
proof -
  let ?r = "merged_read nt self (min (nd_r (c self)) (int (length prefs))) k (pi_reads (ex_put ps)) c"
  have "snd ?r = c" using merged_read_still [of nt self _ k "pi_reads (ex_put ps)" c "fst ?r" "snd ?r"] by (auto simp: ex_put_def)
  then show ?thesis using assms
    by (intro submitted_all) (auto simp: write_targets_def partition_filter ex_put_def believed_down_def gossip_init_def)
qed

lemma undisturbed_put_acks:
  assumes "cluster_ok c" "wired nt c self k" "json_ok x" "preference_list D (c self) k = Inr prefs" "distinct prefs"
    and "ring_ok D (nd_ring (c self))" "ring_nodes (nd_ring (c self)) \<noteq> {}" "nd_gossip (c self) = gossip_init i 0"
    and "\<forall>m \<in> set prefs. m = self \<or> map_of (nd_peers (c self)) m \<noteq> None"
  shows "\<exists>v rest c'. put_key D nt self k x (ex_put prefs) c = (Inr v, rest, c')"
proof -
  have inputs: "put_inputs_ok {} prefs (ex_put prefs)" using assms(5) by (rule ex_put_ok)
  have "filter (\<lambda>m. responds c self m Delivered) prefs = prefs" using assms(9) by (auto simp: filter_id_conv responds_def)
  then have "responding c self (pi_reads (ex_put prefs)) = length prefs" "responding_writes c self (pi_writes (ex_put prefs)) = length prefs"
    by (simp_all add: responding_def responding_writes_def ex_put_def filter_map o_def)
  moreover have "submitted (write_targets nt self k prefs (ex_put prefs) c) (pi_writes (ex_put prefs)) = pi_writes (ex_put prefs)"
    using assms(8) by (rule ex_put_submitted) simp_all
  ultimately have "\<exists>v. fst (put_key D nt self k x (ex_put prefs) c) = Inr v"
    using put_key_result [OF assms(1-3) inputs assms(4,6,7)] by simp
  then show ?thesis by (metis prod.collapse)
qed

lemma ex_put_acks_later:
  assumes "trace {} (ex_cluster 3) c" "nd_gossip (c ''a'') = gossip_init ''a'' 0"
  shows "\<exists>v rest c'. put_key bytes_of ex_net ''a'' ''k'' (JInt n) (ex_put [''a'', ''b'', ''c'']) c = (Inr v, rest, c')"
  using undisturbed_put_acks [OF trace_ok [OF assms(1) ex_cluster_ok] wired_trace [OF ex_wired assms(1)] _ _ _ _ _ assms(2)]
    trace_fields [OF assms(1), of "''a''"] ex_preference_list(1) [of "''a''"] ex_ring_ok
  by (simp add: preference_list_def ex_peers)

lemma ex_put_acks:
  "\<exists>v rest c'. put_key bytes_of ex_net ''a'' ''k'' (JInt n) (ex_put [''a'', ''b'', ''c'']) (ex_cluster 3) = (Inr v, rest, c')"
  by (rule ex_put_acks_later) simp_all

text \<open>Such a write gossips nothing.\<close>

lemma ex_put_gossip:
  assumes "put_key bytes_of ex_net ''a'' ''k'' (JInt n) (ex_put [''a'', ''b'', ''c'']) (ex_cluster 3) = (res, rest, c')"
  shows "nd_gossip (c' i) = gossip_init i 0"
proof -
  let ?Q = "\<lambda>a. \<not> gossips a"
  have "steps ?Q (ex_cluster 3) c' \<and> others_in ?Q rest \<and> (\<forall>v. res = Inr v \<longrightarrow> (\<exists>merged c1. v = next_version ''a'' (JInt n) merged \<and>
      merged_read ex_net ''a'' (min (nd_r (ex_cluster 3 ''a'')) (int (length [''a'', ''b'', ''c'']))) ''k'' (pi_reads (ex_put [''a'', ''b'', ''c''])) (ex_cluster 3) = (Inr merged, c1)))"
    by (rule put_key_steps [OF ex_preference_list(1) ex_put_ok _ assms]) (simp_all add: spreads_def)
  then show ?thesis using steps_gossip [of ?Q "ex_cluster 3" c' i] by simp
qed

text \<open>A write whose second replica cannot be reached, with a deliverable hint.\<close>

definition ex_down_put :: put_inputs where
  "ex_down_put =
     \<lparr>pi_reads = [(''a'', Delivered, []), (''b'', Delivered, [])], pi_pause = [], pi_now = 0,
      pi_hints = (\<lambda>_. ([], Delivered)),
      pi_writes = [(''b'', (Unreachable, Delivered), []), (''a'', (Delivered, Delivered), [])]\<rparr>"

lemma ex_down_put_ok: "put_inputs_ok A [''a'', ''b''] ex_down_put"
  by (simp add: ex_down_put_def put_inputs_in_def completes_def fates_in_def)

text \<open>Two concurrent versions.\<close>

definition ex_v1 :: version where
  "ex_v1 = Version (JStr ''one'') (VectorClock [(''a'', 1)])"

definition ex_v2 :: version where
  "ex_v2 = Version (JStr ''two'') (VectorClock [(''b'', 1)])"

lemma ex_version_ok: "version_ok ex_v1" "version_ok ex_v2"
  by (simp_all add: ex_v1_def ex_v2_def version_ok_def clock_ok_def)

end
