(* ===== verification/Consistency.thy ===== *)
theory Consistency
  imports Examples
begin

section \<open>Consistency of reads and writes\<close>

text \<open>
  The properties of the coordinator's public operations over the model of \<open>node.py\<close>: what an
  acknowledged write means, causal consistency of overlapping quorums, availability, and where
  the guarantees end. All hold under any interleaving with other operations, given as the lists of
  actions of others, as long as no delete of the key is among them.
\<close>

lemma write_acked_on:
  assumes "put_key D nt self k val ins c = (Inr v, rest, c')" "preference_list D (c self) k = Inr prefs"
    and "cluster_ok c" "wired nt c self k" "json_ok val" "put_inputs_ok A prefs ins"
    and "\<forall>i. kept A i k"
  shows "\<exists>merged c1 ms. merged_read nt self (min (nd_r (c self)) (int (length prefs))) k (pi_reads ins) c = (Inr merged, c1) \<and>
      v = next_version self val merged \<and> siblings_ok merged \<and>
      distinct ms \<and> set ms \<subseteq> set prefs \<and> min (nd_w (c self)) (int (length prefs)) \<le> int (length ms) \<and>
      (\<forall>m \<in> set ms. versions.covered (siblings (c' m) k) v)"
proof -
  let ?wth = "min (nd_w (c self)) (int (length prefs))"
  obtain merged c1 h live c3 results where
    rd: "merged_read nt self (min (nd_r (c self)) (int (length prefs))) k (pi_reads ins) c = (Inr merged, c1)"
    and t3: "trace A c c3"
    and q: "quorum_op (guarded_put_op nt self h k v) ?wth (submitted live (pi_writes ins)) [] c3 = (results, rest, c')"
    and v: "v = next_version self val merged" and len: "?wth \<le> int (length results)"
    using put_key_phases(2) [OF assms(1-6)] by (auto split: if_splits)
  have vok: "version_ok v" unfolding v using assms(5) by (rule version_ok_next)
  have inputs: "others_ok A (pi_reads ins)" "completes prefs (pi_reads ins)"
    "others_ok A (submitted live (pi_writes ins))" "completes prefs (submitted live (pi_writes ins))"
    using assms(6) by (auto simp: put_inputs_in_def others_in_submitted completes_submitted)
  obtain dn where dn: "results = map snd dn" "distinct (map fst dn)" "set (map fst dn) \<subseteq> set prefs"
      "\<forall>mx \<in> set dn. writes.happened (allowed A) (nt, self, h, k, v) c3 c' mx"
    using write_successes [OF vok inputs(3,4) q] by blast
  have "versions.covered (siblings (c' m) k) v" if m: "m \<in> set (map fst dn)" for m
  proof -
    obtain x where mx: "(m, x) \<in> set dn" using m by auto
    obtain d c4 c5 where op: "guarded_put_op nt self h k v m d c4 = (Inr x, c5)"
        and t: "trace A c3 c4" "trace A c5 c'"
      using bspec [OF dn(4) mx] unfolding writes.happened_def prod.case by blast
    have t4: "trace A c c4" using t3 t(1) by (rule trace_trans)
    have ok4: "cluster_ok c4" using t4 assms(3) by (rule trace_ok)
    have ok5: "cluster_ok c5" using trace_ok [OF guarded_put_op_trace [OF vok] ok4] op by (metis snd_conv)
    show ?thesis
      using guarded_put_op_result [OF op ok4 wired_trace [OF assms(4) t4] vok] assms(7)
        trace_covered [OF t(2) ok5] by blast
  qed
  moreover have "siblings_ok merged" using merged_read_sound(2) [OF rd assms(3,4) inputs(1,2)] .
  ultimately show ?thesis using rd v dn len
    by (intro exI [of _ merged] exI [of _ c1] exI [of _ "map fst dn"]) simp
qed

text \<open>A read whose quorum overlaps a set of replicas that hold a version sees it.\<close>

lemma read_sees:
  assumes "merged_read nt self th k futures c = (Inr merged, c')" "cluster_ok c" "wired nt c self k"
    and "others_ok A futures" "completes prefs futures" "\<forall>i. kept A i k"
    and "distinct ms" "set ms \<subseteq> set prefs" "\<forall>m \<in> set ms. versions.covered (siblings (c m) k) v"
    and "distinct prefs" "int (length prefs) < th + int (length ms)"
  shows "versions.covered merged v"
proof -
  obtain rs where rs: "distinct rs" "set rs \<subseteq> set prefs" "th \<le> int (length rs)"
      "\<forall>m \<in> set rs. read_from A c k merged m"
    using merged_read_sound(3) [OF assms(1-5)] by blast
  have "set rs \<inter> set ms \<noteq> {}"
    using rs assms(7,8,10,11) by (intro pigeonhole_overlap [of rs ms prefs]) auto
  then obtain m c0 where m: "m \<in> set ms" and t: "trace A c c0"
      and all: "\<forall>u \<in> set (siblings (c0 m) k). versions.covered merged u"
    using rs(4) unfolding read_from_def by blast
  have "versions.covered (siblings (c0 m) k) v"
    using trace_covered [OF t assms(2)] assms(6,9) m by blast
  then obtain u where "u \<in> set (siblings (c0 m) k)" "ver_clock v \<le> ver_clock u"
    by (auto simp: versions.covered_def)
  then show ?thesis using all versions.covered_trans by blast
qed

subsection \<open>Properties\<close>

text \<open>C2. An acknowledged write is on a write quorum: when put returns a version, at least
  \<open>min(W, len(prefs))\<close> distinct replicas of the key hold that version or one that supersedes it, whatever
  other operations run at the same time, provided that none deletes the key and no \<open>put_local\<close> of the key,
  which takes no lock, is overtaken by another write of the row between its read and its write.\<close>

theorem acknowledged_write_on_quorum:
  assumes "put_key D nt self k val ins c = (Inr v, rest, c')" "preference_list D (c self) k = Inr prefs"
    and "cluster_ok c" "wired nt c self k" "json_ok val" "put_inputs_ok A prefs ins"
    and "\<forall>i. kept A i k"
  shows "\<exists>Q \<subseteq> set prefs. min (nd_w (c self)) (int (length prefs)) \<le> int (card Q) \<and>
    (\<forall>m \<in> Q. \<exists>u \<in> set (siblings (c' m) k). dominates_or_equal (ver_clock u) (ver_clock v))"
proof -
  obtain ms where "distinct ms" "set ms \<subseteq> set prefs" "min (nd_w (c self)) (int (length prefs)) \<le> int (length ms)"
      "\<forall>m \<in> set ms. versions.covered (siblings (c' m) k) v"
    using write_acked_on [OF assms] by blast
  then show ?thesis
    by (intro exI [of _ "set ms"]) (simp add: distinct_card versions.covered_def)
qed

theorem acknowledged_write_on_quorum_witness:
  "\<exists>v rest c'. put_key bytes_of ex_net ''a'' ''k'' (JInt 1) (ex_put [''a'', ''b'', ''c'']) (ex_cluster 3) = (Inr v, rest, c') \<and>
     (\<exists>Q \<subseteq> {''a'', ''b'', ''c''}. 2 \<le> card Q \<and>
       (\<forall>m \<in> Q. \<exists>u \<in> set (siblings (c' m) ''k''). dominates_or_equal (ver_clock u) (ver_clock v)))"
proof -
  obtain v rest c' where put: "put_key bytes_of ex_net ''a'' ''k'' (JInt 1) (ex_put [''a'', ''b'', ''c'']) (ex_cluster 3) = (Inr v, rest, c')"
    using ex_put_acks by blast
  have ok: "put_inputs_ok {} [''a'', ''b'', ''c''] (ex_put [''a'', ''b'', ''c''])" by (rule ex_put_ok) simp
  obtain Q where "Q \<subseteq> set [''a'', ''b'', ''c'']"
      "min (nd_w (ex_cluster 3 ''a'')) (int (length [''a'', ''b'', ''c''])) \<le> int (card Q)"
      "\<forall>m \<in> Q. \<exists>u \<in> set (siblings (c' m) ''k''). dominates_or_equal (ver_clock u) (ver_clock v)"
    using acknowledged_write_on_quorum [OF put ex_preference_list(1) ex_cluster_ok ex_wired _ ok] by auto
  then show ?thesis using put by (intro exI conjI) auto
qed

text \<open>C1. Causal consistency: when R + W exceeds the number of replicas, a read that starts after a write
  was acknowledged never misses it. Through any coordinator that uses the same preference list, and
  after and during any other operations that do not delete the key and among which no \<open>put_local\<close> of the
  key is overtaken by another write of the row between its read and its write (it takes no lock), get
  returns a version whose clock is at or above the write's, or a conflict containing such a version, or
  status 503; never 404 and never only older versions. \<open>Races\<close> shows the last restriction necessary.\<close>

theorem read_after_acknowledged_write:
  assumes "put_key D nt self k val ins c = (Inr v, rest, c1)" "preference_list D (c self) k = Inr prefs"
    and "cluster_ok c" "wired nt c self k" "json_ok val" "put_inputs_ok A prefs ins"
    and "\<forall>i. kept A i k" "distinct prefs"
    and "\<forall>a \<in> set between. allowed A a"
    and "preference_list D (run between c1 self') k = Inr prefs" "wired nt (run between c1) self' k"
    and "others_ok A futures" "completes prefs futures"
    and "int (length prefs) < min (nd_r (run between c1 self')) (int (length prefs)) + min (nd_w (c self)) (int (length prefs))"
  shows "case fst (get_key D nt self' k futures (run between c1)) of
      Inr u \<Rightarrow> dominates_or_equal (ver_clock u) (ver_clock v)
    | Inl (Conflict vs) \<Rightarrow> \<exists>u \<in> set vs. dominates_or_equal (ver_clock u) (ver_clock v)
    | Inl (Raised e) \<Rightarrow> e = HTTPException 503"
proof -
  let ?c = "run between c1"
  let ?th = "min (nd_r (?c self')) (int (length prefs))"
  obtain ms where ms: "distinct ms" "set ms \<subseteq> set prefs" "min (nd_w (c self)) (int (length prefs)) \<le> int (length ms)"
      "\<forall>m \<in> set ms. versions.covered (siblings (c1 m) k) v"
    using write_acked_on [OF assms(1-7)] by blast
  have ok1: "cluster_ok c1" using trace_ok [OF put_key_phases(1) [OF assms(1-6)] assms(3)] .
  have t: "trace A c1 ?c" using assms(9) by (rule trace_run)
  have ok: "cluster_ok ?c" using t ok1 by (rule trace_ok)
  have held: "\<forall>m \<in> set ms. versions.covered (siblings (?c m) k) v"
    using trace_covered [OF t ok1] assms(7) ms(4) by blast
  obtain rd c2 where rd: "merged_read nt self' ?th k futures ?c = (rd, c2)" by (metis surj_pair)
  note get = get_key_merged [OF assms(10) rd]
  show ?thesis
  proof (cases rd)
    case (Inl e)
    then have "e = HTTPException 503" using rd by (auto simp: merged_read_def split: prod.splits if_splits)
    then show ?thesis using get Inl by simp
  next
    case (Inr merged)
    have lt: "int (length prefs) < ?th + int (length ms)" using assms(14) ms(3) by linarith
    have "versions.covered merged v"
      by (rule read_sees [OF rd [unfolded Inr] ok assms(11-13,7) ms(1,2) held assms(8) lt])
    then have "\<exists>u \<in> set merged. ver_clock v \<le> ver_clock u" by (simp add: versions.covered_def)
    then show ?thesis using get Inr by (cases merged) auto
  qed
qed

theorem read_after_acknowledged_write_witness:
  "\<exists>v rest c1. put_key bytes_of ex_net ''a'' ''k'' (JInt 1) (ex_put [''a'', ''b'', ''c'']) (ex_cluster 3) = (Inr v, rest, c1) \<and>
     (case fst (get_key bytes_of ex_net ''b'' ''k'' [(''b'', Delivered, []), (''c'', Delivered, [])] (run [] c1)) of
        Inr u \<Rightarrow> dominates_or_equal (ver_clock u) (ver_clock v)
      | Inl (Conflict vs) \<Rightarrow> \<exists>u \<in> set vs. dominates_or_equal (ver_clock u) (ver_clock v)
      | Inl (Raised e) \<Rightarrow> e = HTTPException 503)"
proof -
  let ?prefs = "[''a'', ''b'', ''c'']"
  obtain v rest c1 where put: "put_key bytes_of ex_net ''a'' ''k'' (JInt 1) (ex_put ?prefs) (ex_cluster 3) = (Inr v, rest, c1)"
    using ex_put_acks by blast
  have ok: "put_inputs_ok {} ?prefs (ex_put ?prefs)" by (rule ex_put_ok) simp
  have t: "trace {} (ex_cluster 3) c1"
    by (rule put_key_phases(1) [OF put ex_preference_list(1) ex_cluster_ok ex_wired _ ok]) simp
  have prefs: "preference_list bytes_of (run [] c1 ''b'') ''k'' = Inr ?prefs"
    using ex_preference_list(1) [of "''b''"] trace_fields [OF t, of "''b''"] by (simp add: preference_list_def)
  have wired: "wired ex_net (run [] c1) ''b'' ''k''" using wired_trace [OF ex_wired t] by simp
  have fut: "others_ok {} [(''b'', Delivered, []), (''c'', Delivered, [])]"
    "completes ?prefs [(''b'', Delivered, []), (''c'', Delivered, [])]"
    by (simp_all add: completes_def)
  have sum: "int (length ?prefs) < min (nd_r (run [] c1 ''b'')) (int (length ?prefs)) +
      min (nd_w (ex_cluster 3 ''a'')) (int (length ?prefs))"
    using trace_fields [OF t, of "''b''"] by simp
  show ?thesis
    using put read_after_acknowledged_write [OF put ex_preference_list(1) ex_cluster_ok ex_wired _ ok _ _ _
        prefs wired fut sum] by (intro exI conjI) simp_all
qed

text \<open>C3. Writes that follow one another never conflict: if a write was acknowledged before another write
  of the key starts, at any coordinator with the same preference list and with R + W above the number
  of replicas, the second write's clock strictly dominates the first's, so reconciliation replaces
  the first value by the second; provided that nobody deletes the key and no \<open>put_local\<close> of it is
  overtaken by another write of the row between its read and its write.\<close>

theorem sequential_writes_ordered:
  assumes "put_key D nt self k val ins c = (Inr v, rest, c1)" "preference_list D (c self) k = Inr prefs"
    and "cluster_ok c" "wired nt c self k" "json_ok val" "put_inputs_ok A prefs ins"
    and "\<forall>i. kept A i k" "distinct prefs"
    and "\<forall>a \<in> set between. allowed A a"
    and "preference_list D (run between c1 self') k = Inr prefs" "wired nt (run between c1) self' k"
    and "put_inputs_ok A prefs ins'" "json_ok val'"
    and "put_key D nt self' k val' ins' (run between c1) = (Inr v', rest', c2)"
    and "int (length prefs) < min (nd_r (run between c1 self')) (int (length prefs)) + min (nd_w (c self)) (int (length prefs))"
  shows "compare (ver_clock v') (ver_clock v) = Dominates \<and> reconcile [v] v' = [v']"
proof -
  let ?c = "run between c1"
  let ?th = "min (nd_r (?c self')) (int (length prefs))"
  obtain ms where ms: "distinct ms" "set ms \<subseteq> set prefs" "min (nd_w (c self)) (int (length prefs)) \<le> int (length ms)"
      "\<forall>m \<in> set ms. versions.covered (siblings (c1 m) k) v"
    using write_acked_on [OF assms(1-7)] by blast
  have ok1: "cluster_ok c1" using trace_ok [OF put_key_phases(1) [OF assms(1-6)] assms(3)] .
  have t: "trace A c1 ?c" using assms(9) by (rule trace_run)
  have ok: "cluster_ok ?c" using t ok1 by (rule trace_ok)
  have held: "\<forall>m \<in> set ms. versions.covered (siblings (?c m) k) v"
    using trace_covered [OF t ok1] assms(7) ms(4) by blast
  obtain merged c3 where rd: "merged_read nt self' ?th k (pi_reads ins') ?c = (Inr merged, c3)"
      and v': "v' = next_version self' val' merged" and mok: "siblings_ok merged"
    using write_acked_on [OF assms(14,10) ok assms(11,13,12,7)] by blast
  have inputs: "others_ok A (pi_reads ins')" "completes prefs (pi_reads ins')"
    using assms(12) by (auto simp: put_inputs_in_def)
  have "int (length prefs) < ?th + int (length ms)" using assms(15) ms(3) by linarith
  from read_sees [OF rd ok assms(11) inputs assms(7) ms(1,2) held assms(8) this]
  have "ver_clock v < ver_clock v'" unfolding v' using next_version_above_covered [OF mok] by blast
  then show ?thesis by (auto simp: reconcile_def less_vclock_def)
qed

theorem sequential_writes_ordered_witness:
  "\<exists>v rest c1 v' rest' c2.
     put_key bytes_of ex_net ''a'' ''k'' (JInt 1) (ex_put [''a'', ''b'', ''c'']) (ex_cluster 3) = (Inr v, rest, c1) \<and>
     put_key bytes_of ex_net ''a'' ''k'' (JInt 2) (ex_put [''a'', ''b'', ''c'']) (run [] c1) = (Inr v', rest', c2) \<and>
     compare (ver_clock v') (ver_clock v) = Dominates"
proof -
  let ?prefs = "[''a'', ''b'', ''c'']"
  obtain v rest c1 where put: "put_key bytes_of ex_net ''a'' ''k'' (JInt 1) (ex_put ?prefs) (ex_cluster 3) = (Inr v, rest, c1)"
    using ex_put_acks by blast
  have ok: "put_inputs_ok {} ?prefs (ex_put ?prefs)" by (rule ex_put_ok) simp
  have t: "trace {} (ex_cluster 3) (run [] c1)"
    using put_key_phases(1) [OF put ex_preference_list(1) ex_cluster_ok ex_wired _ ok] by simp
  obtain v' rest' c2 where put': "put_key bytes_of ex_net ''a'' ''k'' (JInt 2) (ex_put ?prefs) (run [] c1) = (Inr v', rest', c2)"
    using ex_put_acks_later [OF t, of 2] ex_put_gossip [OF put] by auto
  have prefs: "preference_list bytes_of (run [] c1 ''a'') ''k'' = Inr ?prefs"
    using ex_preference_list(1) [of "''a''"] trace_fields [OF t, of "''a''"] by (simp add: preference_list_def)
  have wired: "wired ex_net (run [] c1) ''a'' ''k''" using wired_trace [OF ex_wired t] by simp
  have sum: "int (length ?prefs) < min (nd_r (run [] c1 ''a'')) (int (length ?prefs)) +
      min (nd_w (ex_cluster 3 ''a'')) (int (length ?prefs))"
    using trace_fields [OF t, of "''a''"] by simp
  have "compare (ver_clock v') (ver_clock v) = Dominates \<and> reconcile [v] v' = [v']"
    by (rule sequential_writes_ordered [OF put ex_preference_list(1) ex_cluster_ok ex_wired _ ok _ _ _
        prefs wired ok _ put' sum]) simp_all
  then show ?thesis using put put' by blast
qed



end
