(* ===== verification/Handoff.thy ===== *)
theory Handoff
  imports Examples
begin

section \<open>Hinted handoff\<close>

text \<open>
  What happens to the replicas that a write does not reach, and to the hints when their recipient is
  back: \<open>_deliver_hint\<close>, the hint part of \<open>put\<close>, and \<open>_flush_hints_for\<close>. A replica is \<open>safe\<close> for a version
  when it holds the version (or one above it) or the hint holder has it pending for that replica.
\<close>

definition safe :: "node_id \<Rightarrow> key \<Rightarrow> version \<Rightarrow> cluster \<Rightarrow> node_id \<Rightarrow> bool" where
  "safe h k v c m \<longleftrightarrow> versions.covered (siblings (c m) k) v \<or> versions.covered (hinted (c h) m k) v"

text \<open>The destructive actions that would undo a write or its hints.\<close>

definition spares :: "action set \<Rightarrow> node_id \<Rightarrow> key \<Rightarrow> bool" where
  "spares A h k \<longleftrightarrow> (\<forall>i. kept A i k) \<and> (\<forall>t. HintClear h t k \<notin> A)"

lemma safe_trace:
  "trace A c c' \<Longrightarrow> cluster_ok c \<Longrightarrow> spares A h k \<Longrightarrow> safe h k v c m \<Longrightarrow> safe h k v c' m"
  using trace_covered [of A c c' m k v] trace_hinted [of A c c' h m k v] by (auto simp: safe_def spares_def)

lemma deliver_hint_hinted:
  assumes "cluster_ok c" "wired nt c self k" "version_ok v" "responds c self h dl" "dl = Delivered"
  shows "versions.covered (hinted (snd (deliver_hint nt self h m k v dl c) h) m k) v"
proof -
  have cov: "versions.covered (hinted (perform (HintAdd h m k v) c h) m k) v"
    using hinted_perform [OF assms(1), of "HintAdd h m k v" h m k] assms(3) versions.covered_ins_self
    by (simp del: perform.simps)
  have "snd (deliver_hint nt self h m k v dl c) = perform (HintAdd h m k v) c"
  proof (cases "h = self")
    case True
    then show ?thesis by (auto simp: deliver_hint_def split: sum.splits)
  next
    case False
    then obtain u where u: "peer_base_url (c self) h = Inr u"
      using assms(4) by (auto simp: responds_def peer_base_url_def)
    let ?req = "PutHint k m (ver_value v) (ver_clock v)"
    have "snd (deliver_hint nt self h m k v dl c) = c(h := snd (serve nt ?req (c h)))"
      using False u assms(5) http_send_delivered [OF wiredD(2) [OF assms(2) u], of ?req c]
      by (simp add: deliver_hint_def)
    also have "\<dots> = perform (HintAdd h m k v) c"
      unfolding serve_actions using wiredD(1) [OF assms(2) u] by simp
    finally show ?thesis .
  qed
  then show ?thesis using cov by simp
qed

lemma guarded_put_op_safe:
  assumes "cluster_ok c" "wired nt c self k" "version_ok v" "responds c self h Delivered" "snd d = Delivered"
    and "m \<noteq> h"
  shows "safe h k v (snd (guarded_put_op nt self (Some h) k v m d c)) m"
proof (cases "fst (put_op nt self k v m (fst d) c)")
  case (Inr b)
  then obtain c1 where op: "put_op nt self k v m (fst d) c = (Inr b, c1)" by (metis prod.collapse)
  then have "snd (guarded_put_op nt self (Some h) k v m d c) = c1"
    by (simp add: guarded_put_op_def)
  then show ?thesis using put_op_result [OF op assms(1-3)] by (simp add: safe_def)
next
  case (Inl e)
  let ?c = "snd (put_op nt self k v m (fst d) c)"
  have op: "put_op nt self k v m (fst d) c = (Inl e, ?c)" using Inl by (metis prod.collapse)
  have t: "trace {} c ?c" using assms(3) by (rule put_op_trace)
  have "snd (guarded_put_op nt self (Some h) k v m d c) = snd (deliver_hint nt self h m k v Delivered ?c)"
    unfolding guarded_put_op_def using assms(5,6)
    by (subst op) (simp add: case_prod_unfold split: option.splits)
  moreover have "versions.covered (hinted (snd (deliver_hint nt self h m k v Delivered ?c) h) m k) v"
    using trace_ok [OF t assms(1)] wired_trace [OF assms(2) t] assms(3,4) responds_trace [OF t]
    by (intro deliver_hint_hinted) simp_all
  ultimately show ?thesis by (simp add: safe_def)
qed

definition hint_reaches :: "(delivery \<times> delivery) completion list \<Rightarrow> bool" where
  "hint_reaches futures \<longleftrightarrow> (\<forall>(m, d, others) \<in> set futures. snd d = Delivered)"

text \<open>One completed future, with what others did before it.\<close>

lemma completion_safe:
  assumes "cluster_ok c" "wired nt c self k" "version_ok v" "responds c self h Delivered" "snd d = Delivered"
    and "m \<noteq> h" "\<forall>a \<in> set others. allowed A a"
  shows "trace A c (snd (guarded_put_op nt self (Some h) k v m d (run others c)))"
    and "safe h k v (snd (guarded_put_op nt self (Some h) k v m d (run others c))) m"
proof -
  have t: "trace A c (run others c)" using assms(7) by (rule trace_run)
  then show "trace A c (snd (guarded_put_op nt self (Some h) k v m d (run others c)))"
    using guarded_put_op_trace [OF assms(3)] trace_trans by blast
  show "safe h k v (snd (guarded_put_op nt self (Some h) k v m d (run others c))) m"
    using trace_ok [OF t assms(1)] wired_trace [OF assms(2) t] responds_trace [OF t] assms(3-6)
    by (intro guarded_put_op_safe) simp_all
qed

lemma stragglers_safe:
  "cluster_ok c \<Longrightarrow> wired nt c self k \<Longrightarrow> version_ok v \<Longrightarrow> responds c self h Delivered \<Longrightarrow> spares A h k \<Longrightarrow>
     others_ok A futures \<Longrightarrow> hint_reaches futures \<Longrightarrow> h \<notin> set (map fst futures) \<Longrightarrow>
     m \<in> set (map fst futures) \<Longrightarrow>
     safe h k v (stragglers (guarded_put_op nt self (Some h) k v) futures c) m"
proof (induction futures arbitrary: c)
  case (Cons f futures)
  obtain m' d others where f: "f = (m', d, others)" by (cases f)
  let ?c = "snd (guarded_put_op nt self (Some h) k v m' d (run others c))"
  have step: "trace A c ?c" "safe h k v ?c m'"
    using completion_safe [OF Cons.prems(1-4), of d m' others A] Cons.prems(6-8) f
    by (auto simp: hint_reaches_def)
  note ok = trace_ok [OF step(1) Cons.prems(1)]
  have fo: "others_ok A futures" using Cons.prems(6) f by simp
  show ?case
  proof (cases "m \<in> set (map fst futures)")
    case True
    then show ?thesis
      using Cons.IH [OF ok wired_trace [OF Cons.prems(2) step(1)] Cons.prems(3)] Cons.prems f
        responds_trace [OF step(1)] fo
      by (simp add: hint_reaches_def)
  next
    case False
    then have "m = m'" using Cons.prems(9) f by simp
    moreover have "trace A ?c (stragglers (guarded_put_op nt self (Some h) k v) futures ?c)"
      using write_stragglers [OF Cons.prems(3) fo] .
    ultimately show ?thesis using safe_trace ok Cons.prems(5) step(2) f by fastforce
  qed
qed simp

lemma quorum_safe:
  "cluster_ok c \<Longrightarrow> wired nt c self k \<Longrightarrow> version_ok v \<Longrightarrow> responds c self h Delivered \<Longrightarrow> spares A h k \<Longrightarrow>
     others_ok A futures \<Longrightarrow> hint_reaches futures \<Longrightarrow> h \<notin> set (map fst futures) \<Longrightarrow>
     quorum_op (guarded_put_op nt self (Some h) k v) th futures acc c = (succ, rest, c') \<Longrightarrow>
     \<exists>used. futures = used @ rest \<and> (\<forall>m \<in> set (map fst used). safe h k v c' m)"
proof (induction futures arbitrary: acc c)
  case (Cons f futures)
  obtain m' d others where f: "f = (m', d, others)" by (cases f)
  let ?r = "guarded_put_op nt self (Some h) k v m' d (run others c)"
  have step: "trace A c (snd ?r)" "safe h k v (snd ?r) m'"
    using completion_safe [OF Cons.prems(1-4), of d m' others A] Cons.prems(6-8) f
    by (auto simp: hint_reaches_def)
  note ok = trace_ok [OF step(1) Cons.prems(1)]
  have fo: "others_ok A futures" using Cons.prems(6) f by simp
  have rec: ?case if q: "quorum_op (guarded_put_op nt self (Some h) k v) th futures acc' (snd ?r) = (succ, rest, c')" for acc'
  proof -
    obtain used where "futures = used @ rest" "\<forall>m \<in> set (map fst used). safe h k v c' m"
      using Cons.IH [OF ok wired_trace [OF Cons.prems(2) step(1)] Cons.prems(3) _ Cons.prems(5) fo _ _ q]
        Cons.prems(4,7,8) f responds_trace [OF step(1)] by (auto simp: hint_reaches_def)
    moreover have "safe h k v c' m'"
      using safe_trace [OF _ ok Cons.prems(5) step(2)] write_trace [OF Cons.prems(3) fo q] by blast
    ultimately show ?thesis using f by (intro exI [of _ "f # used"]) simp
  qed
  show ?case
  proof (cases "fst ?r")
    case (Inl e)
    then show ?thesis using Cons.prems(9) f by (intro rec [of acc]) (cases ?r, simp)
  next
    case (Inr x)
    show ?thesis
    proof (cases "th \<le> int (length (acc @ [x]))")
      case True
      then have "rest = futures" "c' = snd ?r"
        using Cons.prems(9) f Inr by (cases ?r, simp add: Let_def)+
      then show ?thesis using step(2) f by (intro exI [of _ "[f]"]) simp
    next
      case False
      then show ?thesis using Cons.prems(9) f Inr
        by (intro rec [of "acc @ [x]"]) (cases ?r, simp add: Let_def)
    qed
  qed
qed simp

lemma hint_down_safe:
  "cluster_ok c \<Longrightarrow> wired nt c self k \<Longrightarrow> version_ok v \<Longrightarrow> responds c self h Delivered \<Longrightarrow> spares A h k \<Longrightarrow>
     fates_ok A fates \<Longrightarrow> \<forall>i. snd (fates i) = Delivered \<Longrightarrow> m \<in> set ms \<Longrightarrow>
     safe h k v (snd (hint_down nt self h k v fates i ms c)) m"
proof (induction ms arbitrary: c i)
  case (Cons m' ms)
  obtain before where f: "fates i = (before, Delivered)" using Cons.prems(7) by (metis prod.collapse)
  let ?c0 = "run before c"
  let ?r = "deliver_hint nt self h m' k v Delivered ?c0"
  have "\<forall>a \<in> set before. allowed A a" using Cons.prems(6) f by (auto simp: fates_in_def dest: spec [of _ i])
  then have t0: "trace A c ?c0" by (rule trace_run)
  note ok0 = trace_ok [OF t0 Cons.prems(1)] and wired0 = wired_trace [OF Cons.prems(2) t0]
  have t: "trace A c (snd ?r)" using t0 deliver_hint_trace [OF Cons.prems(3)] by (rule trace_trans)
  note ok = trace_ok [OF t Cons.prems(1)]
  have "safe h k v (snd ?r) m'"
    using deliver_hint_hinted [OF ok0 wired0 Cons.prems(3), of h Delivered m'] Cons.prems(4) responds_trace [OF t0]
    by (simp add: safe_def)
  moreover have "fst ?r = None" using deliver_hint_None [OF ok0 Cons.prems(3)] .
  then have "hint_down nt self h k v fates i (m' # ms) c = hint_down nt self h k v fates (i + 1) ms (snd ?r)"
    using f by (cases ?r) simp
  moreover have "trace A (snd ?r) (snd (hint_down nt self h k v fates (i + 1) ms (snd ?r)))"
    using Cons.prems(3,6) by (rule hint_down_trace)
  moreover have "safe h k v (snd (hint_down nt self h k v fates (i + 1) ms (snd ?r))) m" if "m \<in> set ms"
    using Cons.IH [OF ok wired_trace [OF Cons.prems(2) t] Cons.prems(3) _ Cons.prems(5-7) that]
      Cons.prems(4) responds_trace [OF t] by simp
  ultimately show ?case
    using safe_trace [OF _ ok Cons.prems(5)] Cons.prems(8) by (metis set_ConsD)
qed simp

subsection \<open>A whole write\<close>

lemma write_or_hint:
  assumes "cluster_ok c" "wired nt c self k" "json_ok val" "put_inputs_ok A prefs ins" "spares A h k"
    and "preference_list D (c self) k = Inr prefs"
    and "merged_read nt self (min (nd_r (c self)) (int (length prefs))) k (pi_reads ins) c = (Inr merged, c1)"
    and "get_preference_list D (nd_ring (c self)) k (int (length prefs) + 1) = Inr cands"
    and "find (\<lambda>m. m \<notin> set prefs) cands = Some h"
    and "set (write_targets nt self k prefs ins c) \<subseteq> set (map fst (pi_writes ins))"
    and "responds c self h Delivered" "\<forall>i. snd (pi_hints ins i) = Delivered" "hint_reaches (pi_writes ins)"
    and "put_key D nt self k val ins c = (res, rest, c')"
    and "m \<in> set prefs"
  shows "safe h k (next_version self val merged)
    (stragglers (guarded_put_op nt self (Some h) k (next_version self val merged)) rest c') m"
proof -
  define v where "v = next_version self val merged"
  define c2 where "c2 = run (pi_pause ins) c1"
  define c3 where "c3 = after_hints nt self (Some h) k v ins prefs c2"
  define ws where "ws = submitted (fst (partition_by_liveness (c2 self) (pi_now ins) prefs)) (pi_writes ins)"
  have targets: "write_targets nt self k prefs ins c = fst (partition_by_liveness (c2 self) (pi_now ins) prefs)"
    by (simp add: write_targets_def assms(7) c2_def)
  have inputs: "fates_ok A (pi_hints ins)" "others_ok A ws" "hint_reaches ws"
    using assms(4,13) unfolding ws_def by (auto simp: put_inputs_in_def others_in_submitted) (auto simp: hint_reaches_def submitted_def)
  note after = put_key_after_reads [OF assms(6,1,3,4,7,8), unfolded assms(9), folded v_def c2_def, folded c3_def ws_def]
  note v = after(1) and t2 = after(2) and t23 = after(3)
  note ok2 = trace_ok [OF t2 assms(1)] and wired2 = wired_trace [OF assms(2) t2]
  note ok3 = trace_ok [OF t23 ok2] and wired3 = wired_trace [OF wired2 t23]
  obtain results rest' c4 where q: "quorum_op (guarded_put_op nt self (Some h) k v)
      (min (nd_w (c self)) (int (length prefs))) ws [] c3 = (results, rest', c4)"
    by (metis prod_cases3)
  have rest: "rest' = rest" "c4 = c'" using after(4) [OF q] assms(14) by auto
  have resp: "responds c2 self h Delivered" "responds c3 self h Delivered"
    using assms(11) responds_trace [OF t2] responds_trace [OF t23] by simp_all
  have "h \<notin> set prefs" using assms(9) by (auto simp: find_Some_iff)
  then have hw: "h \<notin> set (map fst ws)" using assms(4) by (auto simp: put_inputs_in_def completes_def ws_def submitted_def)
  obtain used where used: "ws = used @ rest" "\<forall>m \<in> set (map fst used). safe h k v c' m"
    using quorum_safe [OF ok3 wired3 v resp(2) assms(5) inputs(2,3) hw q] rest by blast
  have rest_ok: "others_ok A rest" "hint_reaches rest" "h \<notin> set (map fst rest)"
    using inputs(2,3) hw used(1) by (auto simp: others_in_def hint_reaches_def)
  have t34: "trace A c3 c'" using write_trace [OF v inputs(2) q] rest by blast
  note ok4 = trace_ok [OF t34 ok3] and wired4 = wired_trace [OF wired3 t34]
  have resp4: "responds c' self h Delivered" using resp(2) responds_trace [OF t34] by simp
  have tail: "trace A c' (stragglers (guarded_put_op nt self (Some h) k v) rest c')"
    using write_stragglers [OF v rest_ok(1)] .
  consider "m \<in> set (map fst used)" | "m \<in> set (map fst rest)"
    | "m \<in> set (snd (partition_by_liveness (c2 self) (pi_now ins) prefs))"
  proof -
    have "set (map fst ws) = set (fst (partition_by_liveness (c2 self) (pi_now ins) prefs))"
      using assms(10) unfolding ws_def set_submitted targets by blast
    then show ?thesis using that assms(15) used(1) by (fastforce simp: partition_filter)
  qed
  then have "safe h k v (stragglers (guarded_put_op nt self (Some h) k v) rest c') m"
  proof cases
    case 1
    then show ?thesis using used(2) safe_trace [OF tail ok4 assms(5)] by blast
  next
    case 2
    then show ?thesis
      by (rule stragglers_safe [OF ok4 wired4 v resp4 assms(5) rest_ok])
  next
    case 3
    have "safe h k v c3 m"
      using hint_down_safe [OF ok2 wired2 v resp(1) assms(5) inputs(1) assms(12) 3] by (simp add: c3_def after_hints_def)
    then show ?thesis using safe_trace [OF trace_trans [OF t34 tail] ok3 assms(5)] by blast
  qed
  then show ?thesis by (simp only: v_def)
qed

subsection \<open>Flushing\<close>

definition flush_fates_in :: "(action \<Rightarrow> bool) \<Rightarrow> (nat \<Rightarrow> fate) \<Rightarrow> bool" where
  "flush_fates_in Q fates \<longleftrightarrow>
     (\<forall>i before dl after. fates i = (before, dl, after) \<longrightarrow> (\<forall>a \<in> set before \<union> set after. Q a))"

abbreviation flush_fates_ok :: "action set \<Rightarrow> (nat \<Rightarrow> fate) \<Rightarrow> bool" where
  "flush_fates_ok A \<equiv> flush_fates_in (allowed A)"

text \<open>The clearings that a flush of \<open>self\<close> for \<open>target\<close> may do.\<close>

definition own_clears :: "node_id \<Rightarrow> node_id \<Rightarrow> key set \<Rightarrow> action set" where
  "own_clears self target K = {HintClear self target k | k. k \<in> K}"

lemma kept_own_clears [simp]: "kept (own_clears self target K) i k"
  by (auto simp: kept_def own_clears_def)

text \<open>One request of a flush, up to the decision to clear.\<close>

lemma flush_step:
  assumes "cluster_ok c" "version_ok v" "net_host nt u = Some target" "flush_fates_ok A fates"
    and "fates i = (before, dl, after)"
    and "http_send nt dl u (PutKey k (ver_value v) (ver_clock v)) (run before c) = (res, c1)"
  shows "trace A c c1" "trace A c1 (run after c1)"
    and "\<exists>resp. res = Inr resp \<and> fst resp = 200 \<Longrightarrow> net_wire nt k = Some k \<Longrightarrow>
      versions.covered (siblings (c1 target) k) v"
    and "dl = Delivered \<Longrightarrow> net_wire nt k = Some k \<Longrightarrow> \<exists>resp. res = Inr resp \<and> fst resp = 200"
proof -
  let ?req = "PutKey k (ver_value v) (ver_clock v)"
  have al: "\<forall>a \<in> set before. allowed A a" "\<forall>a \<in> set after. allowed A a"
    using assms(4,5) by (auto simp: flush_fates_in_def)
  have t0: "trace A c (run before c)" using al(1) by (rule trace_run)
  note ok0 = trace_ok [OF t0 assms(1)]
  have "trace A (run before c) (snd (http_send nt dl u ?req (run before c)))"
    using request_ok_put(1) [OF spreads_allowed [OF assms(2)]] by (rule http_send_trace)
  then have "trace A (run before c) c1" using assms(6) by simp
  with t0 show "trace A c c1" by (rule trace_trans)
  show "trace A c1 (run after c1)" using al(2) by (rule trace_run)
  have cov: "versions.covered (siblings (perform (StorePut target k v) (run before c) target) k) v"
    using siblings_perform [OF ok0, of "StorePut target k v" target k] assms(2) versions.covered_ins_self
    by (simp del: perform.simps)
  show "versions.covered (siblings (c1 target) k) v"
    if "\<exists>resp. res = Inr resp \<and> fst resp = 200" "net_wire nt k = Some k"
  proof -
    note given = that
    obtain resp where "http_send nt dl u ?req (run before c) = (Inr resp, c1)" using given(1) assms(6) by auto
    then have "c1 = (run before c)(target := snd (serve nt ?req (run before c target)))"
      using http_send_Inr assms(3) by fastforce
    then have "c1 = perform (StorePut target k v) (run before c)"
      unfolding serve_actions using given(2) by simp
    then show ?thesis using cov by simp
  qed
  show "\<exists>resp. res = Inr resp \<and> fst resp = 200" if "dl = Delivered" "net_wire nt k = Some k"
  proof -
    have "fst (fst (serve nt ?req (run before c target))) = 200"
      using put_local_laws [OF cluster_okD [OF ok0] assms(2), of target k] that(2)
      by (auto simp: on_route_def put_key_local_def Let_def)
    moreover have "res = Inr (fst (serve nt ?req (run before c target)))"
      using http_send_delivered [OF assms(3), of ?req "run before c"] assms(6) that(1) by simp
    ultimately show ?thesis by blast
  qed
qed

lemma clear_hint_ok: "cluster_ok c \<Longrightarrow> \<exists>nd. clear_hint (c i) t k = Inr nd"
  using clear_hint_laws [OF cluster_okD] by blast

text \<open>The cases of one step: the hint was cleared after a 200, or nothing was cleared.\<close>

lemma flush_items_Cons:
  assumes "cluster_ok c" "version_ok v" "net_host nt u = Some target" "flush_fates_ok A fates"
    and "HintClear self target k \<in> B" "A \<subseteq> B"
  shows "\<exists>c2 c3. trace A c c2 \<and> trace B c2 c3 \<and>
      flush_items nt self target u fates i ((k, v) # items) c = flush_items nt self target u fates (i + 1) items c3 \<and>
      (c3 = c2 \<or> (net_wire nt k = Some k \<longrightarrow> kept A target k \<longrightarrow> versions.covered (siblings (c2 target) k) v)) \<and>
      (fst (snd (fates i)) = Delivered \<longrightarrow> net_wire nt k = Some k \<longrightarrow> kept A target k \<longrightarrow>
        versions.covered (siblings (c2 target) k) v) \<and>
      (c3 = c2 \<or> c3 = perform (HintClear self target k) c2)"
proof -
  obtain before dl after where f: "fates i = (before, dl, after)" by (cases "fates i")
  obtain res c1 where send: "http_send nt dl u (PutKey k (ver_value v) (ver_clock v)) (run before c) = (res, c1)"
    by (metis surj_pair)
  note step = flush_step [OF assms(1-4) f send]
  have ok1: "cluster_ok c1" using step(1) assms(1) by (rule trace_ok)
  let ?c2 = "run after c1"
  have t2: "trace A c ?c2" using step(1,2) by (rule trace_trans)
  note ok2 = trace_ok [OF t2 assms(1)]
  have keep: "versions.covered (siblings (?c2 target) k) v"
    if "versions.covered (siblings (c1 target) k) v" "kept A target k"
    using trace_covered [OF step(2) ok1 that(2,1)] .
  show ?thesis
  proof (cases "\<exists>resp. res = Inr resp \<and> fst resp = 200")
    case True
    then obtain body where res: "res = Inr (200, body)" by auto
    obtain nd where nd: "clear_hint (?c2 self) target k = Inr nd" using clear_hint_ok [OF ok2] by blast
    have p: "perform (HintClear self target k) ?c2 = ?c2(self := nd)" using nd by simp
    have "trace B ?c2 (?c2(self := nd))" using nd assms(5) by (rule clear_hint_trace)
    moreover have "flush_items nt self target u fates i ((k, v) # items) c =
        flush_items nt self target u fates (i + 1) items (?c2(self := nd))"
      using f send res nd by (simp add: Let_def)
    ultimately show ?thesis using t2 step(3) [OF True] keep p
      by (intro exI [of _ ?c2] exI [of _ "?c2(self := nd)"]) auto
  next
    case False
    show ?thesis
    proof (cases res)
      case (Inl e)
      have "flush_items nt self target u fates i ((k, v) # items) c =
          flush_items nt self target u fates (i + 1) items c1"
        using f send Inl by simp
      moreover have "dl = Delivered \<Longrightarrow> net_wire nt k = Some k \<Longrightarrow> False" using step(4) False by blast
      ultimately show ?thesis using step(1) f by (intro exI [of _ c1]) auto
    next
      case (Inr resp)
      then have "flush_items nt self target u fates i ((k, v) # items) c =
          flush_items nt self target u fates (i + 1) items ?c2"
        using f send False by (cases resp) (simp add: Let_def)
      moreover have "dl = Delivered \<Longrightarrow> net_wire nt k = Some k \<Longrightarrow> False" using step(4) False by blast
      ultimately show ?thesis using t2 f by (intro exI [of _ ?c2]) auto
    qed
  qed
qed

text \<open>The only version pending for a key is never lost: it stays pending until the target has it.\<close>

lemma flush_items_safe:
  assumes "net_host nt u = Some target" "flush_fates_ok A fates" "spares A self K" "net_wire nt K = Some K"
    and "\<forall>(k, v) \<in> set items. version_ok v \<and> (k = K \<longrightarrow> v = w)" "cluster_ok c" "safe self K w c target"
  shows "safe self K w (snd (flush_items nt self target u fates i items c)) target"
  using assms(5-7)
proof (induction items arbitrary: c i)
  case (Cons kv items)
  obtain k v where kv: "kv = (k, v)" by (cases kv)
  let ?B = "A \<union> own_clears self target {k}"
  obtain c2 c3 where t: "trace A c c2" "trace ?B c2 c3"
      and eq: "flush_items nt self target u fates i (kv # items) c = flush_items nt self target u fates (i + 1) items c3"
      and or: "c3 = c2 \<or> (net_wire nt k = Some k \<longrightarrow> kept A target k \<longrightarrow> versions.covered (siblings (c2 target) k) v)"
    using flush_items_Cons [where v = v and k = k and self = self and i = i and items = items and B = ?B,
        OF Cons.prems(2) _ assms(1,2)] Cons.prems(1) kv
    by (auto simp: own_clears_def)
  note ok2 = trace_ok [OF t(1) Cons.prems(2)]
  note ok3 = trace_ok [OF t(2) ok2]
  have s2: "safe self K w c2 target" using safe_trace [OF t(1) Cons.prems(2) assms(3) Cons.prems(3)] .
  have "safe self K w c3 target"
  proof (cases "k = K")
    case False
    then have "spares ?B self K" using assms(3) by (auto simp: spares_def own_clears_def)
    then show ?thesis using safe_trace [OF t(2) ok2 _ s2] by blast
  next
    case True
    then have v: "v = w" using Cons.prems(1) kv by auto
    have nd: "kept ?B target K" "kept A target K"
      using assms(3) by (auto simp: spares_def own_clears_def)
    show ?thesis
    proof (cases "c3 = c2")
      case False
      then have "versions.covered (siblings (c2 target) K) w" using or True v nd(2) assms(4) by blast
      then show ?thesis using trace_covered [OF t(2) ok2 nd(1)] by (simp add: safe_def)
    qed (use s2 in simp)
  qed
  then show ?case unfolding eq using Cons.IH [OF _ ok3] Cons.prems(1) by simp
qed simp

text \<open>When every request of the flush is delivered, the target ends up with every pending version.\<close>

lemma flush_items_delivered:
  assumes "net_host nt u = Some target" "flush_fates_ok A fates" "kept A target K" "net_wire nt K = Some K"
    and "\<forall>(k, v) \<in> set items. version_ok v" "\<forall>j. fst (snd (fates j)) = Delivered" "cluster_ok c"
    and "(K, w) \<in> set items \<or> versions.covered (siblings (c target) K) w"
  shows "versions.covered (siblings (snd (flush_items nt self target u fates i items c) target) K) w"
  using assms(5,7,8)
proof (induction items arbitrary: c i)
  case (Cons kv items)
  obtain k v where kv: "kv = (k, v)" by (cases kv)
  let ?B = "A \<union> own_clears self target {k}"
  obtain c2 c3 where t: "trace A c c2" "trace ?B c2 c3"
      and eq: "flush_items nt self target u fates i (kv # items) c = flush_items nt self target u fates (i + 1) items c3"
      and del: "fst (snd (fates i)) = Delivered \<longrightarrow> net_wire nt k = Some k \<longrightarrow> kept A target k \<longrightarrow>
        versions.covered (siblings (c2 target) k) v"
    using flush_items_Cons [where v = v and k = k and self = self and i = i and items = items and B = ?B,
        OF Cons.prems(2) _ assms(1,2)] Cons.prems(1) kv
    by (auto simp: own_clears_def)
  note ok2 = trace_ok [OF t(1) Cons.prems(2)]
  note ok3 = trace_ok [OF t(2) ok2]
  have nd: "kept ?B target K" using assms(3) by (auto simp: own_clears_def)
  have "(K, w) \<in> set items \<or> versions.covered (siblings (c2 target) K) w"
    using Cons.prems(3) del assms(3,4,6) kv trace_covered [OF t(1) Cons.prems(2) assms(3)] by auto
  then have "(K, w) \<in> set items \<or> versions.covered (siblings (c3 target) K) w"
    using trace_covered [OF t(2) ok2 nd] by blast
  then show ?case unfolding eq using Cons.IH [OF _ ok3] Cons.prems(1) by simp
qed simp

text \<open>What a flush starts from.\<close>

lemma pending_items:
  assumes "node_ok nd"
  shows "\<exists>d. hs_pending_for (nd_hints nd) t = Inr d \<and> pend_ok d \<and>
    (\<forall>k v. (k, v) \<in> set (concat (map (\<lambda>(k, vs). map (Pair k) vs) d)) \<longleftrightarrow> v \<in> set (hinted nd t k)) \<and>
    (\<forall>(k, v) \<in> set (concat (map (\<lambda>(k, vs). map (Pair k) vs) d)). version_ok v)"
proof -
  obtain d where d: "storage_ok (nd_hints nd)" "pend_ok d" "storage_map (nd_hints nd) t = row_of d"
    using node_ok_parts(2) [OF assms] by (rule hint_okE)
  have "v \<in> set (hinted nd t k) \<longleftrightarrow> (\<exists>vs. (k, vs) \<in> set d \<and> v \<in> set vs)" for k v
    using d(2) unfolding hinted_def hs_pending_row [OF d(1,3)]
    by (auto simp: dict_get_def pend_ok_def split: option.splits dest: map_of_SomeD)
  then show ?thesis using d hs_pending_for_row [OF d(1,3)]
    by (intro exI [of _ d]) (fastforce simp: pend_ok_def siblings_ok_def)
qed

lemma hinted_version_ok:
  assumes "node_ok nd" "v \<in> set (hinted nd t k)"
  shows "version_ok v"
proof -
  obtain d where "\<forall>k v. (k, v) \<in> set (concat (map (\<lambda>(k, vs). map (Pair k) vs) d)) \<longleftrightarrow> v \<in> set (hinted nd t k)"
      "\<forall>(k, v) \<in> set (concat (map (\<lambda>(k, vs). map (Pair k) vs) d)). version_ok v"
    using pending_items [OF assms(1)] by blast
  then show ?thesis using assms(2) by blast
qed

text \<open>
  A policy for actions under which hints travel: it admits a hint only if the hint may also be delivered.
  A flush then stays inside the policy, from any state whose hints may be delivered.
\<close>

locale hint_policy =
  fixes Q :: "action \<Rightarrow> bool" and nt :: net
  assumes sound: "Q a \<Longrightarrow> action_ok a"
    and hint: "Q (HintAdd i t k v) \<Longrightarrow> spreads Q nt k v"
begin

definition state_ok :: "cluster \<Rightarrow> bool" where
  "state_ok c \<longleftrightarrow> cluster_ok c \<and> (\<forall>i t k. \<forall>v \<in> set (hinted (c i) t k). spreads Q nt k v)"

lemma state_ok_steps:
  assumes "steps Q c c'" "state_ok c"
  shows "state_ok c'"
  using assms(1)
proof (induction rule: trace_induct)
  case refl
  then show ?case using assms(2) .
next
  case (step a d)
  then have ok: "cluster_ok d" "action_ok a" using sound by (simp_all add: state_ok_def)
  have "spreads Q nt k v" if new: "v \<in> set (hinted_after a i t k (hinted (d i) t k))" for i t k v
    using new step hint by (cases a) (auto simp: state_ok_def reconcile_def split: if_splits)
  then show ?case using perform_ok [OF ok] hinted_perform [OF ok] by (simp add: state_ok_def)
qed

lemma flush_items_steps:
  assumes "flush_fates_in Q fates" "\<And>k. Q (HintClear self target k)"
  shows "state_ok c \<Longrightarrow> \<forall>(k, v) \<in> set items. spreads Q nt k v \<Longrightarrow>
    steps Q c (snd (flush_items nt self target u fates i items c))"
proof (induction items arbitrary: c i)
  case (Cons kv items)
  obtain k v where kv: "kv = (k, v)" by (cases kv)
  obtain before dl after where f: "fates i = (before, dl, after)" by (cases "fates i")
  obtain res c1 where send: "http_send nt dl u (PutKey k (ver_value v) (ver_clock v)) (run before c) = (res, c1)"
    by (metis surj_pair)
  have al: "\<forall>a \<in> set before. Q a" "\<forall>a \<in> set after. Q a" using assms(1) f by (auto simp: flush_fates_in_def)
  have "spreads Q nt k v" using Cons.prems(2) kv by simp
  from http_send_trace [OF request_ok_put(1) [OF this]] send have "steps Q (run before c) c1" by (metis snd_conv)
  with trace_run [OF al(1)] have t1: "steps Q c c1" by (rule trace_trans)
  then have t2: "steps Q c (run after c1)" using trace_run [OF al(2)] by (rule trace_trans)
  have clear: "steps Q c ((run after c1)(self := nd))" if cl: "clear_hint (run after c1 self) target k = Inr nd" for nd
    using t2 clear_hint_steps [where Q = Q and c = "run after c1" and i = self, OF cl assms(2)] by (rule trace_trans)
  have rec: "steps Q c (snd (flush_items nt self target u fates (i + 1) items d))" if "steps Q c d" for d
    using that Cons.IH [OF state_ok_steps [OF that Cons.prems(1)]] Cons.prems(2) trace_trans by fastforce
  show ?case using kv f send t2 rec [OF t1] rec [OF t2] rec [OF clear] by (auto simp: Let_def split: sum.split)
qed simp

lemma flush_hints_for_steps:
  assumes "state_ok c" "flush_fates_in Q fates" "\<And>k. Q (HintClear self target k)"
  shows "steps Q c (snd (flush_hints_for nt self target fates c))"
proof -
  have "node_ok (c self)" using assms(1) by (simp add: state_ok_def cluster_okD)
  then obtain d where d: "hs_pending_for (nd_hints (c self)) target = Inr d"
      "\<forall>k v. (k, v) \<in> set (concat (map (\<lambda>(k, vs). map (Pair k) vs) d)) \<longleftrightarrow> v \<in> set (hinted (c self) target k)"
    using pending_items by blast
  have "\<forall>(k, v) \<in> set (concat (map (\<lambda>(k, vs). map (Pair k) vs) d)). spreads Q nt k v"
  proof clarify
    fix k v assume "(k, v) \<in> set (concat (map (\<lambda>(k, vs). map (Pair k) vs) d))"
    then show "spreads Q nt k v" using assms(1) d(2) by (simp add: state_ok_def)
  qed
  then have "steps Q c (snd (flush_items nt self target u fates 0 (concat (map (\<lambda>(k, vs). map (Pair k) vs) d)) c))" for u
    by (rule flush_items_steps [OF assms(2,3,1)])
  then show ?thesis using d(1) by (auto simp: flush_hints_for_def split: sum.split)
qed

end

text \<open>The operations of a node obey such a policy by themselves when it also admits what gossip does.\<close>

locale action_policy = hint_policy +
  assumes gossip: "Q (GossipTick i now)" "dict_ok table \<Longrightarrow> Q (GossipMerge i now table)"

interpretation permitted: action_policy "allowed A" nt for A nt
  by unfold_locales (auto simp: allowed_def spreads_def)

lemma permitted_state_ok: "permitted.state_ok A nt c \<longleftrightarrow> cluster_ok c"
  by (auto simp: permitted.state_ok_def intro: spreads_allowed hinted_version_ok cluster_okD)

lemma flush_hints_for_trace:
  assumes "cluster_ok c" "flush_fates_ok A fates" "A \<union> own_clears self target UNIV \<subseteq> B"
  shows "trace B c (snd (flush_hints_for nt self target fates c))"
proof (rule permitted.flush_hints_for_steps)
  show "flush_fates_ok B fates" using assms(2,3) allowed_mono [of A _ B] by (fastforce simp: flush_fates_in_def)
  show "allowed B (HintClear self target k)" for k using assms(3) by (auto simp: allowed_def own_clears_def)
qed (simp add: permitted_state_ok assms(1))

subsection \<open>Properties\<close>

text \<open>C7. No replica is forgotten by a write. Once a write has got past its reads and all its replica
  requests have completed (the stragglers too), every replica of the key holds the new version or
  the hint holder has it pending for that replica, whether the write was acknowledged or failed with
  503. This needs a node outside the preference list to hold the hints (with N equal to the number of
  nodes there is none), which answers every hint request, including the one of the coordinator for a
  replica believed down; and that in the meantime nobody deletes the key, clears the holder's hints for it,
  or has a \<open>put_local\<close> of it overtaken by another write of the row.\<close>

theorem no_replica_forgotten:
  assumes "cluster_ok c" "wired nt c self k" "json_ok val" "put_inputs_ok A prefs ins"
    and "\<forall>i. kept A i k" "\<forall>t. HintClear h t k \<notin> A"
    and "preference_list D (c self) k = Inr prefs"
    and "merged_read nt self (min (nd_r (c self)) (int (length prefs))) k (pi_reads ins) c = (Inr merged, c1)"
    and "get_preference_list D (nd_ring (c self)) k (int (length prefs) + 1) = Inr cands"
    and "find (\<lambda>m. m \<notin> set prefs) cands = Some h"
    and "set (write_targets nt self k prefs ins c) \<subseteq> set (map fst (pi_writes ins))"
    and "responds c self h Delivered" "\<forall>i. snd (pi_hints ins i) = Delivered" "hint_reaches (pi_writes ins)"
    and "put_key D nt self k val ins c = (res, rest, c')"
    and "m \<in> set prefs"
  shows "let v = next_version self val merged;
             c'' = stragglers (guarded_put_op nt self (Some h) k v) rest c'
         in (\<exists>u \<in> set (siblings (c'' m) k). dominates_or_equal (ver_clock u) (ver_clock v)) \<or>
            (\<exists>u \<in> set (hs_pending (nd_hints (c'' h)) m k). dominates_or_equal (ver_clock u) (ver_clock v))"
proof -
  have "spares A h k" using assms(5,6) by (simp add: spares_def)
  from write_or_hint [OF assms(1-4) this assms(7-16)] show ?thesis
    by (simp add: safe_def versions.covered_def hinted_def Let_def)
qed

text \<open>In the example, N = 2, \<open>b\<close> cannot be reached: the write fails with 503, and \<open>b\<close>'s copy is
  pending at \<open>c\<close>, the third node of the ring.\<close>

theorem no_replica_forgotten_witness:
  "\<exists>merged res rest c'.
     put_key bytes_of ex_net ''a'' ''k'' (JInt 1) ex_down_put (ex_cluster 2) = (res, rest, c') \<and>
     (let v = next_version ''a'' (JInt 1) merged;
          c'' = stragglers (guarded_put_op ex_net ''a'' (Some ''c'') ''k'' v) rest c'
      in (\<exists>u \<in> set (siblings (c'' ''b'') ''k''). dominates_or_equal (ver_clock u) (ver_clock v)) \<or>
         (\<exists>u \<in> set (hs_pending (nd_hints (c'' ''c'')) ''b'' ''k''). dominates_or_equal (ver_clock u) (ver_clock v)))"
proof -
  let ?c = "ex_cluster 2"
  obtain rd c1 where rd: "merged_read ex_net ''a'' (min (nd_r (?c ''a'')) (int (length [''a'', ''b'']))) ''k'' (pi_reads ex_down_put) ?c = (rd, c1)"
    by (metis surj_pair)
  have resp: "responding ?c ''a'' (pi_reads ex_down_put) = 2"
    by (simp add: responding_def ex_down_put_def responds_def ex_peers)
  have inputs: "put_inputs_ok {} [''a'', ''b''] ex_down_put" by (rule ex_down_put_ok)
  have reads_ok: "others_ok {} (pi_reads ex_down_put)" using inputs by (simp add: put_inputs_in_def)
  obtain merged where merged: "rd = Inr merged"
    using merged_read_result [where c = ?c and self = "''a''" and k = "''k''" and nt = ex_net and th = "min (nd_r (?c ''a'')) (int (length [''a'', ''b'']))",
        OF ex_cluster_ok ex_wired reads_ok] rd resp
    by (auto simp del: ex_cluster_sel simp: ex_config)
  have c1: "c1 = ?c" using rd by (rule merged_read_still) (simp add: ex_down_put_def)
  have live: "set (write_targets ex_net ''a'' ''k'' [''a'', ''b''] ex_down_put ?c) \<subseteq> set (map fst (pi_writes ex_down_put))"
    by (auto simp: write_targets_def ex_down_put_def partition_filter Let_def)
  have cands: "get_preference_list bytes_of (nd_ring (?c ''a'')) ''k'' (int (length [''a'', ''b'']) + 1) = Inr [''a'', ''b'', ''c'']"
    by (simp add: ex_prefs)
  have h: "find (\<lambda>m. m \<notin> set [''a'', ''b'']) [''a'', ''b'', ''c''] = Some ''c''" by simp
  obtain res rest c' where put: "put_key bytes_of ex_net ''a'' ''k'' (JInt 1) ex_down_put ?c = (res, rest, c')"
    by (metis prod_cases3)
  have holder: "responds ?c ''a'' ''c'' Delivered" by (simp add: responds_def ex_peers)
  have hints: "\<forall>i. snd (pi_hints ex_down_put i) = Delivered" "hint_reaches (pi_writes ex_down_put)"
    by (simp_all add: ex_down_put_def hint_reaches_def)
  have b: "''b'' \<in> set [''a'', ''b'']" by simp
  have spare: "\<forall>i. kept {} i ''k''" "\<forall>t. HintClear ''c'' t ''k'' \<notin> {}" and json: "json_ok (JInt 1)"
    by simp_all
  show ?thesis
    using put no_replica_forgotten [OF ex_cluster_ok ex_wired json inputs spare ex_preference_list(2)
        rd [unfolded merged] cands h live holder hints put b] by blast
qed

text \<open>C8. A flush never loses the only version that is pending for a key: whatever happens to its
  requests and whatever else runs, as long as nobody deletes the key or clears its hints and no
  \<open>put_local\<close> of it is overtaken, afterwards the target holds the version or it is still pending. And when every request is
  delivered, the target ends up with every version that was pending for the key.\<close>

theorem flush_keeps_single_hints:
  assumes "cluster_ok c" "wired nt c self k" "flush_fates_ok A fates"
    and "\<forall>i. kept A i k" "\<forall>t. HintClear self t k \<notin> A"
    and "hs_pending (nd_hints (c self)) target k = [v]"
  shows "let c' = snd (flush_hints_for nt self target fates c)
    in (\<exists>u \<in> set (siblings (c' target) k). dominates_or_equal (ver_clock u) (ver_clock v)) \<or>
       (\<exists>u \<in> set (hs_pending (nd_hints (c' self)) target k). dominates_or_equal (ver_clock u) (ver_clock v))"
proof -
  let ?c' = "snd (flush_hints_for nt self target fates c)"
  have spares: "spares A self k" using assms(4,5) by (simp add: spares_def)
  obtain d where d: "hs_pending_for (nd_hints (c self)) target = Inr d"
      "\<forall>k' w. (k', w) \<in> set (concat (map (\<lambda>(k, vs). map (Pair k) vs) d)) \<longleftrightarrow> w \<in> set (hinted (c self) target k')"
      "\<forall>(k, v) \<in> set (concat (map (\<lambda>(k, vs). map (Pair k) vs) d)). version_ok v"
    using pending_items [OF cluster_okD [OF assms(1)], of self target] by blast
  have start: "safe self k v c target"
    using assms(6) by (simp add: safe_def hinted_def versions.covered_def)
  have "safe self k v ?c' target"
  proof (cases "peer_base_url (c self) target")
    case (Inl e)
    then show ?thesis using d(1) start by (simp add: flush_hints_for_def)
  next
    case (Inr u)
    let ?items = "concat (map (\<lambda>(k, vs). map (Pair k) vs) d)"
    have "version_ok w \<and> (k' = k \<longrightarrow> w = v)" if "(k', w) \<in> set ?items" for k' w
    proof -
      have "w \<in> set (hinted (c self) target k')" using that d(2) by blast
      moreover have "version_ok w" using bspec [OF d(3) that] by simp
      ultimately show ?thesis using assms(6) by (auto simp: hinted_def)
    qed
    then have "\<forall>(k', w) \<in> set ?items. version_ok w \<and> (k' = k \<longrightarrow> w = v)" by blast
    then have "safe self k v (snd (flush_items nt self target u fates 0 ?items c)) target"
      by (rule flush_items_safe [OF wiredD(2) [OF assms(2) Inr] assms(3) spares wiredD(1) [OF assms(2) Inr] _ assms(1) start])
    then show ?thesis using d(1) Inr start by (simp add: flush_hints_for_def)
  qed
  then show ?thesis by (simp add: safe_def versions.covered_def hinted_def Let_def)
qed

theorem flush_keeps_single_hints_witness:
  "let c = perform (HintAdd ''a'' ''b'' ''k'' ex_v1) (ex_cluster 3);
       c' = snd (flush_hints_for ex_net ''a'' ''b'' (\<lambda>_. ([], ResponseLost, [])) c)
   in hs_pending (nd_hints (c ''a'')) ''b'' ''k'' = [ex_v1] \<and>
      ((\<exists>u \<in> set (siblings (c' ''b'') ''k''). dominates_or_equal (ver_clock u) (ver_clock ex_v1)) \<or>
       (\<exists>u \<in> set (hs_pending (nd_hints (c' ''a'')) ''b'' ''k''). dominates_or_equal (ver_clock u) (ver_clock ex_v1)))"
proof -
  let ?a = "HintAdd ''a'' ''b'' ''k'' ex_v1"
  let ?c = "perform ?a (ex_cluster 3)"
  have a: "action_ok ?a" by (simp add: ex_version_ok)
  have ok: "cluster_ok ?c" using perform_ok [OF ex_cluster_ok a] .
  have t: "trace {} (ex_cluster 3) ?c" using a by (intro trace_perform) (simp add: allowed_def)
  have wired: "wired ex_net ?c ''a'' ''k''" using ex_wired t by (rule wired_trace)
  have pending: "hs_pending (nd_hints (?c ''a'')) ''b'' ''k'' = [ex_v1]"
    using hinted_perform [OF ex_cluster_ok a, of 3 "''a''" "''b''" "''k''"] hs_pending_new [of "''b''" "''k''"]
    by (simp add: hinted_def reconcile_def)
  have fates: "flush_fates_ok {} (\<lambda>_. ([], ResponseLost, []))" by (simp add: flush_fates_in_def)
  have spare: "\<forall>i. kept {} i ''k''" "\<forall>t. HintClear ''a'' t ''k'' \<notin> {}" by simp_all
  show ?thesis
    unfolding Let_def
    using pending flush_keeps_single_hints [OF ok wired fates spare pending, unfolded Let_def] by blast
qed

text \<open>When every request of a flush is delivered, the target ends up with every version that was
  pending for it under the key.\<close>

theorem flush_delivers:
  assumes "cluster_ok c" "wired nt c self k" "flush_fates_ok A fates" "\<forall>i. kept A i k"
    and "\<forall>j. fst (snd (fates j)) = Delivered" "map_of (nd_peers (c self)) target = Some u"
    and "v \<in> set (hs_pending (nd_hints (c self)) target k)"
  shows "\<exists>w \<in> set (siblings (snd (flush_hints_for nt self target fates c) target) k).
    dominates_or_equal (ver_clock w) (ver_clock v)"
proof -
  obtain d where d: "hs_pending_for (nd_hints (c self)) target = Inr d"
      "\<forall>k' w. (k', w) \<in> set (concat (map (\<lambda>(k, vs). map (Pair k) vs) d)) \<longleftrightarrow> w \<in> set (hinted (c self) target k')"
      "\<forall>(k, v) \<in> set (concat (map (\<lambda>(k, vs). map (Pair k) vs) d)). version_ok v"
    using pending_items [OF cluster_okD [OF assms(1)], of self target] by blast
  have u: "peer_base_url (c self) target = Inr u" using assms(6) by (simp add: peer_base_url_def)
  have v: "(k, v) \<in> set (concat (map (\<lambda>(k, vs). map (Pair k) vs) d))" using d(2) assms(7) by (simp add: hinted_def)
  have nd: "kept A target k" using assms(4) by blast
  have "versions.covered (siblings (snd (flush_items nt self target u fates 0
      (concat (map (\<lambda>(k, vs). map (Pair k) vs) d)) c) target) k) v"
    using v by (intro flush_items_delivered [OF wiredD(2) [OF assms(2) u] assms(3) nd wiredD(1) [OF assms(2) u] d(3)
          assms(5,1)]) blast
  moreover have "d \<noteq> []" using v by auto
  ultimately show ?thesis using d(1) u by (simp add: flush_hints_for_def versions.covered_def)
qed

theorem flush_delivers_witness:
  "\<exists>w \<in> set (siblings (snd (flush_hints_for ex_net ''a'' ''b'' (\<lambda>_. ([], Delivered, []))
      (perform (HintAdd ''a'' ''b'' ''k'' ex_v1) (ex_cluster 3))) ''b'') ''k'').
     dominates_or_equal (ver_clock w) (ver_clock ex_v1)"
proof -
  let ?a = "HintAdd ''a'' ''b'' ''k'' ex_v1"
  let ?c = "perform ?a (ex_cluster 3)"
  have a: "action_ok ?a" by (simp add: ex_version_ok)
  have ok: "cluster_ok ?c" using perform_ok [OF ex_cluster_ok a] .
  have t: "trace {} (ex_cluster 3) ?c" using a by (intro trace_perform) (simp add: allowed_def)
  have wired: "wired ex_net ?c ''a'' ''k''" using ex_wired t by (rule wired_trace)
  have pending: "ex_v1 \<in> set (hs_pending (nd_hints (?c ''a'')) ''b'' ''k'')"
    using hinted_perform [OF ex_cluster_ok a, of 3 "''a''" "''b''" "''k''"] hs_pending_new [of "''b''" "''k''"]
    by (simp add: hinted_def reconcile_def)
  have peer: "map_of (nd_peers (?c ''a'')) ''b'' = Some (ex_url ''b'')"
    using trace_fields(2) [OF t, of "''a''"] by (simp add: ex_peers)
  have fates: "flush_fates_ok {} (\<lambda>_. ([], Delivered, []))" by (simp add: flush_fates_in_def)
  have del: "\<forall>i. kept {} i ''k''" "\<forall>j :: nat. fst (snd ([], Delivered, [])) = Delivered" by simp_all
  show ?thesis by (rule flush_delivers [OF ok wired fates del peer pending])
qed

text \<open>With two concurrent versions pending for one key, the first delivery clears the whole key:
  if the second request then fails, the second version is gone, neither at the target nor pending.\<close>

theorem flush_drops_second_sibling:
  assumes "cluster_ok c" "wired nt c self k" "version_ok v"
    and "hs_pending_for (nd_hints (c self)) target = Inr [(k, [v, w])]"
    and "map_of (nd_peers (c self)) target = Some u" "siblings (c target) k = []"
    and "fates 0 = ([], Delivered, [])" "fates 1 = ([], Unreachable, [])" "target \<noteq> self"
  shows "let c' = snd (flush_hints_for nt self target fates c)
    in siblings (c' target) k = [v] \<and> hs_pending (nd_hints (c' self)) target k = []"
proof -
  have u: "peer_base_url (c self) target = Inr u" using assms(5) by (simp add: peer_base_url_def)
  note host = wiredD(2) [OF assms(2) u] and wire = wiredD(1) [OF assms(2) u]
  let ?req = "PutKey k (ver_value v) (ver_clock v)"
  let ?c1 = "perform (StorePut target k v) c"
  let ?c2 = "perform (HintClear self target k) ?c1"
  obtain s where s: "put_local (c target) k v = Inr ((c target)\<lparr>nd_storage := s\<rparr>)"
    using put_local_laws [OF cluster_okD [OF assms(1)] assms(3), of target k] by blast
  then obtain body where send: "http_send nt Delivered u ?req c = (Inr (200, body), ?c1)"
    using http_send_delivered [OF host, of ?req c] wire
    by (simp add: on_route_def put_key_local_def Let_def)
  have ok1: "cluster_ok ?c1" using perform_ok [OF assms(1), of "StorePut target k v"] assms(3) by simp
  obtain nd where nd: "clear_hint (?c1 self) target k = Inr nd" using clear_hint_ok [OF ok1] by blast
  have un: "http_send nt Unreachable u req c' = (Inl HTTPError, c')" for req c'
    using host by (simp add: http_send_def)
  have flush: "snd (flush_hints_for nt self target fates c) = ?c2"
    using assms(4,7,8) u send nd un by (simp add: flush_hints_for_def Let_def del: perform.simps) simp
  have "siblings (?c1 target) k = [v]"
    using siblings_perform [OF assms(1), of "StorePut target k v" target k] assms(3,6)
    by (simp add: reconcile_def del: perform.simps)
  then have "siblings (?c2 target) k = [v]"
    using siblings_perform [OF ok1, of "HintClear self target k" target k] by (simp del: perform.simps)
  moreover have "hinted (?c2 self) target k = []"
    using hinted_perform [OF ok1, of "HintClear self target k" self target k] by (simp del: perform.simps)
  ultimately show ?thesis unfolding flush Let_def hinted_def by blast
qed

theorem flush_drops_second_sibling_witness:
  "let c = run [HintAdd ''a'' ''b'' ''k'' ex_v1, HintAdd ''a'' ''b'' ''k'' ex_v2] (ex_cluster 3);
       fates = (\<lambda>i. if i = 0 then ([], Delivered, []) else ([], Unreachable, []));
       c' = snd (flush_hints_for ex_net ''a'' ''b'' fates c)
   in hs_pending_for (nd_hints (c ''a'')) ''b'' = Inr [(''k'', [ex_v1, ex_v2])] \<and>
      compare (ver_clock ex_v1) (ver_clock ex_v2) = Concurrent \<and>
      siblings (c' ''b'') ''k'' = [ex_v1] \<and> hs_pending (nd_hints (c' ''a'')) ''b'' ''k'' = []"
proof -
  let ?as = "[HintAdd ''a'' ''b'' ''k'' ex_v1, HintAdd ''a'' ''b'' ''k'' ex_v2]"
  let ?c = "run ?as (ex_cluster 3)"
  let ?fates = "\<lambda>i :: nat. if i = 0 then ([], Delivered, []) else ([] :: action list, Unreachable, [] :: action list)"
  have t: "trace {} (ex_cluster 3) ?c"
    by (rule trace_run) (simp add: allowed_def ex_version_ok)
  have ok: "cluster_ok ?c" using t ex_cluster_ok by (rule trace_ok)
  have wired: "wired ex_net ?c ''a'' ''k''" using ex_wired t by (rule wired_trace)
  have conc: "compare (ver_clock ex_v1) (ver_clock ex_v2) = Concurrent"
    by (simp add: ex_v1_def ex_v2_def compare_def vc_get_def dict_get_def)
  then have two: "reconcile [ex_v1] ex_v2 = [ex_v1, ex_v2]"
    by (auto simp: reconcile_def compare_Concurrent less_vclock_def)
  have pending: "hs_pending_for (nd_hints (?c ''a'')) ''b'' = Inr [(''k'', [ex_v1, ex_v2])]"
    using two by (simp add: add_hint_def hs_add_def hs_load_def hs_save_def hs_pending_for_def memory_get_def memory_put_def
        memory_new_def dict_get_def reconcile_def versions_of_json_def siblings_json_def)
  have peer: "map_of (nd_peers (?c ''a'')) ''b'' = Some (ex_url ''b'')"
    using trace_fields(2) [OF t, of "''a''"] by (simp add: ex_peers)
  have empty: "siblings (?c ''b'') ''k'' = []"
    by (simp add: siblings_def get_local_def memory_get_def memory_new_def split: sum.splits)
  have "siblings (snd (flush_hints_for ex_net ''a'' ''b'' ?fates ?c) ''b'') ''k'' = [ex_v1] \<and>
      hs_pending (nd_hints (snd (flush_hints_for ex_net ''a'' ''b'' ?fates ?c) ''a'')) ''b'' ''k'' = []"
    using flush_drops_second_sibling [OF ok wired ex_version_ok(1) pending peer empty, of ?fates]
    unfolding Let_def by simp
  then show ?thesis unfolding Let_def using pending conc by blast
qed

end
