(* ===== verification/Operations.thy ===== *)
theory Operations
  imports Consistency Handoff
begin

section \<open>Whole operations: interleaving, deletes and anomalies\<close>

text \<open>
  That every public operation and every gossip round is a list of atomic actions, so that the actions
  of others in the other theorems stand for any interleaving of such operations and every reachable
  state satisfies the invariant; the exact effect of an undisturbed delete and read; and the runs in
  which an acknowledged write is lost.
\<close>

subsection \<open>Gossip rounds are actions\<close>

definition gossip_inputs_in :: "(action \<Rightarrow> bool) \<Rightarrow> gossip_inputs \<Rightarrow> bool" where
  "gossip_inputs_in Q gi \<longleftrightarrow>
     (\<forall>a \<in> set (gi_before gi) \<union> set (gi_after gi). Q a) \<and> (\<forall>m. flush_fates_in Q (gi_fates gi m))"

abbreviation gossip_inputs_ok :: "action set \<Rightarrow> gossip_inputs \<Rightarrow> bool" where
  "gossip_inputs_ok A \<equiv> gossip_inputs_in (allowed A)"

lemma table_roundtrip: "table_of_json (JObj [(''table'', table_json t)]) = Inr t"
  by (simp add: table_of_json_def subscript_def table_json_def)

context hint_policy begin

lemma flush_live_steps:
  assumes "\<And>m. flush_fates_in Q (fates m)" "\<And>m k. Q (HintClear self m k)"
  shows "state_ok c \<Longrightarrow> steps Q c (snd (flush_live nt self now fates ms c))"
proof (induction ms arbitrary: c)
  case (Cons m ms)
  let ?r = "flush_hints_for nt self m (fates m) c"
  have t: "steps Q c (snd ?r)" using Cons.prems assms by (rule flush_hints_for_steps)
  have rec: "steps Q c (snd (flush_live nt self now fates ms c))" using Cons.IH Cons.prems .
  have later: "steps Q c (snd (flush_live nt self now fates ms (snd ?r)))"
    using t Cons.IH [OF state_ok_steps [OF t Cons.prems]] by (rule trace_trans)
  show ?case
    using rec later t by (cases ?r; cases "fst ?r") auto
qed simp

end

context action_policy begin

lemma gossip_dict: "state_ok c \<Longrightarrow> dict_ok (to_wire (nd_gossip (c self)))"
  unfolding state_ok_def by (auto intro: dict_ok_to_wire node_ok_parts(3) [OF cluster_okD])

lemma exchange_steps:
  assumes "state_ok c" "gossip_inputs_in Q gi"
  shows "steps Q c (snd (exchange nt self gi c))"
proof (cases "peer_base_url (c self) (gi_choice gi)")
  case (Inl e)
  then show ?thesis by (simp add: exchange_def)
next
  case (Inr u)
  let ?req = "PostGossip self (to_wire (nd_gossip (c self))) (gi_received gi)"
  let ?c0 = "run (gi_before gi) c"
  obtain res c1 where send: "http_send nt (gi_delivery gi) u ?req ?c0 = (res, c1)" by (metis surj_pair)
  have al: "\<forall>a \<in> set (gi_before gi). Q a" "\<forall>a \<in> set (gi_after gi). Q a"
    using assms(2) by (auto simp: gossip_inputs_in_def)
  have t0: "steps Q c ?c0" using al(1) by (rule trace_run)
  have "request_ok Q nt ?req" using gossip(2) [OF gossip_dict [OF assms(1)]] by (simp add: request_ok_def)
  then have "steps Q ?c0 (snd (http_send nt (gi_delivery gi) u ?req ?c0))" by (rule http_send_trace)
  then have t1: "steps Q c c1" using t0 send trace_trans by fastforce
  let ?c2 = "run (gi_after gi) c1"
  have t2: "steps Q c ?c2" using t1 trace_run [OF al(2)] by (rule trace_trans)
  show ?thesis
  proof (cases res)
    case (Inl e)
    then show ?thesis using Inr send t1 by (simp add: exchange_def)
  next
    case Res: (Inr resp)
    obtain m where m: "resp = fst (serve nt ?req (?c0 m))"
      using http_send_Inr [OF send [unfolded Res]] by blast
    define g where "g = merge_wire (gi_received gi) (to_wire (nd_gossip (c self))) (nd_gossip (?c0 m))"
    have resp: "resp = (200, JObj [(''table'', table_json (to_wire g))])"
      unfolding m by (simp add: gossip_endpoint_def handle_gossip_def Let_def g_def)
    have "cluster_ok ?c0" using state_ok_steps [OF t0 assms(1)] by (simp add: state_ok_def)
    then have "gossip_ok (nd_gossip (?c0 m))" by (intro node_ok_parts(3) cluster_okD)
    then have "dict_ok (to_wire g)" unfolding g_def by (intro dict_ok_to_wire gossip_ok_merge_wire)
    then have "steps Q ?c2 (perform (GossipMerge self (gi_merge gi) (to_wire g)) ?c2)"
      by (intro trace_perform gossip(2))
    moreover have "snd (exchange nt self gi c) = perform (GossipMerge self (gi_merge gi) (to_wire g)) ?c2"
      using Inr send Res by (simp add: exchange_def resp table_roundtrip Let_def handle_gossip_def)
    ultimately show ?thesis using t2 trace_trans by metis
  qed
qed

lemma gossip_round_steps:
  assumes "state_ok c" "gossip_inputs_in Q gi" "\<And>m k. Q (HintClear self m k)"
  shows "steps Q c (snd (gossip_round nt self gi c))"
proof -
  have "cluster_ok c" using assms(1) by (simp add: state_ok_def)
  then have "gossip_ok (nd_gossip (c self))" by (intro node_ok_parts(3) cluster_okD)
  then obtain g where g: "tick (gi_tick gi) (nd_gossip (c self)) = Inr g" using tick_ok by blast
  define c1 where "c1 = perform (GossipTick self (gi_tick gi)) c"
  have c1: "c1 = c(self := (c self)\<lparr>nd_gossip := g\<rparr>)" using g by (simp add: c1_def)
  have t1: "steps Q c c1" unfolding c1_def by (rule trace_perform) (rule gossip(1))
  define ex where "ex = (if nd_peers (c1 self) \<noteq> [] then exchange nt self gi c1 else (None, c1))"
  have "steps Q c1 (snd ex)"
    using exchange_steps [OF state_ok_steps [OF t1 assms(1)] assms(2)] by (simp add: ex_def)
  with t1 have t2: "steps Q c (snd ex)" by (rule trace_trans)
  let ?flush = "snd (flush_live nt self (gi_now gi) (gi_fates gi) (map fst (nd_peers (snd ex self))) (snd ex))"
  have "steps Q (snd ex) ?flush"
    using assms(2) by (intro flush_live_steps assms(3) state_ok_steps [OF t2 assms(1)]) (simp add: gossip_inputs_in_def)
  with t2 have t3: "steps Q c ?flush" by (rule trace_trans)
  have "snd (gossip_round nt self gi c) = (case fst ex of Some e \<Rightarrow> snd ex | None \<Rightarrow> ?flush)"
    unfolding gossip_round_def g sum.case Let_def c1 [symmetric] ex_def [symmetric]
    by (simp add: case_prod_unfold split: option.splits)
  then show ?thesis using t2 t3 by (cases "fst ex") simp_all
qed

end

lemma exchange_trace:
  "cluster_ok c \<Longrightarrow> gossip_inputs_ok A gi \<Longrightarrow> trace A c (snd (exchange nt self gi c))"
  by (rule permitted.exchange_steps) (simp_all add: permitted_state_ok)

lemma gossip_round_trace:
  assumes "cluster_ok c" "gossip_inputs_ok A gi" "\<forall>m. own_clears self m UNIV \<subseteq> A"
  shows "trace A c (snd (gossip_round nt self gi c))"
  using assms by (intro permitted.gossip_round_steps) (auto simp: permitted_state_ok allowed_def own_clears_def)

subsection \<open>Undisturbed reads and deletes\<close>

definition quiet :: "'d completion list \<Rightarrow> bool" where
  "quiet futures \<longleftrightarrow> (\<forall>(m, d, others) \<in> set futures. others = [])"

lemma quiet_Cons: "quiet ((m, d, others) # futures) \<longleftrightarrow> others = [] \<and> quiet futures"
  by (simp add: quiet_def)

text \<open>The replicas whose answers a quorum operation counts: the first ones that respond.\<close>

definition responders :: "cluster \<Rightarrow> node_id \<Rightarrow> delivery completion list \<Rightarrow> node_id list" where
  "responders c self futures = map fst (filter (\<lambda>(m, dl, _). responds c self m dl) futures)"

lemma get_op_fails:
  assumes "cluster_ok c" "wired nt c self k" "\<not> responds c self m dl"
  shows "\<exists>e. get_op nt self k m dl c = (Inl e, c)"
proof -
  obtain e where "fst (get_op nt self k m dl c) = Inl e"
    using get_op_iff [OF assms(1,2), of m dl] assms(3) by (cases "fst (get_op nt self k m dl c)") auto
  then show ?thesis using get_op_cluster [of nt self k m dl c] by (metis prod.collapse)
qed

lemma quorum_reads_quiet:
  assumes "cluster_ok c" "wired nt c self k"
  shows "quiet futures \<Longrightarrow> length acc < nat th \<Longrightarrow>
    fst (quorum_op (get_op nt self k) th futures acc c) =
      acc @ map (\<lambda>m. siblings (c m) k) (take (nat th - length acc) (responders c self futures))"
proof (induction futures arbitrary: acc)
  case Nil
  then show ?case by (simp add: responders_def)
next
  case (Cons f futures)
  obtain m dl where f: "f = (m, dl, [])" and q: "quiet futures"
    using Cons.prems(1) by (cases f) (auto simp: quiet_Cons)
  show ?case
  proof (cases "responds c self m dl")
    case False
    then obtain e where "get_op nt self k m dl c = (Inl e, c)" using get_op_fails [OF assms] by blast
    then show ?thesis using Cons.IH [OF q Cons.prems(2)] False f by (simp add: responders_def)
  next
    case True
    then have op: "get_op nt self k m dl c = (Inr (siblings (c m) k), c)"
      by (intro get_op_responds [OF assms]) (auto simp: responds_def)
    have rs: "responders c self (f # futures) = m # responders c self futures"
      using True f by (simp add: responders_def)
    show ?thesis
    proof (cases "th \<le> int (length (acc @ [siblings (c m) k]))")
      case last: True
      then have "nat th - length acc = 1" using Cons.prems(2) by simp
      then show ?thesis using op last f rs by (simp add: Let_def)
    next
      case False
      then have lt: "length (acc @ [siblings (c m) k]) < nat th" by simp
      then have "nat th - length acc = Suc (nat th - length (acc @ [siblings (c m) k]))" by simp
      then show ?thesis using op False f rs Cons.IH [OF q lt] by (simp add: Let_def)
    qed
  qed
qed

definition reached :: "cluster \<Rightarrow> node_id \<Rightarrow> node_id \<Rightarrow> delivery \<Rightarrow> bool" where
  "reached c self m dl \<longleftrightarrow> m = self \<or> (map_of (nd_peers (c self)) m \<noteq> None \<and> dl \<noteq> Unreachable)"

lemma delete_op_effect:
  assumes "cluster_ok c" "wired nt c self k"
  shows "delete_op nt self k m dl c =
    (if responds c self m dl then Inr (siblings (c m) k \<noteq> [])
     else Inl (if map_of (nd_peers (c self)) m = None then RuntimeError else HTTPError),
     if reached c self m dl then perform (StoreDelete m k) c else c)"
proof (cases "m = self")
  case True
  obtain s where "delete_local (c self) k = (siblings (c self) k \<noteq> [], (c self)\<lparr>nd_storage := s\<rparr>)"
    using delete_local_laws [OF cluster_okD [OF assms(1)], of self k] by blast
  then show ?thesis using True by (simp add: delete_op_def responds_def reached_def)
next
  case False
  show ?thesis
  proof (cases "map_of (nd_peers (c self)) m")
    case None
    then show ?thesis using False by (simp add: delete_op_def responds_def reached_def peer_base_url_def)
  next
    case (Some u)
    then have u: "peer_base_url (c self) m = Inr u" by (simp add: peer_base_url_def)
    note host = wiredD(2) [OF assms(2) u] and wire = wiredD(1) [OF assms(2) u]
    obtain s where "delete_local (c m) k = (siblings (c m) k \<noteq> [], (c m)\<lparr>nd_storage := s\<rparr>)"
      using delete_local_laws [OF cluster_okD [OF assms(1)], of m k] by blast
    then show ?thesis using False Some u host wire
      by (cases dl) (simp_all add: delete_op_def responds_def reached_def http_send_def on_route_def delete_key_local_def)
  qed
qed

definition deleted_at :: "cluster \<Rightarrow> node_id \<Rightarrow> delivery completion list \<Rightarrow> node_id set" where
  "deleted_at c self futures = {m. \<exists>dl others. (m, dl, others) \<in> set futures \<and> reached c self m dl}"

lemma quorum_deletes_quiet:
  "cluster_ok c \<Longrightarrow> wired nt c self k \<Longrightarrow> quiet futures \<Longrightarrow>
     quorum_op (delete_op nt self k) th futures acc c = (succ, rest, c') \<Longrightarrow>
     \<exists>used. futures = used @ rest \<and>
       (\<forall>m k'. siblings (c' m) k' = (if k' = k \<and> m \<in> deleted_at c self used then [] else siblings (c m) k'))"
proof (induction futures arbitrary: acc c)
  case Nil
  then show ?case by (auto simp: deleted_at_def)
next
  case (Cons f futures)
  obtain m dl where f: "f = (m, dl, [])" and q: "quiet futures"
    using Cons.prems(3) by (cases f) (auto simp: quiet_Cons)
  define c1 where "c1 = snd (delete_op nt self k m dl c)"
  have c1: "c1 = (if reached c self m dl then perform (StoreDelete m k) c else c)"
    unfolding c1_def by (simp add: delete_op_effect [OF Cons.prems(1,2)])
  have t: "trace {StoreDelete m k} c c1" unfolding c1 using delete_local_trace [of m k "{StoreDelete m k}" c] by simp
  note ok1 = trace_ok [OF t Cons.prems(1)] and wired1 = wired_trace [OF Cons.prems(2) t]
  have sib: "siblings (c1 m') k' = (if k' = k \<and> m' \<in> deleted_at c self [f] then [] else siblings (c m') k')" for m' k'
    using siblings_perform [OF Cons.prems(1), of "StoreDelete m k" m' k'] f
    by (auto simp: c1 deleted_at_def simp del: perform.simps)
  have reached1: "reached c1 self = reached c self"
    by (auto simp: reached_def fun_eq_iff trace_fields [OF t])
  have rec: ?case if again: "quorum_op (delete_op nt self k) th futures acc' c1 = (succ, rest, c')" for acc'
  proof -
    obtain used where "futures = used @ rest"
        "\<forall>m k'. siblings (c' m) k' = (if k' = k \<and> m \<in> deleted_at c1 self used then [] else siblings (c1 m) k')"
      using Cons.IH [OF ok1 wired1 q again] by blast
    then show ?thesis using f sib
      by (intro exI [of _ "f # used"]) (auto simp: deleted_at_def reached1)
  qed
  have step: "delete_op nt self k m dl c = (fst (delete_op nt self k m dl c), c1)" by (simp add: c1_def)
  show ?case
  proof (cases "fst (delete_op nt self k m dl c)")
    case (Inl e)
    then show ?thesis using Cons.prems(4) f step by (intro rec [of acc]) simp
  next
    case (Inr x)
    show ?thesis
    proof (cases "th \<le> int (length (acc @ [x]))")
      case True
      then have "rest = futures" "c' = c1" using Cons.prems(4) f step Inr by (simp_all add: Let_def)
      then show ?thesis using sib by (intro exI [of _ "[f]"]) simp
    next
      case False
      then show ?thesis using Cons.prems(4) f step Inr
        by (intro rec [of "acc @ [x]"]) (simp add: Let_def)
    qed
  qed
qed

subsection \<open>Properties\<close>

text \<open>Every public operation and every gossip round, with all its requests, failures and hints, is a
  sequence of atomic actions of single nodes, whatever others do in between, and so keeps the
  cluster's invariant: every stored sibling list and every pending hint list is a non-empty list of
  pairwise concurrent versions. Reads, writes and gossip delete no data.\<close>

lemma operations_are_action_sequences:
  assumes "cluster_ok c" "wired nt c self k" "preference_list D (c self) k = Inr prefs"
    and "others_ok A futures" "put_inputs_ok A prefs ins" "json_ok val" "gossip_inputs_ok A gi"
    and "\<forall>t k'. HintClear self t k' \<in> A"
  shows "trace A c (snd (get_key D nt self k futures c)) \<and>
    trace A c (snd (snd (put_key D nt self k val ins c))) \<and>
    trace A c (snd (gossip_round nt self gi c)) \<and>
    trace (A \<union> {StoreDelete m k | m. True}) c (snd (snd (delete_key D nt self k futures c))) \<and>
    cluster_ok (snd (get_key D nt self k futures c)) \<and>
    cluster_ok (snd (snd (put_key D nt self k val ins c))) \<and>
    cluster_ok (snd (gossip_round nt self gi c)) \<and>
    cluster_ok (snd (snd (delete_key D nt self k futures c)))"
proof -
  let ?B = "A \<union> {StoreDelete m k | m. True}"
  obtain rd c1 where rd: "merged_read nt self (min (nd_r (c self)) (int (length prefs))) k futures c = (rd, c1)"
    by (metis surj_pair)
  obtain results rest where "quorum_op (get_op nt self k) (min (nd_r (c self)) (int (length prefs))) futures [] c =
      (results, rest, c1)"
    using rd by (auto simp: merged_read_def split: prod.splits)
  then have "trace A c c1" using read_trace [OF assms(4)] by blast
  then have get: "trace A c (snd (get_key D nt self k futures c))"
    unfolding get_key_merged [OF assms(3) rd] by simp
  obtain res prest c2 where put_eq: "put_key D nt self k val ins c = (res, prest, c2)" by (metis prod_cases3)
  have put: "trace A c (snd (snd (put_key D nt self k val ins c)))"
    using put_key_phases(1) [OF put_eq assms(3,1,2,6,5)] put_eq by simp
  have gossip: "trace A c (snd (gossip_round nt self gi c))"
    using assms(1,7,8) by (intro gossip_round_trace) (auto simp: own_clears_def)
  have del_ok: "removes (allowed ?B) nt k" using assms(2) by (auto simp: wired_def removes_def allowed_def)
  have others: "others_ok ?B futures" using assms(4) by (fastforce simp: others_in_def allowed_def)
  obtain results' rest' c3 where q: "quorum_op (delete_op nt self k) (min (nd_w (c self)) (int (length prefs))) futures [] c =
      (results', rest', c3)"
    by (metis prod_cases3)
  have "trace ?B c c3" using delete_trace [OF del_ok others q] by blast
  then have del: "trace ?B c (snd (snd (delete_key D nt self k futures c)))"
    using assms(3) q by (simp add: delete_key_def)
  show ?thesis using get put gossip del trace_ok [OF _ assms(1)] by blast
qed

lemma operations_are_action_sequences_example:
  "let gi = \<lparr>gi_tick = 1, gi_choice = ''b'', gi_before = [], gi_delivery = Delivered, gi_received = 1,
      gi_after = [], gi_merge = 1, gi_now = 1, gi_fates = (\<lambda>_ _. ([], Delivered, []))\<rparr>
   in cluster_ok (snd (gossip_round ex_net ''a'' gi (ex_cluster 3))) \<and>
      cluster_ok (snd (snd (put_key bytes_of ex_net ''a'' ''k'' (JInt 1) (ex_put [''a'', ''b'', ''c'']) (ex_cluster 3))))"
proof -
  let ?A = "{HintClear ''a'' t k' | t k'. True}"
  let ?gi = "\<lparr>gi_tick = 1, gi_choice = ''b'', gi_before = [], gi_delivery = Delivered, gi_received = 1,
      gi_after = [], gi_merge = 1, gi_now = 1, gi_fates = (\<lambda>_ _. ([], Delivered, []))\<rparr>"
  have gi: "gossip_inputs_ok ?A ?gi" by (simp add: gossip_inputs_in_def flush_fates_in_def)
  have ins: "put_inputs_ok ?A [''a'', ''b'', ''c''] (ex_put [''a'', ''b'', ''c''])" by (rule ex_put_ok) simp
  have side: "others_ok ?A ([] :: delivery completion list)" "json_ok (JInt 1)" "\<forall>t k'. HintClear ''a'' t k' \<in> ?A"
    by auto
  show ?thesis
    unfolding Let_def
    using operations_are_action_sequences [OF ex_cluster_ok ex_wired ex_preference_list(1) side(1) ins side(2) gi side(3)]
    by blast
qed

text \<open>An undisturbed read: the answers that count, and their reconciliation.\<close>

lemma quiet_get:
  assumes "cluster_ok c" "wired nt c self k" "preference_list D (c self) k = Inr prefs" "quiet futures"
    and "0 < nd_r (c self)" "prefs \<noteq> []" "th = nat (min (nd_r (c self)) (int (length prefs)))"
    and "answers = take th (responders c self futures)"
    and "merged = reconcile_all [] (concat (map (\<lambda>m. siblings (c m) k) answers))"
  shows "fst (get_key D nt self k futures c) =
    (if length answers < th then Inl (Raised (HTTPException 503))
     else if merged = [] then Inl (Raised (HTTPException 404))
     else if length merged = 1 then Inr (hd merged)
     else Inl (Conflict merged))"
proof -
  let ?th = "min (nd_r (c self)) (int (length prefs))"
  have th: "0 < nat ?th" using assms(5,6) by simp
  obtain succ rest c' where q: "quorum_op (get_op nt self k) ?th futures [] c = (succ, rest, c')"
    by (metis prod_cases3)
  have succ: "succ = map (\<lambda>m. siblings (c m) k) (take (nat ?th) (responders c self futures))"
    using quorum_reads_quiet [OF assms(1,2,4), of "[]" ?th] th q by simp
  have rd: "merged_read nt self ?th k futures c =
      (if int (length succ) < ?th then Inl (HTTPException 503)
       else Inr (reconcile_all [] (concat succ)), c')"
    using q by (simp add: merged_read_def reconcile_all_def foldl_foldl)
  have "int (length succ) < ?th \<longleftrightarrow> length succ < nat ?th" using th by linarith
  then show ?thesis
    unfolding get_key_merged [OF assms(3) rd] assms(7-9) succ by simp
qed

text \<open>C12. An undisturbed read returns the reconciliation of what the first \<open>min(R, len(prefs))\<close> responding
  replicas hold, in the order of their answers: the version when exactly one survives, a conflict
  with all survivors when several do, 404 when these replicas hold nothing, and 503 when fewer
  respond.\<close>

theorem get_is_reconciliation_of_responders:
  assumes "cluster_ok c" "wired nt c self k" "preference_list D (c self) k = Inr prefs" "quiet futures"
    and "0 < nd_r (c self)" "prefs \<noteq> []"
  shows "let th = nat (min (nd_r (c self)) (int (length prefs)));
             answers = take th (responders c self futures);
             merged = reconcile_all [] (concat (map (\<lambda>m. siblings (c m) k) answers))
         in fst (get_key D nt self k futures c) =
              (if length answers < th then Inl (Raised (HTTPException 503))
               else if merged = [] then Inl (Raised (HTTPException 404))
               else if length merged = 1 then Inr (hd merged)
               else Inl (Conflict merged))"
  unfolding Let_def by (rule quiet_get [OF assms refl refl refl])

theorem get_is_reconciliation_of_responders_witness:
  "let c = run [StorePut ''a'' ''k'' ex_v1, StorePut ''c'' ''k'' ex_v2] (ex_cluster 3)
   in fst (get_key bytes_of ex_net ''b'' ''k'' [(''c'', Delivered, []), (''b'', Delivered, []), (''a'', Delivered, [])] c) = Inr ex_v2"
proof -
  let ?as = "[StorePut ''a'' ''k'' ex_v1, StorePut ''c'' ''k'' ex_v2]"
  let ?c = "run ?as (ex_cluster 3)"
  let ?f = "[(''c'', Delivered, []), (''b'', Delivered, []), (''a'', Delivered, [])]"
  have t1: "cluster_ok (perform (StorePut ''a'' ''k'' ex_v1) (ex_cluster 3))"
    using perform_ok [OF ex_cluster_ok, of "StorePut ''a'' ''k'' ex_v1"] by (simp add: ex_version_ok)
  have t: "trace {} (ex_cluster 3) ?c" by (rule trace_run) (simp add: allowed_def ex_version_ok)
  have empty: "siblings (ex_cluster 3 m) ''k'' = []" for m by (simp add: ex_empty)
  have sib: "siblings (?c ''c'') ''k'' = [ex_v2]" "siblings (?c ''b'') ''k'' = []"
    using siblings_perform [OF t1, of "StorePut ''c'' ''k'' ex_v2"]
      siblings_perform [OF ex_cluster_ok, of "StorePut ''a'' ''k'' ex_v1"] empty
    by (simp_all add: ex_version_ok reconcile_def del: perform.simps)
  have prefs: "preference_list bytes_of (?c ''b'') ''k'' = Inr [''a'', ''b'', ''c'']"
    using ex_preference_list(1) [of "''b''"] trace_fields [OF t, of "''b''"] by (simp add: preference_list_def)
  have quiet: "quiet ?f" by (simp add: quiet_def)
  have rs: "responders ?c ''b'' ?f = [''c'', ''b'', ''a'']"
    by (simp add: responders_def responds_def trace_fields [OF t] ex_peers del: run_simps)
  have r: "nd_r (?c ''b'') = 2" using trace_fields [OF t, of "''b''"] by simp
  show ?thesis
    using get_is_reconciliation_of_responders [OF trace_ok [OF t ex_cluster_ok] wired_trace [OF ex_wired t] prefs quiet]
    unfolding Let_def rs r by (simp add: sib reconcile_all_def reconcile_def numeral_2_eq_2 del: run_simps)
qed

text \<open>C13. An undisturbed delete removes the key at exactly the replicas that its completed requests
  reached, also when the response was lost, and changes nothing else; a replica it did not reach
  keeps its versions, and no record of the delete is left anywhere.\<close>

theorem delete_effect:
  assumes "cluster_ok c" "wired nt c self k" "preference_list D (c self) k = Inr prefs" "quiet futures"
    and "delete_key D nt self k futures c = (res, rest, c')"
  shows "\<exists>used. futures = used @ rest \<and>
    (\<forall>m k'. siblings (c' m) k' = (if k' = k \<and> m \<in> deleted_at c self used then [] else siblings (c m) k'))"
proof -
  obtain results where "quorum_op (delete_op nt self k) (min (nd_w (c self)) (int (length prefs))) futures [] c =
      (results, rest, c')"
    using assms(3,5) by (auto simp: delete_key_def split: prod.splits)
  then show ?thesis using quorum_deletes_quiet [OF assms(1,2,4)] by blast
qed

theorem delete_effect_witness:
  "let c = run [StorePut ''a'' ''k'' ex_v1, StorePut ''b'' ''k'' ex_v1] (ex_cluster 3);
       futures = [(''a'', Delivered, []), (''c'', Unreachable, []), (''b'', ResponseLost, [])];
       r = delete_key bytes_of ex_net ''a'' ''k'' futures c
   in \<exists>used. futures = used @ fst (snd r) \<and>
        (\<forall>m k'. siblings (snd (snd r) m) k' =
          (if k' = ''k'' \<and> m \<in> deleted_at c ''a'' used then [] else siblings (c m) k'))"
proof -
  let ?c = "run [StorePut ''a'' ''k'' ex_v1, StorePut ''b'' ''k'' ex_v1] (ex_cluster 3)"
  let ?f = "[(''a'', Delivered, []), (''c'', Unreachable, []), (''b'', ResponseLost, [])]"
  have t: "trace {} (ex_cluster 3) ?c" by (rule trace_run) (simp add: allowed_def ex_version_ok)
  have prefs: "preference_list bytes_of (?c ''a'') ''k'' = Inr [''a'', ''b'', ''c'']"
    using ex_preference_list(1) [of "''a''"] trace_fields [OF t, of "''a''"] by (simp add: preference_list_def)
  have quiet: "quiet ?f" by (simp add: quiet_def)
  obtain res rest c' where r: "delete_key bytes_of ex_net ''a'' ''k'' ?f ?c = (res, rest, c')" by (metis prod_cases3)
  show ?thesis
    unfolding Let_def
    using delete_effect [OF trace_ok [OF t ex_cluster_ok] wired_trace [OF ex_wired t] prefs quiet r] unfolding r fst_conv snd_conv .
qed










end
