(* ===== verification/Attacks.thy ===== *)
theory Attacks
  imports Operations
begin

section \<open>Runs of a calm cluster, and an attacker on the internal port\<close>

text \<open>
  What the live scenarios 4, 5 and 6 of \<open>scripts/adversarial_scenarios.py\<close> do to a cluster: client
  requests through a coordinator while every replica answers, and requests that somebody with a node's
  certificate sends straight to the internal endpoints. \<open>calm\<close> says that nothing else is going on: every
  replica of the key is a reachable peer and believed up. \<open>settled_put\<close> is a client's put whose
  stragglers have completed before the next request, \<open>send_to\<close> an internal request to one node.

  The lemmas give the exact effect of a settled put, of an internal request, and of a read in a calm
  cluster.
\<close>

definition calm :: "(string \<Rightarrow> bytes) \<Rightarrow> net \<Rightarrow> node_id \<Rightarrow> key \<Rightarrow> real \<Rightarrow> node_id list \<Rightarrow> cluster \<Rightarrow> bool" where
  "calm D nt self k now prefs c \<longleftrightarrow>
     cluster_ok c \<and> wired nt c self k \<and> preference_list D (c self) k = Inr prefs \<and>
     ring_ok D (nd_ring (c self)) \<and> ring_nodes (nd_ring (c self)) \<noteq> {} \<and>
     distinct prefs \<and> prefs \<noteq> [] \<and> 0 < nd_r (c self) \<and> 0 < nd_w (c self) \<and>
     (\<forall>m \<in> set prefs. responds c self m Delivered \<and> \<not> believed_down (nd_gossip (c self)) m now (nd_timeout (c self)))"

definition all_answer :: "node_id list \<Rightarrow> delivery completion list" where
  "all_answer prefs = map (\<lambda>m. (m, Delivered, [])) prefs"

definition calm_puts :: "real \<Rightarrow> node_id list \<Rightarrow> node_id list \<Rightarrow> put_inputs" where
  "calm_puts now rs ws =
     \<lparr>pi_reads = all_answer rs, pi_pause = [], pi_now = now, pi_hints = (\<lambda>_. ([], Delivered)),
      pi_writes = map (\<lambda>m. (m, (Delivered, Delivered), [])) ws\<rparr>"

definition calm_inputs :: "real \<Rightarrow> node_id list \<Rightarrow> put_inputs" where
  "calm_inputs now prefs = calm_puts now prefs prefs"

definition holder_of :: "(string \<Rightarrow> bytes) \<Rightarrow> node_id \<Rightarrow> key \<Rightarrow> node_id list \<Rightarrow> cluster \<Rightarrow> node_id option" where
  "holder_of D self k prefs c =
     (case get_preference_list D (nd_ring (c self)) k (int (length prefs) + 1) of
        Inl e \<Rightarrow> None
      | Inr candidates \<Rightarrow> find (\<lambda>m. m \<notin> set prefs) candidates)"

definition settled_put ::
  "(string \<Rightarrow> bytes) \<Rightarrow> net \<Rightarrow> node_id \<Rightarrow> key \<Rightarrow> json \<Rightarrow> real \<Rightarrow> node_id list \<Rightarrow> cluster \<Rightarrow> (py_error + version) \<times> cluster" where
  "settled_put D nt self k val now prefs c =
     (case put_key D nt self k val (calm_inputs now prefs) c of
        (Inl e, rest, c') \<Rightarrow> (Inl e, c')
      | (Inr v, rest, c') \<Rightarrow> (Inr v, stragglers (guarded_put_op nt self (holder_of D self k prefs c) k v) rest c'))"

definition send_to :: "net \<Rightarrow> request \<Rightarrow> node_id \<Rightarrow> cluster \<Rightarrow> cluster" where
  "send_to nt req m c = c(m := snd (serve nt req (c m)))"

definition all_hold :: "node_id list \<Rightarrow> key \<Rightarrow> version list \<Rightarrow> cluster \<Rightarrow> bool" where
  "all_hold prefs k vs c \<longleftrightarrow> (\<forall>m \<in> set prefs. siblings (c m) k = vs)"

subsection \<open>Storage actions keep a cluster calm\<close>

fun store_action :: "action \<Rightarrow> bool" where
  "store_action (StorePut i k v) = version_ok v"
| "store_action (StoreDelete i k) = True"
| "store_action _ = False"

lemma store_action_ok: "store_action a \<Longrightarrow> action_ok a"
  by (cases a) simp_all

lemma store_action_gossip: "store_action a \<Longrightarrow> nd_gossip (perform a c i) = nd_gossip (c i)"
  by (cases a) (auto simp: put_local_def delete_local_def Let_def split: sum.splits prod.splits)

lemma calm_perform:
  assumes "calm D nt self k now prefs c" "store_action a"
  shows "calm D nt self k now prefs (perform a c)"
proof -
  have t: "trace (range (\<lambda>(i, k). StoreDelete i k)) c (perform a c)"
    using assms(2) by (intro trace_perform) (cases a; auto simp: allowed_def)
  note f = trace_fields [OF t, of self]
  show ?thesis
    using assms(1) f trace_ok [OF t] wired_trace [OF _ t] store_action_gossip [OF assms(2), of c self]
      responds_trace [OF t]
    by (simp add: calm_def preference_list_def del: perform.simps)
qed

lemma calm_run: "calm D nt self k now prefs c \<Longrightarrow> \<forall>a \<in> set as. store_action a \<Longrightarrow> calm D nt self k now prefs (run as c)"
  by (induction as arbitrary: c) (simp_all add: calm_perform del: perform.simps)

lemma calm_ok: "calm D nt self k now prefs c \<Longrightarrow> cluster_ok c"
  by (simp add: calm_def)

definition puts :: "key \<Rightarrow> version \<Rightarrow> node_id list \<Rightarrow> action list" where
  "puts k v ms = map (\<lambda>m. StorePut m k v) ms"

lemma siblings_puts:
  assumes "cluster_ok c" "version_ok v" "distinct ms"
  shows "siblings (run (puts k v ms) c m) k' =
    (if k' = k \<and> m \<in> set ms then reconcile (siblings (c m) k) v else siblings (c m) k')"
  using assms
proof (induction ms arbitrary: c)
  case (Cons x xs)
  have ok: "cluster_ok (perform (StorePut x k v) c)"
    using perform_ok [OF Cons.prems(1)] Cons.prems(2) by (simp del: perform.simps)
  show ?case
    using Cons.IH [OF ok Cons.prems(2)] Cons.prems(3) siblings_perform [OF Cons.prems(1), of "StorePut x k v"] Cons.prems(2)
    by (auto simp: puts_def simp del: perform.simps)
qed (simp add: puts_def)

subsection \<open>One replica, one quorum\<close>

lemma put_op_delivered:
  assumes "cluster_ok c" "wired nt c self k" "version_ok v" "responds c self m Delivered"
  shows "put_op nt self k v m Delivered c = (Inr True, perform (StorePut m k v) c)"
proof (cases "m = self")
  case True
  then show ?thesis using put_local_laws [OF cluster_okD [OF assms(1)] assms(3), of self k] by (auto simp: put_op_def)
next
  case False
  then obtain u where u: "peer_base_url (c self) m = Inr u"
    using assms(4) by (auto simp: responds_def peer_base_url_def)
  note host = wiredD(2) [OF assms(2) u] and wire = wiredD(1) [OF assms(2) u]
  obtain s where "put_local (c m) k v = Inr ((c m)\<lparr>nd_storage := s\<rparr>)"
    using put_local_laws [OF cluster_okD [OF assms(1)] assms(3), of m k] by blast
  then show ?thesis using False u host wire
    by (simp add: put_op_def http_send_def on_route_def put_key_local_def Let_def)
qed

text \<open>
  A quorum operation whose calls all succeed with the same result, each by one atomic action: when the
  stragglers are done, every action has run, and enough results were collected before.
\<close>

lemma stragglers_acts:
  assumes "\<And>m ms c. P (m # ms) c \<Longrightarrow> op m d c = (Inr r, perform (act m) c) \<and> P ms (perform (act m) c)"
  shows "P ms c \<Longrightarrow> stragglers op (map (\<lambda>m. (m, d, [])) ms) c = run (map act ms) c"
  by (induction ms arbitrary: c) (simp_all add: assms del: perform.simps)

lemma quorum_acts:
  assumes step: "\<And>m ms c. P (m # ms) c \<Longrightarrow> op m d c = (Inr r, perform (act m) c) \<and> P ms (perform (act m) c)"
  shows "P ms c \<Longrightarrow> quorum_op op th (map (\<lambda>m. (m, d, [])) ms) acc c = (succ, rest, c') \<Longrightarrow>
    stragglers op rest c' = run (map act ms) c \<and>
    (\<exists>j. succ = acc @ replicate j r \<and> (ms \<noteq> [] \<longrightarrow> 0 < j)) \<and> min th (int (length acc + length ms)) \<le> int (length succ)"
proof (induction ms arbitrary: c acc)
  case (Cons m ms)
  let ?c1 = "perform (act m) c" and ?futures = "map (\<lambda>m. (m, d, [])) ms"
  note op = conjunct1 [OF step [OF Cons.prems(1)]] and P1 = conjunct2 [OF step [OF Cons.prems(1)]]
  show ?case
  proof (cases "th \<le> int (length (acc @ [r]))")
    case True
    then have "rest = ?futures" "c' = ?c1" "succ = acc @ [r]"
      using Cons.prems(2) op by (simp_all add: Let_def del: perform.simps)
    moreover have "\<exists>j. [r] = replicate j r \<and> 0 < j" by (intro exI [of _ 1]) simp
    ultimately show ?thesis using stragglers_acts [where P = P and act = act and op = op and d = d and r = r, OF step P1] True by (simp del: perform.simps)
  next
    case False
    then have "quorum_op op th ?futures (acc @ [r]) ?c1 = (succ, rest, c')"
      using Cons.prems(2) op by (simp add: Let_def del: perform.simps)
    from Cons.IH [OF P1 this]
    obtain j where j: "stragglers op rest c' = run (map act ms) ?c1" "succ = (acc @ [r]) @ replicate j r"
        "min th (int (length (acc @ [r]) + length ms)) \<le> int (length succ)"
      by blast
    then have "succ = acc @ replicate (Suc j) r" by simp
    then show ?thesis using j(1,3) by (intro conjI exI [of _ "Suc j"]) (simp_all del: perform.simps)
  qed
qed (auto intro: exI [of _ 0])

lemma quorum_puts:
  assumes "calm D nt self k now prefs c" "version_ok v" "set ms \<subseteq> set prefs"
    and "quorum_op (guarded_put_op nt self h k v) th (map (\<lambda>m. (m, (Delivered, Delivered), [])) ms) acc c = (succ, rest, c')"
  shows "stragglers (guarded_put_op nt self h k v) rest c' = run (puts k v ms) c \<and> min th (int (length acc + length ms)) \<le> int (length succ)"
proof -
  have step: "guarded_put_op nt self h k v m (Delivered, Delivered) c = (Inr True, perform (StorePut m k v) c) \<and>
      calm D nt self k now prefs (perform (StorePut m k v) c) \<and> set ms \<subseteq> set prefs"
    if "calm D nt self k now prefs c \<and> set (m # ms) \<subseteq> set prefs" for m ms c
  proof -
    have "put_op nt self k v m Delivered c = (Inr True, perform (StorePut m k v) c)"
      using that assms(2) by (intro put_op_delivered) (auto simp: calm_def)
    then show ?thesis using that assms(2) by (simp add: guarded_put_op_def calm_perform del: perform.simps)
  qed
  show ?thesis
    using quorum_acts [where P = "\<lambda>ms c. calm D nt self k now prefs c \<and> set ms \<subseteq> set prefs" and act = "\<lambda>m. StorePut m k v"
          and op = "guarded_put_op nt self h k v" and r = True,
        OF step _ assms(4)] assms(1,3)
    by (simp add: puts_def)
qed

lemma fold_same: "vs = [] \<or> (\<exists>u. vs = [u]) \<Longrightarrow> 0 < n \<Longrightarrow> foldl reconcile [] (concat (replicate n vs)) = vs"
proof -
  assume vs: "vs = [] \<or> (\<exists>u. vs = [u])" and n: "0 < n"
  have same: "foldl reconcile [u] (concat (replicate m [u])) = [u]" for u :: version and m
    by (induction m) (simp_all add: reconcile_def compare_Equal)
  obtain m where "n = Suc m" using n by (cases n) auto
  then show ?thesis using vs same by (auto simp: reconcile_def)
qed

lemma calm_read_any:
  assumes "calm D nt self k now prefs c" "all_hold prefs k vs c" "vs = [] \<or> (\<exists>u. vs = [u])" "set ms = set prefs" "distinct ms"
  shows "merged_read nt self (min (nd_r (c self)) (int (length prefs))) k (all_answer ms) c = (Inr vs, c)"
proof -
  let ?th = "min (nd_r (c self)) (int (length prefs))"
  have ok: "cluster_ok c" "wired nt c self k" and len: "0 < length prefs" and r: "0 < nd_r (c self)"
    and resp: "\<forall>m \<in> set ms. responds c self m Delivered"
    using assms(1,4) by (simp_all add: calm_def)
  have "distinct prefs" using assms(1) by (simp add: calm_def)
  then have "length ms = length prefs" using assms(4,5) by (metis distinct_card)
  then have th: "0 < nat ?th" "nat ?th \<le> length ms" using len r by auto
  have rs: "responders c self (all_answer ms) = ms"
    using resp by (induction ms) (simp_all add: responders_def all_answer_def)
  have quiet: "quiet (all_answer ms)" by (auto simp: quiet_def all_answer_def)
  obtain succ rest c' where q: "quorum_op (get_op nt self k) ?th (all_answer ms) [] c = (succ, rest, c')"
    by (metis prod_cases3)
  have c': "c' = c" by (rule quorum_reads_still [OF _ q]) (auto simp: all_answer_def)
  have "succ = map (\<lambda>m. siblings (c m) k) (take (nat ?th) ms)"
    using quorum_reads_quiet [OF ok quiet, of "[]" ?th] th q rs by simp
  also have "\<dots> = replicate (nat ?th) vs"
    using assms(2,4) th(2) by (intro replicate_eqI) (auto simp: all_hold_def dest: in_set_takeD)
  finally have "foldl (foldl reconcile) [] succ = vs" "length succ = nat ?th"
    using fold_same [OF assms(3) th(1)] by (simp_all add: foldl_foldl)
  then show ?thesis using q c' th by (simp add: merged_read_def)
qed

lemma calm_read:
  assumes "calm D nt self k now prefs c" "all_hold prefs k vs c" "vs = [] \<or> (\<exists>u. vs = [u])"
  shows "merged_read nt self (min (nd_r (c self)) (int (length prefs))) k (all_answer prefs) c = (Inr vs, c)"
  using assms by (intro calm_read_any [OF assms refl]) (simp add: calm_def)

text \<open>
  A put in a calm cluster whose replicas agree: once its stragglers are done it has stored the new
  version at the replicas whose requests completed, in whatever order.
\<close>

lemma calm_put_effect:
  assumes "calm D nt self k now prefs c" "all_hold prefs k vs c" "vs = [] \<or> (\<exists>u. vs = [u])" "json_ok val"
    and rs: "set rs = set prefs" "distinct rs"
    and ws: "set ws \<subseteq> set prefs" "min (nd_w (c self)) (int (length prefs)) \<le> int (length ws)"
  defines "v \<equiv> next_version self val vs"
  shows "\<exists>rest c'. put_key D nt self k val (calm_puts now rs ws) c = (Inr v, rest, c') \<and>
    stragglers (guarded_put_op nt self (holder_of D self k prefs c) k v) rest c' = run (puts k v ws) c"
proof -
  have facts: "preference_list D (c self) k = Inr prefs" "ring_ok D (nd_ring (c self))" "ring_nodes (nd_ring (c self)) \<noteq> {}"
      "0 < nd_w (c self)" "distinct prefs"
    using assms(1) by (simp_all add: calm_def)
  obtain cands where cands: "get_preference_list D (nd_ring (c self)) k (int (length prefs) + 1) = Inr cands"
    using get_preference_list_order [OF facts(2,3)] by simp
  define h where "h = find (\<lambda>m. m \<notin> set prefs) cands"
  have holder: "holder_of D self k prefs c = h" by (simp add: holder_of_def cands h_def)
  have part: "partition_by_liveness (c self) (pi_now (calm_puts now rs ws)) prefs = (prefs, [])"
    using assms(1) by (auto simp: calm_puts_def partition_filter calm_def filter_id_conv filter_empty_conv)
  have v: "version_ok v" unfolding v_def using assms(4) by (rule version_ok_next)
  obtain results rest c' where q: "quorum_op (guarded_put_op nt self h k v) (min (nd_w (c self)) (int (length prefs)))
      (map (\<lambda>m. (m, (Delivered, Delivered), [])) ws) [] c = (results, rest, c')"
    by (metis prod_cases3)
  have q2: "stragglers (guarded_put_op nt self h k v) rest c' = run (puts k v ws) c"
      "min (nd_w (c self)) (int (length prefs)) \<le> int (length results)"
    using quorum_puts [OF assms(1) v ws(1) q] ws(2) by auto
  have read: "merged_read nt self (min (nd_r (c self)) (int (length prefs))) k (pi_reads (calm_puts now rs ws)) c = (Inr vs, c)"
    using calm_read_any [OF assms(1-3) rs] by (simp add: calm_puts_def)
  have pause: "c = run (pi_pause (calm_puts now rs ws)) c" by (simp add: calm_puts_def)
  have q': "quorum_op (guarded_put_op nt self h k (next_version self val vs)) (min (nd_w (c self)) (int (length prefs)))
      (submitted prefs (pi_writes (calm_puts now rs ws))) [] c = (results, rest, c')"
    using q ws(1) by (simp add: calm_puts_def v_def submitted_all o_def)
  have hints: "(case h of None \<Rightarrow> (None, c)
      | Some h' \<Rightarrow> hint_down nt self h' k (next_version self val vs) (pi_hints (calm_puts now rs ws)) 0 [] c) = (None, c)"
    by (cases h) simp_all
  have "put_key D nt self k val (calm_puts now rs ws) c = (Inr v, rest, c')"
    using q2(2) put_key_unfold [OF facts(1) read pause cands h_def [symmetric] part hints q']
    by (simp only: v_def not_less [symmetric] if_False)
  then show ?thesis using holder q2(1) by simp
qed

text \<open>A settled put replaces what the replicas hold by the new version.\<close>

lemma settled_put_effect:
  assumes "calm D nt self k now prefs c" "all_hold prefs k vs c" "vs = [] \<or> (\<exists>u. vs = [u])" "json_ok val"
  defines "v \<equiv> next_version self val vs"
  shows "settled_put D nt self k val now prefs c = (Inr v, run (puts k v prefs) c)"
proof -
  have d: "distinct prefs" using assms(1) by (simp add: calm_def)
  show ?thesis
    using calm_put_effect [OF assms(1-4) refl d subset_refl]
    by (auto simp: settled_put_def calm_inputs_def v_def)
qed

lemma all_hold_puts:
  assumes "calm D nt self k now prefs c" "version_ok v" "\<And>m. m \<in> set prefs \<Longrightarrow> reconcile (siblings (c m) k) v = ws"
  shows "all_hold prefs k ws (run (puts k v prefs) c)" "calm D nt self k now prefs (run (puts k v prefs) c)"
proof -
  have "distinct prefs" "cluster_ok c" using assms(1) by (simp_all add: calm_def)
  then show "all_hold prefs k ws (run (puts k v prefs) c)"
    using siblings_puts [OF _ assms(2)] assms(3) by (simp add: all_hold_def)
  show "calm D nt self k now prefs (run (puts k v prefs) c)"
    using assms(2) by (intro calm_run [OF assms(1)]) (auto simp: puts_def)
qed

lemma calm_get:
  assumes "calm D nt self k now prefs c" "all_hold prefs k vs c" "vs = [] \<or> (\<exists>u. vs = [u])"
  shows "get_key D nt self k (all_answer prefs) c = (if vs = [] then Inl (Raised (HTTPException 404)) else Inr (hd vs), c)"
proof -
  have "preference_list D (c self) k = Inr prefs" using assms(1) by (simp add: calm_def)
  from get_key_merged [OF this calm_read [OF assms]] show ?thesis using assms(3) by auto
qed

text \<open>An internal request runs its actions at the node it is sent to.\<close>

lemma send_to_put: "net_wire nt k = Some k \<Longrightarrow> send_to nt (PutKey k val clk) m c = perform (StorePut m k (Version val clk)) c"
  using serve_actions [of c m nt "PutKey k val clk"] by (simp add: send_to_def del: perform.simps serve.simps)

lemma send_to_delete: "net_wire nt k = Some k \<Longrightarrow> send_to nt (DeleteKey k) m c = perform (StoreDelete m k) c"
  using serve_actions [of c m nt "DeleteKey k"] by (simp add: send_to_def del: perform.simps serve.simps)

lemma fold_send_puts:
  "net_wire nt k = Some k \<Longrightarrow> fold (send_to nt (PutKey k val clk)) ms c = run (puts k (Version val clk) ms) c"
  by (induction ms arbitrary: c) (simp_all add: puts_def send_to_put del: perform.simps)

text \<open>The next version is above what the replicas hold, and replaces it.\<close>

lemma calm_next:
  assumes "calm D nt self k now prefs c" "all_hold prefs k vs c" "vs = [] \<or> (\<exists>u. vs = [u])"
  shows "\<forall>u \<in> set vs. ver_clock u < ver_clock (next_version self val vs)"
    "m \<in> set prefs \<Longrightarrow> reconcile (siblings (c m) k) (next_version self val vs) = [next_version self val vs]"
proof -
  have "prefs \<noteq> []" using assms(1) by (simp add: calm_def)
  then obtain m where "m \<in> set prefs" using last_in_set by blast
  then have "siblings_ok vs"
    using assms(2) siblings_ok_siblings [OF cluster_okD [OF calm_ok [OF assms(1)]]] by (auto simp: all_hold_def)
  then show above: "\<forall>u \<in> set vs. ver_clock u < ver_clock (next_version self val vs)" by (simp add: next_version_above)
  then have "reconcile vs (next_version self val vs) = [next_version self val vs]"
    using assms(3) by (auto simp: reconcile_def less_vclock_def)
  then show "m \<in> set prefs \<Longrightarrow> reconcile (siblings (c m) k) (next_version self val vs) = [next_version self val vs]" for m
    using assms(2) by (simp add: all_hold_def)
qed

text \<open>After a settled put every replica holds just the new version.\<close>

lemma settled_put_holds:
  assumes "calm D nt self k now prefs c" "all_hold prefs k vs c" "vs = [] \<or> (\<exists>u. vs = [u])" "json_ok val"
  shows "\<exists>c'. settled_put D nt self k val now prefs c = (Inr (next_version self val vs), c') \<and>
    calm D nt self k now prefs c' \<and> all_hold prefs k [next_version self val vs] c' \<and>
    (\<forall>u \<in> set vs. ver_clock u < ver_clock (next_version self val vs))"
  using settled_put_effect [OF assms] calm_next [OF assms(1-3), where val = val]
    all_hold_puts [OF assms(1) version_ok_next [OF assms(4)] calm_next(2) [OF assms(1-3), where val = val]]
  by blast

text \<open>Deletes sent to every replica leave nothing.\<close>

lemma all_hold_deletes:
  assumes "calm D nt self k now prefs c" "set prefs \<subseteq> set ms"
  shows "all_hold prefs k [] (fold (send_to nt (DeleteKey k)) ms c) \<and> calm D nt self k now prefs (fold (send_to nt (DeleteKey k)) ms c)"
proof -
  have wire: "net_wire nt k = Some k" using assms(1) by (simp add: calm_def wired_def)
  have "calm D nt self k now prefs c' \<Longrightarrow> calm D nt self k now prefs (fold (send_to nt (DeleteKey k)) ms c') \<and>
      (\<forall>m. m \<in> set ms \<or> siblings (c' m) k = [] \<longrightarrow> siblings (fold (send_to nt (DeleteKey k)) ms c' m) k = [])" for c'
  proof (induction ms arbitrary: c')
    case (Cons x xs)
    have 1: "send_to nt (DeleteKey k) x c' = perform (StoreDelete x k) c'" by (rule send_to_delete [OF wire])
    have 2: "calm D nt self k now prefs (perform (StoreDelete x k) c')"
      using Cons.prems by (simp add: calm_perform del: perform.simps)
    have 3: "siblings (perform (StoreDelete x k) c' m) k = (if m = x then [] else siblings (c' m) k)" for m
      using siblings_perform [OF calm_ok [OF Cons.prems], of "StoreDelete x k" m k] by (simp del: perform.simps)
    show ?case using Cons.IH [OF 2] 3 by (auto simp: 1 simp del: perform.simps)
  qed simp
  then show ?thesis using assms by (auto simp: all_hold_def)
qed

end
