(* ===== verification/Auth.thy ===== *)
theory Auth
  imports Crypto
begin

section \<open>Client authorisation\<close>

text \<open>
  Models \<open>src/dynamokv/auth.py\<close>: the token file, the namespace of a key and \<open>get_auth_context\<close>, the
  dependency that guards the public routes. A token table is whatever \<open>json.loads\<close> returned, so the
  model goes through the same subscripts, attribute accesses and membership tests as the code and
  raises what they raise. The first result of \<open>get_auth_context\<close> is what it returns or raises, the
  second what it left in \<open>request.state.client_id\<close> for the audit log.

  \<open>policy\<close> is what the table is meant to say: which token may do what in which namespace. The locale
  \<open>guard\<close> states what the routes rely on: a request passes exactly when the policy grants it, and a
  refusal is a 401 or a 403.
\<close>

subsection \<open>Requests\<close>

record http_request =
  rq_method :: string
  rq_path :: string
  rq_key :: "key option"
  rq_headers :: "(string, string) dict"
  rq_client :: "string option"

text \<open>The application, as far as \<open>auth\<close> sees it: \<open>app.state.auth_tokens\<close>, \<open>None\<close> when unset or None.\<close>

type_synonym token_table = "json option"

subsection \<open>Tokens, namespaces and verbs\<close>

definition load_auth_tokens :: "(string, string) dict \<Rightarrow> string \<Rightarrow> py_error + json" where
  "load_auth_tokens files path =
     (if path = '''' then Inr (JObj [])
      else case map_of files path of None \<Rightarrow> Inl FileNotFoundError | Some text \<Rightarrow> loads text)"

definition namespace_for_key :: "key \<Rightarrow> string" where
  "namespace_for_key k =
     (if CHR '':'' \<in> set k then takeWhile (\<lambda>c. c \<noteq> CHR '':'') k else ''default'')"

definition method_to_verb :: "(string, string) dict" where
  "method_to_verb = [(''PUT'', ''write''), (''GET'', ''read''), (''DELETE'', ''delete'')]"

definition verb_of :: "string \<Rightarrow> py_error + string" where
  "verb_of meth = (case map_of method_to_verb meth of None \<Rightarrow> Inl KeyError | Some v \<Rightarrow> Inr v)"

text \<open>\<open>d.get(name, z)\<close> on a decoded value and \<open>verb in container\<close>: a list is searched, a dictionary by
  its keys, and a string for an occurrence.\<close>

definition get_or :: "json \<Rightarrow> string \<Rightarrow> json \<Rightarrow> py_error + json" where
  "get_or j name z =
     (case j of JObj d \<Rightarrow> Inr (case map_of d name of None \<Rightarrow> z | Some v \<Rightarrow> v) | _ \<Rightarrow> Inl AttributeError)"

definition contains_verb :: "json \<Rightarrow> string \<Rightarrow> py_error + bool" where
  "contains_verb j verb =
     (case j of
        JArr xs \<Rightarrow> Inr (JStr verb \<in> set xs)
      | JObj d \<Rightarrow> Inr (verb \<in> set (map fst d))
      | JStr s \<Rightarrow> Inr (sublist verb s)
      | _ \<Rightarrow> Inl TypeError)"

subsection \<open>The context of an authorised request\<close>

record auth_context =
  ac_client_id :: string
  ac_namespaces :: "(string, string list) dict"

fun strings_of :: "json list \<Rightarrow> py_error + string list" where
  "strings_of [] = Inr []"
| "strings_of (JStr s # js) = map_sum id ((#) s) (strings_of js)"
| "strings_of (j # js) = Inl ValueError"

fun grants_of :: "(string, json) dict \<Rightarrow> py_error + (string, string list) dict" where
  "grants_of [] = Inr []"
| "grants_of ((ns, JArr js) # d) =
     (case strings_of js of Inl e \<Rightarrow> Inl e | Inr verbs \<Rightarrow> map_sum id ((#) (ns, verbs)) (grants_of d))"
| "grants_of ((ns, _) # d) = Inl ValueError"

text \<open>Building an \<open>AuthContext\<close> checks the declared types of its fields.\<close>

definition auth_context_new :: "json \<Rightarrow> json \<Rightarrow> py_error + auth_context" where
  "auth_context_new client_id namespaces =
     (case (client_id, namespaces) of
        (JStr i, JObj d) \<Rightarrow> map_sum id (\<lambda>g. \<lparr>ac_client_id = i, ac_namespaces = g\<rparr>) (grants_of d)
      | _ \<Rightarrow> Inl ValueError)"

subsection \<open>\<open>get_auth_context\<close>\<close>

definition bearer :: string where
  "bearer = ''Bearer ''"

text \<open>The part after the token was found.\<close>

definition authorise :: "http_request \<Rightarrow> key \<Rightarrow> json \<Rightarrow> json \<Rightarrow> py_error + auth_context" where
  "authorise req k entry client_id =
     (case verb_of (rq_method req) of
        Inl e \<Rightarrow> Inl e
      | Inr verb \<Rightarrow>
          (case get_or entry ''namespaces'' (JObj []) of
             Inl e \<Rightarrow> Inl e
           | Inr spaces \<Rightarrow>
               (case get_or spaces (namespace_for_key k) (JArr []) of
                  Inl e \<Rightarrow> Inl e
                | Inr allowed_verbs \<Rightarrow>
                    (case contains_verb allowed_verbs verb of
                       Inl e \<Rightarrow> Inl e
                     | Inr ok \<Rightarrow>
                         if \<not> ok then Inl (HTTPException 403)
                         else (case subscript entry ''namespaces'' of
                                 Inl e \<Rightarrow> Inl e
                               | Inr namespaces \<Rightarrow> auth_context_new client_id namespaces)))))"

definition get_auth_context ::
  "token_table \<Rightarrow> http_request \<Rightarrow> key \<Rightarrow> (py_error + auth_context) \<times> json option" where
  "get_auth_context tokens req k =
     (case tokens of
        None \<Rightarrow> (Inr \<lparr>ac_client_id = ''anonymous'', ac_namespaces = []\<rparr>, Some (JStr ''anonymous''))
      | Some table \<Rightarrow>
          let header = dict_get (rq_headers req) ''authorization'' ''''
          in if take (length bearer) header \<noteq> bearer
             then (Inl (HTTPException 401), Some (JStr ''anonymous''))
             else case get_or table (drop (length bearer) header) JNull of
                    Inl e \<Rightarrow> (Inl e, None)
                  | Inr entry \<Rightarrow>
                      if entry = JNull then (Inl (HTTPException 401), Some (JStr ''invalid''))
                      else case subscript entry ''id'' of
                             Inl e \<Rightarrow> (Inl e, None)
                           | Inr client_id \<Rightarrow> (authorise req k entry client_id, Some client_id))"

subsection \<open>Well-formed token tables and what they grant\<close>

fun verbs_ok :: "json \<Rightarrow> bool" where
  "verbs_ok (JArr js) = (\<forall>j \<in> set js. \<exists>s. j = JStr s)"
| "verbs_ok _ = False"

fun entry_ok :: "json \<Rightarrow> bool" where
  "entry_ok (JObj d) \<longleftrightarrow>
     (\<exists>i. map_of d ''id'' = Some (JStr i)) \<and>
     (\<exists>g. map_of d ''namespaces'' = Some (JObj g) \<and> (\<forall>(ns, v) \<in> set g. verbs_ok v))"
| "entry_ok _ \<longleftrightarrow> False"

fun tokens_ok :: "json \<Rightarrow> bool" where
  "tokens_ok (JObj d) \<longleftrightarrow> (\<forall>(t, e) \<in> set d. entry_ok e)"
| "tokens_ok _ \<longleftrightarrow> False"

text \<open>The policy: the entry of a token and the verbs it lists for a namespace.\<close>

definition token_entry :: "json \<Rightarrow> string \<Rightarrow> json option" where
  "token_entry table tok = (case table of JObj d \<Rightarrow> map_of d tok | _ \<Rightarrow> None)"

definition verbs_for :: "json \<Rightarrow> string \<Rightarrow> string set" where
  "verbs_for entry ns =
     (case entry of
        JObj d \<Rightarrow>
          (case map_of d ''namespaces'' of
             Some (JObj g) \<Rightarrow> (case map_of g ns of Some (JArr js) \<Rightarrow> {v. JStr v \<in> set js} | _ \<Rightarrow> {})
           | _ \<Rightarrow> {})
      | _ \<Rightarrow> {})"

definition known_token :: "json \<Rightarrow> http_request \<Rightarrow> bool" where
  "known_token table req \<longleftrightarrow>
     (\<exists>tok e. map_of (rq_headers req) ''authorization'' = Some (bearer @ tok) \<and> token_entry table tok = Some e)"

definition policy :: "json \<Rightarrow> http_request \<Rightarrow> key \<Rightarrow> bool" where
  "policy table req k \<longleftrightarrow>
     (\<exists>tok e verb. map_of (rq_headers req) ''authorization'' = Some (bearer @ tok) \<and>
        token_entry table tok = Some e \<and> verb_of (rq_method req) = Inr verb \<and>
        verb \<in> verbs_for e (namespace_for_key k))"

lemma namespace_for_key_prefix: "CHR '':'' \<notin> set ns \<Longrightarrow> namespace_for_key (ns @ CHR '':'' # rest) = ns"
  by (auto simp: namespace_for_key_def intro!: takeWhile_stop)

lemma namespace_no_colon: "CHR '':'' \<notin> set (namespace_for_key k)"
  by (auto simp: namespace_for_key_def dest: set_takeWhileD)

lemma strings_of_map: "(\<And>j. j \<in> set js \<Longrightarrow> \<exists>s. j = JStr s) \<Longrightarrow> \<exists>ss. strings_of js = Inr ss"
  by (induction js rule: strings_of.induct) auto

lemma grants_of_ok: "(\<And>ns v. (ns, v) \<in> set d \<Longrightarrow> verbs_ok v) \<Longrightarrow> \<exists>g. grants_of d = Inr g"
proof (induction d)
  case (Cons x d)
  obtain ns v where x: "x = (ns, v)" by (cases x)
  then have "verbs_ok v" using Cons.prems [of ns v] by simp
  then obtain js where js: "v = JArr js" "\<forall>j \<in> set js. \<exists>s. j = JStr s" by (cases v) auto
  then obtain ss where "strings_of js = Inr ss" using strings_of_map by blast
  moreover obtain g where "grants_of d = Inr g" using Cons by auto
  ultimately show ?case by (simp add: x js)
qed simp

text \<open>A header that does not carry a token, and one that does.\<close>

lemma bearer_split: "take (length bearer) h = bearer \<longleftrightarrow> (\<exists>tok. h = bearer @ tok)"
  by (metis append_eq_conv_conj append_take_drop_id)

lemma bearer_not_empty: "bearer \<noteq> ''''"
  by (simp add: bearer_def)

lemma authorise_entry:
  assumes "entry_ok e" "verb_of (rq_method req) = Inr verb" "subscript e ''id'' = Inr client_id"
  shows "verb \<notin> verbs_for e (namespace_for_key k) \<Longrightarrow> authorise req k e client_id = Inl (HTTPException 403)"
    and "verb \<in> verbs_for e (namespace_for_key k) \<Longrightarrow> \<exists>ctx. authorise req k e client_id = Inr ctx \<and> JStr (ac_client_id ctx) = client_id"
proof -
  obtain d where d: "e = JObj d" using assms(1) by (cases e) auto
  with assms(1) obtain i g where e: "map_of d ''id'' = Some (JStr i)" "map_of d ''namespaces'' = Some (JObj g)"
      "\<forall>(ns, v) \<in> set g. verbs_ok v"
    by auto
  have id: "client_id = JStr i" using assms(3) d e(1) by (simp add: subscript_def)
  obtain gs where grants: "grants_of g = Inr gs" using grants_of_ok [of g] e(3) by auto
  have verbs: "\<exists>js. v = JArr js" if "map_of g ns = Some v" for ns v
    using map_of_SomeD [OF that] e(3) by (cases v) auto
  show "authorise req k e client_id = Inl (HTTPException 403)" if "verb \<notin> verbs_for e (namespace_for_key k)"
  proof (cases "map_of g (namespace_for_key k)")
    case None
    then show ?thesis using assms(2) e(2) by (simp add: authorise_def d get_or_def contains_verb_def)
  next
    case (Some v)
    then obtain js where "v = JArr js" using verbs by blast
    with Some that show ?thesis using assms(2) e(2)
      by (simp add: authorise_def d get_or_def contains_verb_def verbs_for_def)
  qed
  show "\<exists>ctx. authorise req k e client_id = Inr ctx \<and> JStr (ac_client_id ctx) = client_id"
    if given: "verb \<in> verbs_for e (namespace_for_key k)"
  proof (cases "map_of g (namespace_for_key k)")
    case None
    with given show ?thesis using e(2) by (simp add: d verbs_for_def)
  next
    case (Some v)
    then obtain js where "v = JArr js" using verbs by blast
    with Some given show ?thesis using assms(2) e(2)
      by (simp add: authorise_def d id get_or_def contains_verb_def verbs_for_def subscript_def auth_context_new_def grants)
  qed
qed

text \<open>The whole decision, by cases on the header and the table.\<close>

lemma get_auth_context_cases:
  assumes "tokens_ok table" "verb_of (rq_method req) = Inr verb"
  shows "(\<not> known_token table req \<and> fst (get_auth_context (Some table) req k) = Inl (HTTPException 401)) \<or>
    (\<exists>tok e. map_of (rq_headers req) ''authorization'' = Some (bearer @ tok) \<and> token_entry table tok = Some e \<and>
      (if verb \<in> verbs_for e (namespace_for_key k)
       then \<exists>ctx. get_auth_context (Some table) req k = (Inr ctx, Some (JStr (ac_client_id ctx)))
       else fst (get_auth_context (Some table) req k) = Inl (HTTPException 403)))"
proof -
  obtain d where d: "table = JObj d" "\<forall>(t, e) \<in> set d. entry_ok e" using assms(1) by (cases table) auto
  let ?h = "dict_get (rq_headers req) ''authorization'' ''''"
  show ?thesis
  proof (cases "take (length bearer) ?h = bearer")
    case False
    then have "\<not> known_token table req" by (auto simp: known_token_def dict_get_def)
    with False show ?thesis by (simp add: get_auth_context_def Let_def)
  next
    case True
    then obtain tok where tok: "?h = bearer @ tok" by (auto simp: bearer_split)
    then have h: "map_of (rq_headers req) ''authorization'' = Some (bearer @ tok)"
      using bearer_not_empty by (auto simp: dict_get_def split: option.splits)
    show ?thesis
    proof (cases "map_of d tok")
      case None
      then have "\<not> known_token table req" using h by (simp add: known_token_def token_entry_def d)
      with None tok show ?thesis by (simp add: get_auth_context_def Let_def get_or_def d)
    next
      case (Some e)
      then have e: "entry_ok e" using d(2) map_of_SomeD by fastforce
      then obtain i where i: "subscript e ''id'' = Inr (JStr i)" by (cases e) (auto simp: subscript_def)
      have eq: "get_auth_context (Some table) req k = (authorise req k e (JStr i), Some (JStr i))"
        using Some tok e i by (cases e) (simp_all add: get_auth_context_def Let_def get_or_def d)
      have entry: "token_entry table tok = Some e" using Some by (simp add: token_entry_def d)
      show ?thesis
        using h entry authorise_entry [OF e assms(2) i, of k] unfolding eq by force
    qed
  qed
qed

subsection \<open>What the guarded routes rely on\<close>

text \<open>
  A guarded handler runs only when the check passed. The dependency is evaluated first, so a refusal
  leaves the state as it was. The parameter \<open>p\<close> of the contract is what the check is configured with.
\<close>

definition guarded ::
  "(http_request \<Rightarrow> key \<Rightarrow> (py_error + auth_context) \<times> json option) \<Rightarrow> http_request \<Rightarrow> key \<Rightarrow>
     ('w \<Rightarrow> (py_error + 'a) \<times> 'w) \<Rightarrow> 'w \<Rightarrow> (py_error + 'a) \<times> json option \<times> 'w" where
  "guarded check req k handler w =
     (case check req k of
        (Inl e, who) \<Rightarrow> (Inl e, who, w)
      | (Inr _, who) \<Rightarrow> (case handler w of (res, w') \<Rightarrow> (res, who, w')))"

definition routed :: "http_request \<Rightarrow> bool" where
  "routed req \<longleftrightarrow> rq_method req \<in> set (map fst method_to_verb)"

locale guard =
  fixes valid :: "'p \<Rightarrow> bool"
    and grants :: "'p \<Rightarrow> http_request \<Rightarrow> key \<Rightarrow> bool"
    and check :: "'p \<Rightarrow> http_request \<Rightarrow> key \<Rightarrow> (py_error + auth_context) \<times> json option"
  assumes pass_iff: "valid p \<Longrightarrow> routed req \<Longrightarrow> (\<exists>ctx who. check p req k = (Inr ctx, who)) \<longleftrightarrow> grants p req k"
    and refusal: "valid p \<Longrightarrow> routed req \<Longrightarrow> check p req k = (Inl e, who) \<Longrightarrow> e \<in> {HTTPException 401, HTTPException 403}"
begin

lemma guarded_granted:
  assumes "valid p" "routed req" "grants p req k"
  shows "\<exists>who. guarded (check p) req k handler w = (fst (handler w), who, snd (handler w))"
proof -
  obtain ctx who where "check p req k = (Inr ctx, who)" using pass_iff [OF assms(1,2), of k] assms(3) by blast
  then show ?thesis by (cases "handler w") (simp add: guarded_def)
qed

lemma guarded_refused:
  assumes "valid p" "routed req" "\<not> grants p req k"
  shows "\<exists>e who. guarded (check p) req k handler w = (Inl e, who, w) \<and> e \<in> {HTTPException 401, HTTPException 403}"
proof -
  have "\<not> (\<exists>ctx who. check p req k = (Inr ctx, who))" using pass_iff [OF assms(1,2), of k] assms(3) by simp
  then obtain e who where "check p req k = (Inl e, who)" by (cases "check p req k"; cases "fst (check p req k)") auto
  then show ?thesis using refusal [OF assms(1,2)] by (simp add: guarded_def)
qed

lemma guarded_cases:
  assumes "valid p" "routed req" "guarded (check p) req k handler w = (res, who, w')"
  shows "if grants p req k then (res, w') = handler w else w' = w \<and> res \<in> {Inl (HTTPException 401), Inl (HTTPException 403)}"
  using guarded_granted [OF assms(1,2), of k handler w] guarded_refused [OF assms(1,2), of k handler w] assms(3)
  by (cases "grants p req k") (auto simp: prod_eq_iff)

end

lemma routed_verb: "routed req \<Longrightarrow> \<exists>verb. verb_of (rq_method req) = Inr verb"
  by (auto simp: routed_def method_to_verb_def verb_of_def)

lemma get_auth_context_passes:
  assumes "tokens_ok table" "routed req"
  shows "(\<exists>ctx who. get_auth_context (Some table) req k = (Inr ctx, who)) \<longleftrightarrow> policy table req k"
proof -
  obtain verb where verb: "verb_of (rq_method req) = Inr verb" using routed_verb [OF assms(2)] by blast
  have none: "\<not> known_token table req \<Longrightarrow> \<not> policy table req k" by (auto simp: known_token_def policy_def)
  have one: "policy table req k \<longleftrightarrow> verb \<in> verbs_for e (namespace_for_key k)"
    if "map_of (rq_headers req) ''authorization'' = Some (bearer @ tok)" "token_entry table tok = Some e" for tok e
    using that verb by (auto simp: policy_def)
  from get_auth_context_cases [OF assms(1) verb, of k] show ?thesis
    using none one by (elim disjE exE conjE) (auto simp: prod_eq_iff split: if_splits)
qed

lemma get_auth_context_refuses:
  assumes "tokens_ok table" "routed req" "get_auth_context (Some table) req k = (Inl e, who)"
  shows "e = HTTPException (if known_token table req then 403 else 401)"
proof -
  obtain verb where verb: "verb_of (rq_method req) = Inr verb" using routed_verb [OF assms(2)] by blast
  from get_auth_context_cases [OF assms(1) verb, of k] show ?thesis
    using assms(3) by (elim disjE exE conjE) (auto simp: known_token_def split: if_splits)
qed

interpretation auth: guard tokens_ok policy "\<lambda>table. get_auth_context (Some table)"
  by unfold_locales (auto simp: get_auth_context_passes dest: get_auth_context_refuses split: if_splits)

subsection \<open>The decision\<close>

text \<open>An example table: one token may write and read the default namespace, one may read \<open>logs\<close>.\<close>

definition ex_tokens :: json where
  "ex_tokens = JObj
     [(''adm'', JObj [(''id'', JStr ''alice''), (''namespaces'', JObj [(''default'', JArr [JStr ''write'', JStr ''read''])])]),
      (''ro'', JObj [(''id'', JStr ''bob''), (''namespaces'', JObj [(''logs'', JArr [JStr ''read''])])])]"

definition ex_request :: "string \<Rightarrow> string \<Rightarrow> key \<Rightarrow> http_request" where
  "ex_request meth tok k =
     \<lparr>rq_method = meth, rq_path = ''/v1/keys/'' @ k, rq_key = Some k,
      rq_headers = [(''authorization'', bearer @ tok)], rq_client = Some ''10.0.0.1''\<rparr>"

lemma ex_tokens_ok: "tokens_ok ex_tokens"
  by (simp add: ex_tokens_def)

lemma ex_request_routed: "meth \<in> {''PUT'', ''GET'', ''DELETE''} \<Longrightarrow> routed (ex_request meth tok k)"
  by (auto simp: ex_request_def routed_def method_to_verb_def)

text \<open>C21. With a well-formed token table, a request for a key passes exactly when its bearer token has an
  entry that lists the verb of the method for the key's namespace; otherwise it is refused with 403
  when the token is known and 401 when it is not, and with nothing else: no malformed header, method
  or key makes the check raise anything but these two.\<close>

theorem auth_decision:
  assumes "tokens_ok table" "routed req"
  shows "case fst (get_auth_context (Some table) req k) of
      Inr ctx \<Rightarrow> policy table req k
    | Inl e \<Rightarrow> \<not> policy table req k \<and> e = HTTPException (if known_token table req then 403 else 401)"
proof -
  obtain r who where r: "get_auth_context (Some table) req k = (r, who)" by (metis surj_pair)
  then show ?thesis
    using get_auth_context_passes [OF assms, of k] get_auth_context_refuses [OF assms, of k]
    by (cases r) auto
qed

theorem auth_decision_witness:
  "(case fst (get_auth_context (Some ex_tokens) (ex_request ''PUT'' ''ro'' ''logs:1'') ''logs:1'') of
      Inr ctx \<Rightarrow> policy ex_tokens (ex_request ''PUT'' ''ro'' ''logs:1'') ''logs:1''
    | Inl e \<Rightarrow> \<not> policy ex_tokens (ex_request ''PUT'' ''ro'' ''logs:1'') ''logs:1'' \<and>
        e = HTTPException (if known_token ex_tokens (ex_request ''PUT'' ''ro'' ''logs:1'') then 403 else 401)) \<and>
   fst (get_auth_context (Some ex_tokens) (ex_request ''PUT'' ''ro'' ''logs:1'') ''logs:1'') = Inl (HTTPException 403)"
proof
  show "fst (get_auth_context (Some ex_tokens) (ex_request ''PUT'' ''ro'' ''logs:1'') ''logs:1'') = Inl (HTTPException 403)"
    by (simp add: get_auth_context_def ex_tokens_def ex_request_def bearer_def dict_get_def get_or_def subscript_def
        authorise_def verb_of_def method_to_verb_def namespace_for_key_def contains_verb_def)
qed (rule auth_decision [OF ex_tokens_ok ex_request_routed], simp)

end
