(* ===== verification/Config.thy ===== *)
theory Config
  imports Prelude
begin

section \<open>Configuration from the environment\<close>

text \<open>
  Models \<open>src/dynamokv/config.py\<close>: every variable with its default, the conversions (\<open>int\<close>, \<open>float\<close>,
  comma-separated lists) in the order in which the module evaluates them, and the warning about
  quorums that do not overlap. What \<open>float\<close> makes of a text is the parameter \<open>float_of\<close>: floats are
  real numbers in this development.

  The lemmas give the meaning of the list parser and of a missing variable; \<open>no_warning_overlap\<close> says
  what the warning guards.
\<close>

subsection \<open>Text\<close>

text \<open>The white space of \<open>str.strip\<close> among the first 256 code points.\<close>

definition py_space :: "char \<Rightarrow> bool" where
  "py_space c \<longleftrightarrow>
     (let n = of_char c :: nat in n \<in> {9, 10, 11, 12, 13, 28, 29, 30, 31, 32, 133, 160})"

definition strip :: "string \<Rightarrow> string" where
  "strip s = rev (dropWhile py_space (rev (dropWhile py_space s)))"

fun split_on :: "char \<Rightarrow> string \<Rightarrow> string list" where
  "split_on c [] = [[]]"
| "split_on c (x # xs) =
     (if x = c then [] # split_on c xs
      else case split_on c xs of [] \<Rightarrow> [[x]] | y # ys \<Rightarrow> (x # y) # ys)"

text \<open>\<open>[x.strip() for x in s.split(",") if x.strip()]\<close>\<close>

definition split_list :: "string \<Rightarrow> string list" where
  "split_list s = filter (\<lambda>x. x \<noteq> '''') (map strip (split_on (CHR '','') s))"

text \<open>\<open>int\<close> of a text: a sign, then digits, single underscores between them.\<close>

fun digits_ok :: "string \<Rightarrow> bool" where
  "digits_ok [] = False"
| "digits_ok [c] = is_digit c"
| "digits_ok (c # d # ds) =
     (if d = CHR ''_'' then is_digit c \<and> digits_ok ds else is_digit c \<and> digits_ok (d # ds))"

definition py_int :: "string \<Rightarrow> py_error + int" where
  "py_int s =
     (let t = strip s;
          neg = (take 1 t = ''-'');
          ds = (if neg \<or> take 1 t = ''+'' then drop 1 t else t);
          n = int (undec (filter (\<lambda>c. c \<noteq> CHR ''_'') ds))
      in if digits_ok ds then Inr (if neg then - n else n) else Inl ValueError)"

subsection \<open>The environment\<close>

type_synonym environ = "(string, string) dict"

definition env_str :: "environ \<Rightarrow> string \<Rightarrow> string \<Rightarrow> string" where
  "env_str env name fallback = dict_get env name fallback"

definition env_int :: "environ \<Rightarrow> string \<Rightarrow> string \<Rightarrow> py_error + int" where
  "env_int env name fallback = py_int (dict_get env name fallback)"

definition and_then :: "'e + 'a \<Rightarrow> ('a \<Rightarrow> 'e + 'b) \<Rightarrow> 'e + 'b" where
  "and_then r f = (case r of Inl e \<Rightarrow> Inl e | Inr x \<Rightarrow> f x)"

lemma and_then_simps [simp]: "and_then (Inl e) f = Inl e" "and_then (Inr x) f = f x"
  by (simp_all add: and_then_def)

lemma and_then_Inr [simp]: "and_then r f = Inr y \<longleftrightarrow> (\<exists>x. r = Inr x \<and> f x = Inr y)"
  by (cases r) simp_all

subsection \<open>The settings\<close>

record config =
  cf_node_id :: node_id
  cf_storage_backend :: string
  cf_db_path :: string
  cf_cluster_nodes :: string
  cf_port :: int
  cf_virtual_nodes :: int
  cf_n :: int
  cf_r :: int
  cf_w :: int
  cf_gossip_interval :: real
  cf_gossip_multiplier :: real
  cf_internal_port :: int
  cf_tls_ca_cert :: string
  cf_tls_node_cert :: string
  cf_tls_node_key :: string
  cf_auth_tokens_file :: string
  cf_metrics_port :: int
  cf_public_cluster_urls :: "string list"
  cf_frontend_dist_dir :: string
  cf_cors_origins :: "string list"

definition load_config :: "(string \<Rightarrow> py_error + real) \<Rightarrow> environ \<Rightarrow> py_error + config" where
  "load_config float_of env =
     (let node_id = env_str env ''NODE_ID'' ''node-1'' in
      and_then (env_int env ''PORT'' ''8000'') (\<lambda>port.
      and_then (env_int env ''VIRTUAL_NODES'' ''150'') (\<lambda>virtual_nodes.
      and_then (env_int env ''N'' ''3'') (\<lambda>n.
      and_then (env_int env ''R'' ''2'') (\<lambda>r.
      and_then (env_int env ''W'' ''2'') (\<lambda>w.
      and_then (float_of (env_str env ''GOSSIP_INTERVAL_SECONDS'' ''2.0'')) (\<lambda>interval.
      and_then (float_of (env_str env ''GOSSIP_FAILURE_TIMEOUT_MULTIPLIER'' ''3'')) (\<lambda>multiplier.
      and_then (env_int env ''INTERNAL_PORT'' ''8443'') (\<lambda>internal_port.
      and_then (env_int env ''METRICS_PORT'' ''9090'') (\<lambda>metrics_port.
      Inr \<lparr>cf_node_id = node_id,
           cf_storage_backend = env_str env ''STORAGE_BACKEND'' ''sqlite'',
           cf_db_path = env_str env ''DB_PATH'' (''data/'' @ node_id @ ''.db''),
           cf_cluster_nodes = env_str env ''CLUSTER_NODES'' node_id,
           cf_port = port, cf_virtual_nodes = virtual_nodes, cf_n = n, cf_r = r, cf_w = w,
           cf_gossip_interval = interval, cf_gossip_multiplier = multiplier,
           cf_internal_port = internal_port,
           cf_tls_ca_cert = env_str env ''TLS_CA_CERT'' ''certs/ca.crt'',
           cf_tls_node_cert = env_str env ''TLS_NODE_CERT'' ''certs/node/node.crt'',
           cf_tls_node_key = env_str env ''TLS_NODE_KEY'' ''certs/node/node.key'',
           cf_auth_tokens_file = env_str env ''AUTH_TOKENS_FILE'' '''',
           cf_metrics_port = metrics_port,
           cf_public_cluster_urls = split_list (env_str env ''PUBLIC_CLUSTER_URLS'' ''''),
           cf_frontend_dist_dir = env_str env ''FRONTEND_DIST_DIR'' ''frontend/dist'',
           cf_cors_origins = split_list (env_str env ''DASHBOARD_DEV_CORS_ORIGINS'' '''')\<rparr>))))))))))"

definition quorum_warning :: "config \<Rightarrow> bool" where
  "quorum_warning cf \<longleftrightarrow> cf_w cf + cf_r cf \<le> cf_n cf"

subsection \<open>Lemmas\<close>

lemma split_on_not_Nil: "split_on c s \<noteq> []"
  by (induction s) (auto split: list.splits)

lemma split_on_no_sep: "c \<notin> set s \<Longrightarrow> split_on c s = [s]"
  by (induction s) auto

lemma split_on_append: "c \<notin> set s \<Longrightarrow> split_on c (s @ c # t) = s # split_on c t"
  by (induction s) auto

lemma strip_Nil [simp]: "strip '''' = ''''"
  by (simp add: strip_def)

lemma strip_id: "(\<And>c. c \<in> set s \<Longrightarrow> \<not> py_space c) \<Longrightarrow> strip s = s"
proof -
  assume *: "\<And>c. c \<in> set s \<Longrightarrow> \<not> py_space c"
  have "dropWhile py_space t = t" if "set t \<subseteq> set s" for t
    using that * by (cases t) auto
  then show ?thesis by (simp add: strip_def)
qed

lemma split_list_Nil [simp]: "split_list '''' = []"
  by (simp add: split_list_def)

text \<open>A list of names without commas and white space is read back as it was written.\<close>

fun join_with :: "string \<Rightarrow> string list \<Rightarrow> string" where
  "join_with sep [] = ''''"
| "join_with sep [x] = x"
| "join_with sep (x # xs) = x @ sep @ join_with sep xs"

definition plain_name :: "string \<Rightarrow> bool" where
  "plain_name s \<longleftrightarrow> s \<noteq> '''' \<and> (\<forall>c \<in> set s. \<not> py_space c \<and> c \<noteq> CHR '','')"

lemma split_list_join:
  assumes "\<And>x. x \<in> set xs \<Longrightarrow> plain_name x"
  shows "split_list (join_with '','' xs) = xs"
  using assms
proof (induction "'','' :: string" xs rule: join_with.induct)
  case (2 x)
  then have "CHR '','' \<notin> set x" "strip x = x" "x \<noteq> ''''" by (auto simp: plain_name_def intro: strip_id)
  then show ?case by (simp add: split_list_def split_on_no_sep)
next
  case (3 x y ys)
  then have "CHR '','' \<notin> set x" "strip x = x" "x \<noteq> ''''" by (auto simp: plain_name_def intro: strip_id)
  then show ?case using 3 by (simp add: split_list_def split_on_append)
qed simp

lemma split_list_plain: "x \<in> set (split_list s) \<Longrightarrow> x \<noteq> ''''"
  by (simp add: split_list_def)

text \<open>Without the warning, and with N at least 1, read and write quorums of any preference list of at
  most N members overlap.\<close>

lemma no_warning_overlap:
  assumes "\<not> quorum_warning cf" "0 < len" "len \<le> cf_n cf"
  shows "len < min (cf_r cf) len + min (cf_w cf) len \<or> cf_r cf \<le> 0 \<or> cf_w cf \<le> 0"
  using assms by (auto simp: quorum_warning_def min_def)

end
