(* ===== verification/Effects.thy ===== *)
theory Effects
  imports Prelude
begin

section \<open>Steps that may raise\<close>

text \<open>
  The scripts are modelled as steps on a state: a step gives a result or an exception, and the state it
  leaves. \<open>return_it\<close> and \<open>seq\<close> are its two constructions, \<open>for_each\<close> the loop that appends what
  its body gives for each element, \<open>try_except\<close> and \<open>try_finally\<close> the statements of Python.
  \<open>keeps f m\<close> says that the step \<open>m\<close> leaves the part \<open>f\<close> of the state as it found it, however it
  ends; it is compositional, which is what the collection \<open>keeps\<close> holds.
\<close>

type_synonym ('w, 'a) act = "'w \<Rightarrow> (py_error + 'a) \<times> 'w"

definition return_it :: "'a \<Rightarrow> ('w, 'a) act" where
  "return_it x st = (Inr x, st)"

definition raise_it :: "py_error \<Rightarrow> ('w, 'a) act" where
  "raise_it e st = (Inl e, st)"

definition seq :: "('w, 'a) act \<Rightarrow> ('a \<Rightarrow> ('w, 'b) act) \<Rightarrow> ('w, 'b) act" where
  "seq m f st = (case m st of (Inl e, st') \<Rightarrow> (Inl e, st') | (Inr x, st') \<Rightarrow> f x st')"

fun for_each :: "'x list \<Rightarrow> ('x \<Rightarrow> ('w, 'b list) act) \<Rightarrow> ('w, 'b list) act" where
  "for_each [] f = return_it []"
| "for_each (x # xs) f = seq (f x) (\<lambda>ys. seq (for_each xs f) (\<lambda>zs. return_it (ys @ zs)))"

definition try_finally :: "('w, 'a) act \<Rightarrow> ('w, unit) act \<Rightarrow> ('w, 'a) act" where
  "try_finally body cleanup st =
     (case body st of
        (r, st1) \<Rightarrow> (case cleanup st1 of (Inl e, st2) \<Rightarrow> (Inl e, st2) | (Inr _, st2) \<Rightarrow> (r, st2)))"

text \<open>\<open>except E as e\<close>: the handler answers an exception that it catches with a step, another passes on.\<close>

definition try_except :: "('w, 'a) act \<Rightarrow> (py_error \<Rightarrow> ('w, 'a) act option) \<Rightarrow> ('w, 'a) act" where
  "try_except body handler st =
     (case body st of
        (Inl e, st1) \<Rightarrow> (case handler e of None \<Rightarrow> (Inl e, st1) | Some h \<Rightarrow> h st1)
      | (Inr x, st1) \<Rightarrow> (Inr x, st1))"

text \<open>A pure computation that may raise.\<close>

definition lift_it :: "py_error + 'a \<Rightarrow> ('w, 'a) act" where
  "lift_it r st = (r, st)"

lemma seq_Inr: "m st = (Inr x, st') \<Longrightarrow> seq m f st = f x st'"
  by (simp add: seq_def)

lemma seq_Inl: "m st = (Inl e, st') \<Longrightarrow> seq m f st = (Inl e, st')"
  by (simp add: seq_def)

lemma seq_return [simp]: "seq (return_it x) f = f x"
  by (simp add: fun_eq_iff seq_def return_it_def)

lemma seq_lift [simp]: "seq (lift_it (Inr x)) f = f x" "seq (lift_it (Inl e)) f = raise_it e"
  by (simp_all add: fun_eq_iff seq_def lift_it_def raise_it_def)

lemma seq_assoc: "seq (seq m g) h = seq m (\<lambda>x. seq (g x) h)"
  by (simp add: fun_eq_iff seq_def split: prod.split sum.split)

subsection \<open>What a step leaves alone\<close>

named_theorems keeps

definition keeps :: "('w \<Rightarrow> 'b) \<Rightarrow> ('w, 'a) act \<Rightarrow> bool" where
  "keeps f m \<longleftrightarrow> (\<forall>st. f (snd (m st)) = f st)"

lemma keepsD: "keeps f m \<Longrightarrow> m st = (r, st') \<Longrightarrow> f st' = f st"
  by (metis keeps_def snd_conv)

lemma keepsI: "(\<And>st. f (snd (m st)) = f st) \<Longrightarrow> keeps f m"
  by (simp add: keeps_def)

lemma keeps_return [keeps]: "keeps f (return_it x)"
  by (simp add: keeps_def return_it_def)

lemma keeps_raise [keeps]: "keeps f (raise_it e)"
  by (simp add: keeps_def raise_it_def)

lemma keeps_lift [keeps]: "keeps f (lift_it r)"
  by (simp add: keeps_def lift_it_def)

lemma keeps_seq [keeps]:
  assumes "keeps f m" "\<And>x. keeps f (g x)"
  shows "keeps f (seq m g)"
proof (rule keepsI)
  fix st
  obtain r st1 where m: "m st = (r, st1)" by force
  show "f (snd (seq m g st)) = f st"
    using keepsD [OF assms(1) m] assms(2) by (cases r) (simp_all add: seq_def m keeps_def)
qed

lemma keeps_for_each [keeps]: "(\<And>x. x \<in> set xs \<Longrightarrow> keeps f (g x)) \<Longrightarrow> keeps f (for_each xs g)"
  by (induction xs) (simp_all add: keeps_return keeps_seq)

lemma keeps_try_finally [keeps]:
  assumes "keeps f body" "keeps f cleanup"
  shows "keeps f (try_finally body cleanup)"
proof (rule keepsI)
  fix st
  obtain r st1 where body: "body st = (r, st1)" by force
  obtain r' st2 where cleanup: "cleanup st1 = (r', st2)" by force
  show "f (snd (try_finally body cleanup st)) = f st"
    using keepsD [OF assms(1) body] keepsD [OF assms(2) cleanup]
    by (cases r') (simp_all add: try_finally_def body cleanup)
qed

lemma keeps_try_except [keeps]:
  assumes "keeps f body" "\<And>e h. handler e = Some h \<Longrightarrow> keeps f h"
  shows "keeps f (try_except body handler)"
proof (rule keepsI)
  fix st
  obtain r st1 where body: "body st = (r, st1)" by force
  note same = keepsD [OF assms(1) body]
  show "f (snd (try_except body handler st)) = f st"
  proof (cases r)
    case (Inl e)
    then show ?thesis
      using same assms(2) [of e] by (cases "handler e") (simp_all add: try_except_def body keeps_def)
  qed (simp add: try_except_def body same)
qed

lemma keeps_if [keeps]: "keeps f a \<Longrightarrow> keeps f b \<Longrightarrow> keeps f (if c then a else b)"
  by simp

text \<open>A loop gives a result only after every turn gave one.\<close>

lemma for_each_Inr:
  "for_each xs g st = (Inr ys, st') \<Longrightarrow> x \<in> set xs \<Longrightarrow> \<exists>st1 zs st2. g x st1 = (Inr zs, st2) \<and> set zs \<subseteq> set ys"
proof (induction xs arbitrary: st ys)
  case (Cons y xs)
  obtain zs st1 ws where y: "g y st = (Inr zs, st1)" and rest: "for_each xs g st1 = (Inr ws, st')" "ys = zs @ ws"
    using Cons.prems(1) by (auto simp: seq_def return_it_def split: prod.splits sum.splits)
  show ?case
  proof (cases "x = y")
    case True
    then show ?thesis using y rest(2) by auto
  next
    case False
    then show ?thesis using Cons.IH [OF rest(1)] Cons.prems(2) rest(2) by fastforce
  qed
qed simp

end
