(* ===== verification/Observe.thy ===== *)
theory Observe
  imports Auth Cluster
begin

section \<open>Audit log, request log, recent operations and metrics\<close>

text \<open>
  Models \<open>src/dynamokv/audit.py\<close>, \<open>logging_middleware.py\<close>, \<open>recent_ops.py\<close> and \<open>metrics.py\<close>. A
  middleware wraps a handler, the \<open>call_next\<close> of the code. A handler takes a request and the state of
  the process and the cluster (\<open>world\<close>) and gives its answer, what is in \<open>request.state.client_id\<close> (if
  anything), and the new state. An answer \<open>Inr\<close> is a response; \<open>Inl\<close> is an exception that no
  exception handler of the framework turned into a response, and it passes through \<open>call_next\<close>.

  The middleware's readings of the clock are arguments, and so is \<open>repr\<close>, the text of a float. The
  Prometheus client is a library: what is modelled is the sequence of calls the code makes on it.
\<close>

subsection \<open>State\<close>

datatype log_handler = Stdout_Json | Foreign nat

record logger =
  lg_level :: nat
  lg_propagate :: bool
  lg_handlers :: "log_handler list"

datatype metric =
    Count string string string
  | Latency string string real
  | Node_Up node_id nat

text \<open>An entry of the request log, and the same entry with what the dashboard gets on top.\<close>

record log_entry =
  le_timestamp :: real
  le_node_id :: "node_id option"
  le_method :: string
  le_path :: string
  le_latency_ms :: real
  le_status_code :: nat
  le_outcome :: string

record recent_op = log_entry +
  ro_key :: "key option"
  ro_conflict :: bool

record world =
  wd_cluster :: cluster
  wd_files :: "(string, string) dict"
  wd_logger :: logger
  wd_stdout :: "string list"
  wd_recent :: "recent_op list"
  wd_metrics :: "metric list"

type_synonym answer = "py_error + response"

type_synonym handler = "http_request \<Rightarrow> world \<Rightarrow> answer \<times> json option \<times> world"

text \<open>Optional texts in JSON.\<close>

definition opt_str :: "string option \<Rightarrow> json" where
  "opt_str s = (case s of None \<Rightarrow> JNull | Some t \<Rightarrow> JStr t)"

subsection \<open>Recent operations\<close>

definition max_entries :: nat where
  "max_entries = 200"

text \<open>\<open>append\<close> on a deque with a \<open>maxlen\<close> drops entries at the other end.\<close>

definition record_operation :: "'e \<Rightarrow> 'e list \<Rightarrow> 'e list" where
  "record_operation entry entries =
     (let es = entries @ [entry] in drop (length es - max_entries) es)"

definition recent_operations :: "'e list \<Rightarrow> 'e list" where
  "recent_operations entries = entries"

definition clear_operations :: "'e list \<Rightarrow> 'e list" where
  "clear_operations entries = []"

subsection \<open>The audit log\<close>

definition audit_entry ::
  "(real \<Rightarrow> string) \<Rightarrow> real \<Rightarrow> http_request \<Rightarrow> json option \<Rightarrow> nat \<Rightarrow> json" where
  "audit_entry repr now req who status = JObj
     [(''timestamp'', JFloat (repr now)),
      (''client_id'', case who of None \<Rightarrow> JStr ''anonymous'' | Some i \<Rightarrow> i),
      (''source_ip'', opt_str (rq_client req)),
      (''method'', JStr (rq_method req)),
      (''path'', JStr (rq_path req)),
      (''key'', opt_str (rq_key req)),
      (''namespace'', opt_str (map_option namespace_for_key (rq_key req))),
      (''status_code'', JInt (int status)),
      (''outcome'', JStr (if status < 400 then ''allowed'' else ''denied''))]"

definition newline :: string where
  "newline = [CHR 0x0A]"

text \<open>\<open>open(path, "a")\<close> creates the file when it is missing.\<close>

definition append_file :: "string \<Rightarrow> string \<Rightarrow> (string, string) dict \<Rightarrow> (string, string) dict" where
  "append_file path text files = dict_put path (dict_get files path '''' @ text) files"

definition write_entry ::
  "(real \<Rightarrow> string) \<Rightarrow> real \<Rightarrow> string \<Rightarrow> http_request \<Rightarrow> json option \<Rightarrow> nat \<Rightarrow> world \<Rightarrow> world" where
  "write_entry repr now path req who status w =
     w\<lparr>wd_files := append_file path (dumps (audit_entry repr now req who status) @ newline) (wd_files w)\<rparr>"

definition audit_dispatch :: "(real \<Rightarrow> string) \<Rightarrow> real \<Rightarrow> string \<Rightarrow> handler \<Rightarrow> handler" where
  "audit_dispatch repr now path call_next req w =
     (case call_next req w of
        (Inl e, who, w') \<Rightarrow> (Inl e, who, w')
      | (Inr resp, who, w') \<Rightarrow> (Inr resp, who, write_entry repr now path req who (fst resp) w'))"

subsection \<open>The request log\<close>

definition logging_info :: nat where
  "logging_info = 20"

definition configure_logger :: "logger \<Rightarrow> logger" where
  "configure_logger lg =
     (let lg' = lg\<lparr>lg_level := logging_info, lg_propagate := False\<rparr>
      in if lg_handlers lg' = [] then lg'\<lparr>lg_handlers := [Stdout_Json]\<rparr> else lg')"

text \<open>\<open>logger.info\<close> hands the record to every handler; ours prints the formatted message.\<close>

definition log_format :: "json \<Rightarrow> string" where
  "log_format msg = dumps msg"

definition log_lines :: "logger \<Rightarrow> json \<Rightarrow> string list" where
  "log_lines lg msg =
     (if lg_level lg \<le> logging_info
      then map (\<lambda>_. log_format msg) (filter (\<lambda>h. h = Stdout_Json) (lg_handlers lg))
      else [])"

text \<open>\<open>round(x, 3)\<close>: to the nearest thousandth, ties to the even one.\<close>

definition round_half_even :: "real \<Rightarrow> int" where
  "round_half_even x =
     (let f = \<lfloor>x\<rfloor>; d = x - of_int f
      in if d < 1 / 2 then f else if d > 1 / 2 then f + 1 else if even f then f else f + 1)"

definition round3 :: "real \<Rightarrow> real" where
  "round3 x = of_int (round_half_even (x * 1000)) / 1000"

definition log_entry_new :: "real \<Rightarrow> node_id option \<Rightarrow> http_request \<Rightarrow> real \<Rightarrow> nat \<Rightarrow> log_entry" where
  "log_entry_new now node_id req latency_ms status =
     \<lparr>le_timestamp = now, le_node_id = node_id, le_method = rq_method req, le_path = rq_path req,
      le_latency_ms = round3 latency_ms, le_status_code = status,
      le_outcome = (if status < 400 then ''ok'' else ''error'')\<rparr>"

text \<open>The entry as the dictionary that \<open>json.dumps\<close> prints.\<close>

definition log_entry_json :: "(real \<Rightarrow> string) \<Rightarrow> log_entry \<Rightarrow> json" where
  "log_entry_json repr e = JObj
     [(''timestamp'', JFloat (repr (le_timestamp e))),
      (''node_id'', opt_str (le_node_id e)),
      (''method'', JStr (le_method e)),
      (''path'', JStr (le_path e)),
      (''latency_ms'', JFloat (repr (le_latency_ms e))),
      (''status_code'', JInt (int (le_status_code e))),
      (''outcome'', JStr (le_outcome e))]"

definition client_key_prefix :: string where
  "client_key_prefix = ''/v1/keys/''"

definition is_client_path :: "string \<Rightarrow> bool" where
  "is_client_path path \<longleftrightarrow> take (length client_key_prefix) path = client_key_prefix"

definition operation_entry :: "log_entry \<Rightarrow> http_request \<Rightarrow> nat \<Rightarrow> recent_op" where
  "operation_entry entry req status =
     log_entry.extend entry (recent_op.fields (rq_key req) (status = 409))"

record log_clock =
  lc_start :: real
  lc_end :: real
  lc_now :: real

definition log_dispatch ::
  "(real \<Rightarrow> string) \<Rightarrow> log_clock \<Rightarrow> node_id option \<Rightarrow> handler \<Rightarrow> handler" where
  "log_dispatch repr t node_id call_next req w =
     (case call_next req w of
        (Inl e, who, w') \<Rightarrow> (Inl e, who, w')
      | (Inr resp, who, w') \<Rightarrow>
          let latency_ms = (lc_end t - lc_start t) * 1000;
              entry = log_entry_new (lc_now t) node_id req latency_ms (fst resp);
              w1 = w'\<lparr>wd_stdout := wd_stdout w' @ log_lines (wd_logger w') (log_entry_json repr entry)\<rparr>;
              w2 = (if is_client_path (rq_path req)
                    then w1\<lparr>wd_recent := record_operation (operation_entry entry req (fst resp)) (wd_recent w1)\<rparr>
                    else w1)
          in (Inr resp, who, w2))"

subsection \<open>Metrics\<close>

definition metrics_dispatch :: "real \<Rightarrow> real \<Rightarrow> handler \<Rightarrow> handler" where
  "metrics_dispatch start finish call_next req w =
     (case call_next req w of
        (Inl e, who, w') \<Rightarrow> (Inl e, who, w')
      | (Inr resp, who, w') \<Rightarrow>
          (Inr resp, who, w'\<lparr>wd_metrics := wd_metrics w' @
             [Count (rq_method req) (rq_path req) (dec_nat (fst resp)),
              Latency (rq_method req) (rq_path req) (finish - start)]\<rparr>))"

text \<open>A scrape: the gauge of every peer is set, in the order in which the set of peers is iterated.\<close>

definition metrics_endpoint :: "node \<Rightarrow> real \<Rightarrow> node_id list \<Rightarrow> metric list" where
  "metrics_endpoint nd now order =
     (let down = down_peers nd now in map (\<lambda>p. Node_Up p (if p \<in> down then 0 else 1)) order)"

end
