(* ===== verification/Api.thy ===== *)
theory Api
  imports Observe Config
begin

section \<open>The public routes\<close>

text \<open>
  Models the client-facing part of \<open>src/dynamokv/api/routes.py\<close> and the response models of
  \<open>models.py\<close>: the three operations on keys, guarded by the authorisation of \<open>Auth\<close>, the view of the
  cluster for the dashboard, and the health check. A call names the route that the framework matched
  and the decoded parameters and body (\<open>endpoint\<close>), together with what the operation takes from
  outside: the completions of the replica requests, the clock, the order in which a set is iterated.

  \<open>answer_of\<close> is the framework's handler for \<open>HTTPException\<close>: it becomes a response with that status;
  any other exception stays an exception. The texts of error details are left out.
\<close>

subsection \<open>Bodies and responses\<close>

record put_request =
  pr_value :: json

record key_value_response =
  kv_key :: key
  kv_value :: json
  kv_clock :: "(node_id, int) dict"

record version_out =
  vo_value :: json
  vo_clock :: "(node_id, int) dict"

record delete_response =
  dr_key :: key
  dr_deleted :: bool

record health_response =
  hr_node_id :: node_id
  hr_status :: string

record ring_point_out =
  rp_position :: real
  rp_owner :: node_id

record ring_topology_out =
  rt_virtual_nodes :: int
  rt_points :: "ring_point_out list"

record recent_op_out =
  oo_timestamp :: real
  oo_node_id :: node_id
  oo_method :: string
  oo_path :: string
  oo_key :: "key option"
  oo_latency_ms :: real
  oo_status_code :: nat
  oo_outcome :: string
  oo_conflict :: bool

record cluster_state_response =
  cs_node_id :: node_id
  cs_public_cluster_urls :: "string list"
  cs_ring :: ring_topology_out
  cs_peers :: "(node_id, string) dict"
  cs_pending_hints :: "(node_id, nat) dict"
  cs_recent_ops :: "recent_op_out list"

definition key_value_of :: "key \<Rightarrow> version \<Rightarrow> key_value_response" where
  "key_value_of k v = \<lparr>kv_key = k, kv_value = ver_value v, kv_clock = counters (ver_clock v)\<rparr>"

definition counters_json :: "(node_id, int) dict \<Rightarrow> json" where
  "counters_json d = JObj (map (\<lambda>(i, n). (i, JInt n)) d)"

definition key_value_json :: "key_value_response \<Rightarrow> json" where
  "key_value_json r = JObj
     [(''key'', JStr (kv_key r)), (''value'', kv_value r), (''clock'', counters_json (kv_clock r))]"

definition delete_json :: "delete_response \<Rightarrow> json" where
  "delete_json r = JObj [(''key'', JStr (dr_key r)), (''deleted'', JBool (dr_deleted r))]"

definition health_json :: "health_response \<Rightarrow> json" where
  "health_json r = JObj [(''node_id'', JStr (hr_node_id r)), (''status'', JStr (hr_status r))]"

text \<open>\<open>RecentOpOut(**op)\<close>: the node id must be a string.\<close>

definition recent_op_out_new :: "recent_op \<Rightarrow> py_error + recent_op_out" where
  "recent_op_out_new op =
     (case le_node_id op of
        None \<Rightarrow> Inl ValueError
      | Some i \<Rightarrow> Inr
          \<lparr>oo_timestamp = le_timestamp op, oo_node_id = i, oo_method = le_method op, oo_path = le_path op,
           oo_key = ro_key op, oo_latency_ms = le_latency_ms op, oo_status_code = le_status_code op,
           oo_outcome = le_outcome op, oo_conflict = ro_conflict op\<rparr>)"

fun map_err :: "('a \<Rightarrow> 'e + 'b) \<Rightarrow> 'a list \<Rightarrow> 'e + 'b list" where
  "map_err f [] = Inr []"
| "map_err f (x # xs) =
     (case f x of Inl e \<Rightarrow> Inl e | Inr y \<Rightarrow> map_sum id ((#) y) (map_err f xs))"

definition recent_op_json :: "(real \<Rightarrow> string) \<Rightarrow> recent_op_out \<Rightarrow> json" where
  "recent_op_json repr o1 = JObj
     [(''timestamp'', JFloat (repr (oo_timestamp o1))), (''node_id'', JStr (oo_node_id o1)),
      (''method'', JStr (oo_method o1)), (''path'', JStr (oo_path o1)), (''key'', opt_str (oo_key o1)),
      (''latency_ms'', JFloat (repr (oo_latency_ms o1))), (''status_code'', JInt (int (oo_status_code o1))),
      (''outcome'', JStr (oo_outcome o1)), (''conflict'', JBool (oo_conflict o1))]"

definition ring_json :: "(real \<Rightarrow> string) \<Rightarrow> ring_topology_out \<Rightarrow> json" where
  "ring_json repr r = JObj
     [(''virtual_nodes'', JInt (rt_virtual_nodes r)),
      (''points'', JArr (map (\<lambda>p. JObj [(''position'', JFloat (repr (rp_position p))), (''owner'', JStr (rp_owner p))])
         (rt_points r)))]"

definition cluster_state_json :: "(real \<Rightarrow> string) \<Rightarrow> cluster_state_response \<Rightarrow> json" where
  "cluster_state_json repr r = JObj
     [(''node_id'', JStr (cs_node_id r)),
      (''public_cluster_urls'', JArr (map JStr (cs_public_cluster_urls r))),
      (''ring'', ring_json repr (cs_ring r)),
      (''peers'', JObj (map (\<lambda>(i, s). (i, JStr s)) (cs_peers r))),
      (''pending_hints'', JObj (map (\<lambda>(i, n). (i, JInt (int n))) (cs_pending_hints r))),
      (''recent_ops'', JArr (map (recent_op_json repr) (cs_recent_ops r)))]"

subsection \<open>The handlers\<close>

definition check_key :: "token_table \<Rightarrow> http_request \<Rightarrow> key \<Rightarrow> (py_error + auth_context) \<times> json option" where
  "check_key tokens req k = get_auth_context tokens req k"

definition put_key_route ::
  "(string \<Rightarrow> bytes) \<Rightarrow> net \<Rightarrow> node_id \<Rightarrow> key \<Rightarrow> put_request \<Rightarrow> put_inputs \<Rightarrow> world \<Rightarrow>
     (py_error + response) \<times> world" where
  "put_key_route D nt self k body ins w =
     (case put_key D nt self k (pr_value body) ins (wd_cluster w) of
        (Inl e, _, c) \<Rightarrow> (Inl e, w\<lparr>wd_cluster := c\<rparr>)
      | (Inr v, _, c) \<Rightarrow> (Inr (200, key_value_json (key_value_of k v)), w\<lparr>wd_cluster := c\<rparr>))"

definition conflict_body :: "key \<Rightarrow> version list \<Rightarrow> json" where
  "conflict_body k vs =
     JObj [(''detail'', JObj [(''key'', JStr k), (''versions'', siblings_json vs)])]"

definition get_key_route ::
  "(string \<Rightarrow> bytes) \<Rightarrow> net \<Rightarrow> node_id \<Rightarrow> key \<Rightarrow> delivery completion list \<Rightarrow> world \<Rightarrow>
     (py_error + response) \<times> world" where
  "get_key_route D nt self k futures w =
     (case get_key D nt self k futures (wd_cluster w) of
        (Inl (Raised e), c) \<Rightarrow> (Inl e, w\<lparr>wd_cluster := c\<rparr>)
      | (Inl (Conflict vs), c) \<Rightarrow> (Inr (409, conflict_body k vs), w\<lparr>wd_cluster := c\<rparr>)
      | (Inr v, c) \<Rightarrow> (Inr (200, key_value_json (key_value_of k v)), w\<lparr>wd_cluster := c\<rparr>))"

definition delete_key_route ::
  "(string \<Rightarrow> bytes) \<Rightarrow> net \<Rightarrow> node_id \<Rightarrow> key \<Rightarrow> delivery completion list \<Rightarrow> world \<Rightarrow>
     (py_error + response) \<times> world" where
  "delete_key_route D nt self k futures w =
     (case delete_key D nt self k futures (wd_cluster w) of
        (Inl e, _, c) \<Rightarrow> (Inl e, w\<lparr>wd_cluster := c\<rparr>)
      | (Inr deleted, _, c) \<Rightarrow>
          (if \<not> deleted then Inl (HTTPException 404)
           else Inr (200, delete_json \<lparr>dr_key = k, dr_deleted = True\<rparr>), w\<lparr>wd_cluster := c\<rparr>))"

definition peer_states :: "node \<Rightarrow> real \<Rightarrow> node_id list \<Rightarrow> (node_id, string) dict" where
  "peer_states nd now order =
     (let down = down_peers nd now in map (\<lambda>p. (p, if p \<in> down then ''down'' else ''up'')) order)"

definition cluster_state ::
  "config \<Rightarrow> node_id \<Rightarrow> real \<Rightarrow> node_id list \<Rightarrow> world \<Rightarrow> py_error + cluster_state_response" where
  "cluster_state cf self now order w =
     (let nd = wd_cluster w self;
          peers = peer_states nd now order
      in and_then (ring_topology nd) (\<lambda>points.
         and_then (pending_hints nd) (\<lambda>pending.
         and_then (map_err recent_op_out_new (recent_operations (wd_recent w))) (\<lambda>ops.
           Inr \<lparr>cs_node_id = nd_id nd, cs_public_cluster_urls = cf_public_cluster_urls cf,
                cs_ring = \<lparr>rt_virtual_nodes = cf_virtual_nodes cf,
                  rt_points = map (\<lambda>(p, i). \<lparr>rp_position = p, rp_owner = i\<rparr>) points\<rparr>,
                cs_peers = peers, cs_pending_hints = pending, cs_recent_ops = ops\<rparr>))))"

definition healthz :: "node_id \<Rightarrow> world \<Rightarrow> health_response" where
  "healthz self w = \<lparr>hr_node_id = nd_id (wd_cluster w self), hr_status = ''ok''\<rparr>"

subsection \<open>Endpoints\<close>

datatype router = Public | Ops | Internal_Router

datatype endpoint =
    Put_Key key put_request put_inputs
  | Get_Key key "delivery completion list"
  | Delete_Key key "delivery completion list"
  | Cluster_State real "node_id list"
  | Healthz
  | Internal request
  | No_Route

fun router_of :: "endpoint \<Rightarrow> router option" where
  "router_of (Put_Key _ _ _) = Some Public"
| "router_of (Get_Key _ _) = Some Public"
| "router_of (Delete_Key _ _) = Some Public"
| "router_of (Cluster_State _ _) = Some Public"
| "router_of Healthz = Some Ops"
| "router_of (Internal _) = Some Internal_Router"
| "router_of No_Route = None"

text \<open>
  What an endpoint answers: an \<open>HTTPException\<close> becomes a response (its detail text is not part of
  \<open>py_error\<close> and is left empty), any other exception leaves the endpoint.
\<close>

definition answer_of :: "py_error + response \<Rightarrow> answer" where
  "answer_of r =
     (case r of
        Inl (HTTPException status) \<Rightarrow> Inr (status, detail_body '''')
      | Inl e \<Rightarrow> Inl e
      | Inr resp \<Rightarrow> Inr resp)"

text \<open>An internal handler's status 500 stands for an exception that left it.\<close>

definition internal_route :: "net \<Rightarrow> node_id \<Rightarrow> request \<Rightarrow> world \<Rightarrow> (py_error + response) \<times> world" where
  "internal_route nt self r w =
     (case serve nt r (wd_cluster w self) of
        (resp, nd) \<Rightarrow>
          (if fst resp = 500 then Inl RuntimeError else Inr resp, w\<lparr>wd_cluster := (wd_cluster w)(self := nd)\<rparr>))"

fun endpoint_handler ::
  "(string \<Rightarrow> bytes) \<Rightarrow> net \<Rightarrow> (real \<Rightarrow> string) \<Rightarrow> config \<Rightarrow> token_table \<Rightarrow> node_id \<Rightarrow> endpoint \<Rightarrow> handler" where
  "endpoint_handler D nt repr cf tokens self (Put_Key k body ins) req w =
     map_prod answer_of id (guarded (check_key tokens) req k (put_key_route D nt self k body ins) w)"
| "endpoint_handler D nt repr cf tokens self (Get_Key k futures) req w =
     map_prod answer_of id (guarded (check_key tokens) req k (get_key_route D nt self k futures) w)"
| "endpoint_handler D nt repr cf tokens self (Delete_Key k futures) req w =
     map_prod answer_of id (guarded (check_key tokens) req k (delete_key_route D nt self k futures) w)"
| "endpoint_handler D nt repr cf tokens self (Cluster_State now order) req w =
     (map_sum id (\<lambda>r. (200, cluster_state_json repr r)) (cluster_state cf self now order w), None, w)"
| "endpoint_handler D nt repr cf tokens self Healthz req w = (Inr (200, health_json (healthz self w)), None, w)"
| "endpoint_handler D nt repr cf tokens self (Internal r) req w =
     (case internal_route nt self r w of (res, w') \<Rightarrow> (answer_of res, None, w'))"
| "endpoint_handler D nt repr cf tokens self No_Route req w = (Inr (404, detail_body ''Not Found''), None, w)"

end
