(* ===== verification/App.thy ===== *)
theory App
  imports Api
begin

section \<open>Building and serving the applications\<close>

text \<open>
  Models \<open>src/dynamokv/main.py\<close> and \<open>run.py\<close>: the storage of a node and its encryption key, the members
  of the cluster, the paths of the log files, the applications with their routers and middleware, and
  how the production entry point wires them. An application keeps its middleware outermost first:
  \<open>add_middleware\<close> puts the new one around the others.

  \<open>disk\<close> is what a node finds on its disk: key files, databases and text files by path, and the
  directories. The cipher of a key, the nonces, the generated key and the digest of the ring are
  parameters, as in \<open>Crypto\<close> and \<open>Hash_Ring\<close>. TLS contexts and the servers themselves are not modelled.
\<close>

subsection \<open>Paths\<close>

text \<open>\<open>pathlib.PurePosixPath\<close>: a root and the components without the empty ones and the dots.\<close>

record path =
  pa_root :: string
  pa_parts :: "string list"

definition path_root :: "string \<Rightarrow> string" where
  "path_root s =
     (if take 2 s = ''//'' \<and> take 3 s \<noteq> ''///'' then ''//'' else if take 1 s = ''/'' then ''/'' else '''')"

definition path_of :: "string \<Rightarrow> path" where
  "path_of s =
     \<lparr>pa_root = path_root s,
      pa_parts = filter (\<lambda>x. x \<noteq> '''' \<and> x \<noteq> ''.'') (split_on (CHR ''/'') s)\<rparr>"

definition path_parent :: "path \<Rightarrow> path" where
  "path_parent p = p\<lparr>pa_parts := butlast (pa_parts p)\<rparr>"

definition path_join :: "path \<Rightarrow> string \<Rightarrow> path" where
  "path_join p name =
     (let q = path_of name
      in if pa_root q \<noteq> '''' then q else p\<lparr>pa_parts := pa_parts p @ pa_parts q\<rparr>)"

definition path_str :: "path \<Rightarrow> string" where
  "path_str p =
     (if pa_root p = '''' \<and> pa_parts p = [] then ''.'' else pa_root p @ join_with ''/'' (pa_parts p))"

definition beside_db :: "config \<Rightarrow> string \<Rightarrow> string" where
  "beside_db cf ending = path_str (path_join (path_parent (path_of (cf_db_path cf))) (cf_node_id cf @ ending))"

definition node_encryption_key_path :: "config \<Rightarrow> string" where
  "node_encryption_key_path cf = beside_db cf ''.key''"

definition default_audit_log_path :: "config \<Rightarrow> string" where
  "default_audit_log_path cf = beside_db cf ''.audit.log''"

definition default_internal_audit_log_path :: "config \<Rightarrow> string" where
  "default_internal_audit_log_path cf = beside_db cf ''.internal-audit.log''"

subsection \<open>Storage\<close>

record disk =
  dk_keys :: "(string, bytes) dict"
  dk_dbs :: "(string, sqlite_storage) dict"
  dk_texts :: "(string, string) dict"
  dk_dirs :: "string list"

text \<open>What the process takes from outside: the cipher of a key, the nonces by database, a generated key.\<close>

record platform =
  pf_aes :: "bytes \<Rightarrow> aesgcm"
  pf_nonces :: "string \<Rightarrow> nat \<Rightarrow> bytes"
  pf_fresh_key :: bytes
  pf_digest :: "string \<Rightarrow> bytes"
  pf_clock :: real

definition open_db :: "string \<Rightarrow> disk \<Rightarrow> sqlite_storage" where
  "open_db p dk = dict_get (dk_dbs dk) p (sqlite_new p)"

definition encrypted_db :: "platform \<Rightarrow> config \<Rightarrow> string \<Rightarrow> disk \<Rightarrow> storage \<times> disk" where
  "encrypted_db pf cf p dk =
     (let inner = open_db p dk
      in case load_or_create_encryption_key (pf_fresh_key pf) (node_encryption_key_path cf) (dk_keys dk) of
           (key, keys) \<Rightarrow>
             (Encrypted (Sqlite inner) (pf_aes pf key) (pf_nonces pf p) 0,
              dk\<lparr>dk_keys := keys, dk_dbs := dict_put p inner (dk_dbs dk)\<rparr>))"

definition build_storage_from_config :: "platform \<Rightarrow> config \<Rightarrow> disk \<Rightarrow> storage \<times> disk" where
  "build_storage_from_config pf cf dk =
     (if cf_storage_backend cf = ''memory'' then (Memory memory_new, dk)
      else encrypted_db pf cf (cf_db_path cf) dk)"

definition build_hint_storage_from_config :: "platform \<Rightarrow> config \<Rightarrow> disk \<Rightarrow> storage \<times> disk" where
  "build_hint_storage_from_config pf cf dk =
     (if cf_storage_backend cf = ''memory'' then (Memory memory_new, dk)
      else encrypted_db pf cf (cf_db_path cf @ ''.hints'') dk)"

subsection \<open>Members\<close>

definition cluster_nodes_from_config :: "config \<Rightarrow> node_id list" where
  "cluster_nodes_from_config cf = split_list (cf_cluster_nodes cf)"

text \<open>The dictionary comprehension over the other members.\<close>

definition peers_dict :: "(node_id \<Rightarrow> url) \<Rightarrow> node_id list \<Rightarrow> node_id \<Rightarrow> (node_id, url) dict" where
  "peers_dict url_of nodes self =
     foldl (\<lambda>d i. dict_put i (url_of i) d) [] (filter (\<lambda>i. i \<noteq> self) nodes)"

definition public_peer_url :: "config \<Rightarrow> node_id \<Rightarrow> url" where
  "public_peer_url cf i = ''http://'' @ i @ '':'' @ dump_int (cf_port cf)"

definition internal_peer_url :: "config \<Rightarrow> node_id \<Rightarrow> url" where
  "internal_peer_url cf i = ''https://'' @ i @ '':'' @ dump_int (cf_internal_port cf)"

subsection \<open>Applications\<close>

datatype middleware = Audit_Log string | Request_Log | Request_Metrics | Cors "string list"

record app =
  ap_self :: node_id
  ap_tokens :: token_table
  ap_worker :: "real option"
  ap_lifespan :: bool
  ap_routers :: "(string \<times> router) list"
  ap_middleware :: "middleware list"
  ap_mounts :: "(string \<times> string) list"

definition app_new :: "node_id \<Rightarrow> token_table \<Rightarrow> real option \<Rightarrow> bool \<Rightarrow> app" where
  "app_new self tokens interval lifespan =
     \<lparr>ap_self = self, ap_tokens = tokens, ap_worker = interval, ap_lifespan = lifespan, ap_routers = [],
      ap_middleware = [], ap_mounts = []\<rparr>"

definition include_router :: "string \<Rightarrow> router \<Rightarrow> app \<Rightarrow> app" where
  "include_router mounted r a = a\<lparr>ap_routers := ap_routers a @ [(mounted, r)]\<rparr>"

definition add_middleware :: "middleware \<Rightarrow> app \<Rightarrow> app" where
  "add_middleware m a = a\<lparr>ap_middleware := m # ap_middleware a\<rparr>"

definition add_audit_middleware :: "string \<Rightarrow> app \<Rightarrow> app" where
  "add_audit_middleware p a = add_middleware (Audit_Log p) a"

definition add_request_log_middleware :: "app \<Rightarrow> app" where
  "add_request_log_middleware a = add_middleware Request_Log a"

definition add_metrics_middleware :: "app \<Rightarrow> app" where
  "add_metrics_middleware a = add_middleware Request_Metrics a"

definition add_dashboard :: "config \<Rightarrow> disk \<Rightarrow> app \<Rightarrow> app" where
  "add_dashboard cf dk a =
     (let a' = (if cf_cors_origins cf \<noteq> [] then add_middleware (Cors (cf_cors_origins cf)) a else a)
      in if cf_frontend_dist_dir cf \<in> set (dk_dirs dk)
         then a'\<lparr>ap_mounts := ap_mounts a' @ [(''/dashboard'', cf_frontend_dist_dir cf)]\<rparr> else a')"

text \<open>What the life cycle of an application does to its gossip worker: start, serve, stop.\<close>

definition worker_started :: "app \<Rightarrow> bool" where
  "worker_started a \<longleftrightarrow> ap_lifespan a \<and> ap_worker a \<noteq> None"

definition create_public_app :: "config \<Rightarrow> disk \<Rightarrow> node_id \<Rightarrow> json \<Rightarrow> string \<Rightarrow> app" where
  "create_public_app cf dk self tokens audit_log_path =
     (let a0 = app_new self (Some tokens) None False;
          a1 = include_router ''/v1'' Public a0;
          a2 = include_router '''' Ops a1;
          a3 = add_audit_middleware audit_log_path a2;
          a4 = add_request_log_middleware a3;
          a5 = add_metrics_middleware a4
      in add_dashboard cf dk a5)"

definition create_internal_app :: "node_id \<Rightarrow> real option \<Rightarrow> string option \<Rightarrow> app" where
  "create_internal_app self interval audit_log_path =
     (let a0 = app_new self None interval True;
          a1 = include_router '''' Internal_Router a0;
          a2 = (case audit_log_path of None \<Rightarrow> a1 | Some p \<Rightarrow> add_audit_middleware p a1);
          a3 = add_request_log_middleware a2
      in add_metrics_middleware a3)"

definition or_else :: "'a option \<Rightarrow> 'a \<Rightarrow> 'a" where
  "or_else x y = (case x of None \<Rightarrow> y | Some z \<Rightarrow> z)"

record app_args =
  aa_storage :: "storage option"
  aa_node_id :: "node_id option"
  aa_cluster_nodes :: "node_id list option"
  aa_n :: "int option"
  aa_r :: "int option"
  aa_w :: "int option"
  aa_auth_tokens :: "json option"
  aa_audit_log_path :: "string option"

definition create_app :: "platform \<Rightarrow> config \<Rightarrow> disk \<Rightarrow> app_args \<Rightarrow> py_error + app \<times> node \<times> disk" where
  "create_app pf cf dk aa =
     (let production = (aa_storage aa = None);
          (storage, dk1) = (case aa_storage aa of Some s \<Rightarrow> (s, dk) | None \<Rightarrow> build_storage_from_config pf cf dk);
          self = or_else (aa_node_id aa) (cf_node_id cf);
          nodes = (case aa_cluster_nodes aa of
                     Some ns \<Rightarrow> ns
                   | None \<Rightarrow> if production then cluster_nodes_from_config cf else [self]);
          n = or_else (aa_n aa) (if production then cf_n cf else 1);
          r = or_else (aa_r aa) (if production then cf_r cf else 1);
          w = or_else (aa_w aa) (if production then cf_w cf else 1);
          timeout = (if production then cf_gossip_interval cf * cf_gossip_multiplier cf else 6)
      in and_then
           (case aa_auth_tokens aa of
              Some t \<Rightarrow> Inr (Some t)
            | None \<Rightarrow>
                if production then map_sum id Some (load_auth_tokens (dk_texts dk1) (cf_auth_tokens_file cf))
                else Inr None)
           (\<lambda>tokens.
              let audit = (case aa_audit_log_path aa of
                             Some p \<Rightarrow> Some p
                           | None \<Rightarrow> if production then Some (default_audit_log_path cf) else None);
                  ring = new_ring (pf_digest pf) nodes (cf_virtual_nodes cf);
                  peers = peers_dict (public_peer_url cf) nodes self;
                  (hints, dk2) = (if production
                                  then map_prod Some id (build_hint_storage_from_config pf cf dk1)
                                  else (None, dk1));
                  nd = node_init (pf_digest pf) self storage (Some ring) (Some peers) n r w hints
                         (pf_clock pf) timeout;
                  worker = (if production \<and> peers \<noteq> [] then Some (cf_gossip_interval cf) else None);
                  a0 = app_new self tokens worker True;
                  a1 = include_router ''/v1'' Public a0;
                  a2 = include_router '''' Ops a1;
                  a3 = include_router '''' Internal_Router a2;
                  a4 = (case audit of None \<Rightarrow> a3 | Some p \<Rightarrow> add_audit_middleware p a3);
                  a5 = add_request_log_middleware a4;
                  a6 = add_metrics_middleware a5
              in Inr (add_dashboard cf dk2 a6, nd, dk2)))"

subsection \<open>The production entry point\<close>

definition build_node :: "platform \<Rightarrow> config \<Rightarrow> disk \<Rightarrow> node \<times> disk" where
  "build_node pf cf dk =
     (let nodes = cluster_nodes_from_config cf;
          ring = new_ring (pf_digest pf) nodes (cf_virtual_nodes cf);
          peers = peers_dict (internal_peer_url cf) nodes (cf_node_id cf);
          timeout = cf_gossip_interval cf * cf_gossip_multiplier cf;
          (storage, dk1) = build_storage_from_config pf cf dk;
          (hints, dk2) = build_hint_storage_from_config pf cf dk1
      in (node_init (pf_digest pf) (cf_node_id cf) storage (Some ring) (Some peers) (cf_n cf) (cf_r cf) (cf_w cf)
            (Some hints) (pf_clock pf) timeout, dk2))"

text \<open>A server: its application, port and client-certificate policy; the metrics server has no app record.\<close>

datatype client_cert = Cert_None | Cert_Required | No_Tls

record server =
  sv_port :: int
  sv_client_cert :: client_cert
  sv_app :: "app option"

definition run_main :: "platform \<Rightarrow> config \<Rightarrow> disk \<Rightarrow> py_error + node \<times> server list \<times> disk" where
  "run_main pf cf dk =
     (case build_node pf cf dk of
        (nd, dk1) \<Rightarrow>
          let has_peers = (1 < length (cluster_nodes_from_config cf));
              worker = (if has_peers then Some (cf_gossip_interval cf) else None)
          in and_then (load_auth_tokens (dk_texts dk1) (cf_auth_tokens_file cf)) (\<lambda>tokens.
               let public_app = create_public_app cf dk1 (nd_id nd) tokens (default_audit_log_path cf);
                   internal_app = create_internal_app (nd_id nd) worker (Some (default_internal_audit_log_path cf))
               in Inr (nd,
                    [\<lparr>sv_port = cf_port cf, sv_client_cert = Cert_None, sv_app = Some public_app\<rparr>,
                     \<lparr>sv_port = cf_internal_port cf, sv_client_cert = Cert_Required, sv_app = Some internal_app\<rparr>,
                     \<lparr>sv_port = cf_metrics_port cf, sv_client_cert = No_Tls, sv_app = None\<rparr>], dk1)))"

subsection \<open>Serving a request\<close>

text \<open>
  What one request takes from outside: the clock readings of the middleware, and what Starlette's
  \<open>CORSMiddleware\<close> would answer it. By its documentation that middleware intercepts preflight requests,
  which are \<open>OPTIONS\<close> requests with the headers \<open>Origin\<close> and \<open>Access-Control-Request-Method\<close>, and passes every
  other request on; the headers that it adds to responses are not modelled.
\<close>

record timing =
  tm_audit :: real
  tm_log :: log_clock
  tm_start :: real
  tm_end :: real
  tm_preflight :: response

definition preflight :: "http_request \<Rightarrow> bool" where
  "preflight req \<longleftrightarrow>
     rq_method req = ''OPTIONS'' \<and> map_of (rq_headers req) ''origin'' \<noteq> None \<and>
     map_of (rq_headers req) ''access-control-request-method'' \<noteq> None"

fun through :: "(real \<Rightarrow> string) \<Rightarrow> timing \<Rightarrow> node_id \<Rightarrow> middleware \<Rightarrow> handler \<Rightarrow> handler" where
  "through repr t self (Audit_Log p) h = audit_dispatch repr (tm_audit t) p h"
| "through repr t self Request_Log h = log_dispatch repr (tm_log t) (Some self) h"
| "through repr t self Request_Metrics h = metrics_dispatch (tm_start t) (tm_end t) h"
| "through repr t self (Cors origins) h =
     (\<lambda>req w. if preflight req then (Inr (tm_preflight t), None, w) else h req w)"

definition routed_handler ::
  "(string \<Rightarrow> bytes) \<Rightarrow> net \<Rightarrow> (real \<Rightarrow> string) \<Rightarrow> config \<Rightarrow> app \<Rightarrow> endpoint \<Rightarrow> handler" where
  "routed_handler D nt repr cf a ep =
     (if \<exists>r \<in> set (map snd (ap_routers a)). router_of ep = Some r
      then endpoint_handler D nt repr cf (ap_tokens a) (ap_self a) ep
      else endpoint_handler D nt repr cf (ap_tokens a) (ap_self a) No_Route)"

definition serve_app ::
  "(string \<Rightarrow> bytes) \<Rightarrow> net \<Rightarrow> (real \<Rightarrow> string) \<Rightarrow> config \<Rightarrow> app \<Rightarrow> timing \<Rightarrow> endpoint \<Rightarrow> handler" where
  "serve_app D nt repr cf a t ep =
     foldr (through repr t (ap_self a)) (ap_middleware a) (routed_handler D nt repr cf a ep)"

end
