(* ===== verification/Service.thy ===== *)
theory Service
  imports App Examples
begin

section \<open>What a served application guarantees\<close>

text \<open>
  The properties of the applications as they are wired: which calls reach which handler, that every
  answer is accounted for once in the audit log, the request log, the metrics and the list of recent
  operations, that the public application does nothing for a caller whom the token table does not
  allow it, and that the dashboard's view never fails.
\<close>

subsection \<open>A sequence of calls\<close>

record call =
  cl_timing :: timing
  cl_request :: http_request
  cl_endpoint :: endpoint

text \<open>Serving calls one after the other: the answered ones, with the client and the status, and the state.\<close>

type_synonym answered = "call \<times> json option \<times> nat"

fun serve_calls ::
  "(string \<Rightarrow> bytes) \<Rightarrow> net \<Rightarrow> (real \<Rightarrow> string) \<Rightarrow> config \<Rightarrow> app \<Rightarrow> call list \<Rightarrow> world \<Rightarrow> answered list \<times> world" where
  "serve_calls D nt repr cf a [] w = ([], w)"
| "serve_calls D nt repr cf a (x # xs) w =
     (case serve_app D nt repr cf a (cl_timing x) (cl_endpoint x) (cl_request x) w of
        (Inl e, who, w') \<Rightarrow> serve_calls D nt repr cf a xs w'
      | (Inr resp, who, w') \<Rightarrow>
          map_prod ((#) (x, who, fst resp)) id (serve_calls D nt repr cf a xs w'))"

text \<open>What one answer leaves behind.\<close>

fun audit_line :: "(real \<Rightarrow> string) \<Rightarrow> answered \<Rightarrow> string" where
  "audit_line repr (x, who, status) =
     dumps (audit_entry repr (tm_audit (cl_timing x)) (cl_request x) who status) @ newline"

fun entry_of :: "node_id \<Rightarrow> answered \<Rightarrow> log_entry" where
  "entry_of self (x, who, status) =
     (let t = tm_log (cl_timing x)
      in log_entry_new (lc_now t) (Some self) (cl_request x) ((lc_end t - lc_start t) * 1000) status)"

definition log_line :: "(real \<Rightarrow> string) \<Rightarrow> node_id \<Rightarrow> answered \<Rightarrow> string" where
  "log_line repr self y = dumps (log_entry_json repr (entry_of self y))"

fun op_of :: "node_id \<Rightarrow> answered \<Rightarrow> recent_op" where
  "op_of self (x, who, status) = operation_entry (entry_of self (x, who, status)) (cl_request x) status"

fun metric_calls :: "answered \<Rightarrow> metric list" where
  "metric_calls (x, who, status) =
     [Count (rq_method (cl_request x)) (rq_path (cl_request x)) (dec_nat status),
      Latency (rq_method (cl_request x)) (rq_path (cl_request x)) (tm_end (cl_timing x) - tm_start (cl_timing x))]"

definition client_op :: "answered \<Rightarrow> bool" where
  "client_op y \<longleftrightarrow> is_client_path (rq_path (cl_request (fst y)))"

definition latest :: "'a list \<Rightarrow> 'a list" where
  "latest xs = drop (length xs - max_entries) xs"

lemma latest_short: "length xs \<le> max_entries \<Longrightarrow> latest xs = xs"
  by (simp add: latest_def)

lemma length_latest: "length (latest xs) \<le> max_entries"
  by (simp add: latest_def)

lemma record_operation_latest: "record_operation e xs = latest (xs @ [e])"
  by (simp add: record_operation_def latest_def Let_def)

lemma latest_append: "latest (latest xs @ ys) = latest (xs @ ys)"
  by (cases "length xs \<le> max_entries") (auto simp: latest_def add.commute)

subsection \<open>Handlers touch the cluster only\<close>

lemma guarded_frame:
  assumes "\<And>w res w'. handler w = (res, w') \<Longrightarrow> \<exists>c. w' = w\<lparr>wd_cluster := c\<rparr>"
    and "guarded check req k handler w = (res, who, w')"
  shows "\<exists>c. w' = w\<lparr>wd_cluster := c\<rparr>"
proof -
  have "\<exists>c. w = w\<lparr>wd_cluster := c\<rparr>" by (intro exI [of _ "wd_cluster w"]) simp
  then show ?thesis using assms by (auto simp: guarded_def split: prod.splits sum.splits)
qed

lemma routes_frame:
  "put_key_route D nt self k body ins w = (res, w') \<Longrightarrow> \<exists>c. w' = w\<lparr>wd_cluster := c\<rparr>"
  "get_key_route D nt self k futures w = (res, w') \<Longrightarrow> \<exists>c. w' = w\<lparr>wd_cluster := c\<rparr>"
  "delete_key_route D nt self k futures w = (res, w') \<Longrightarrow> \<exists>c. w' = w\<lparr>wd_cluster := c\<rparr>"
  "internal_route nt self r w = (res, w') \<Longrightarrow> \<exists>c. w' = w\<lparr>wd_cluster := c\<rparr>"
  by (auto simp: put_key_route_def get_key_route_def delete_key_route_def internal_route_def
      split: prod.splits sum.splits get_error.splits)

lemma handler_frame:
  assumes "endpoint_handler D nt repr cf tokens self ep req w = (ans, who, w')"
  shows "\<exists>c. w' = w\<lparr>wd_cluster := c\<rparr>"
proof (cases ep)
  case (Internal r)
  then show ?thesis using assms by (auto split: prod.splits dest: routes_frame(4))
next
  case (Put_Key k body ins)
  then show ?thesis using assms by (auto simp: map_prod_def split: prod.splits dest!: guarded_frame [rotated] dest: routes_frame)
next
  case (Get_Key k futures)
  then show ?thesis using assms by (auto simp: map_prod_def split: prod.splits dest!: guarded_frame [rotated] dest: routes_frame)
next
  case (Delete_Key k futures)
  then show ?thesis using assms by (auto simp: map_prod_def split: prod.splits dest!: guarded_frame [rotated] dest: routes_frame)
qed (use assms in \<open>auto intro!: exI [of _ "wd_cluster w"]\<close>)

lemma routed_frame:
  "routed_handler D nt repr cf a ep req w = (ans, who, w') \<Longrightarrow> \<exists>c. w' = w\<lparr>wd_cluster := c\<rparr>"
  unfolding routed_handler_def by (auto split: if_splits dest: handler_frame simp del: endpoint_handler.simps)

subsection \<open>The middleware of the applications\<close>

definition accounting :: "string \<Rightarrow> middleware list" where
  "accounting p = [Request_Metrics, Request_Log, Audit_Log p]"

definition audited_app :: "app \<Rightarrow> string \<Rightarrow> bool" where
  "audited_app a p \<longleftrightarrow> (\<exists>os. ap_middleware a = map Cors os @ accounting p)"

lemma public_app_fields:
  "audited_app (create_public_app cf dk self tokens p) p"
  "ap_self (create_public_app cf dk self tokens p) = self"
  "ap_tokens (create_public_app cf dk self tokens p) = Some tokens"
  "ap_routers (create_public_app cf dk self tokens p) = [(''/v1'', Public), ('''', Ops)]"
proof -
  have "ap_middleware (create_public_app cf dk self tokens p) =
      map Cors (if cf_cors_origins cf = [] then [] else [cf_cors_origins cf]) @ accounting p"
    by (simp add: create_public_app_def add_dashboard_def add_metrics_middleware_def Let_def accounting_def
      add_request_log_middleware_def add_audit_middleware_def add_middleware_def include_router_def app_new_def)
  then show "audited_app (create_public_app cf dk self tokens p) p" unfolding audited_app_def by blast
qed (simp_all add: create_public_app_def add_dashboard_def add_metrics_middleware_def Let_def
    add_request_log_middleware_def add_audit_middleware_def add_middleware_def include_router_def app_new_def)

lemma internal_app_fields:
  "audited_app (create_internal_app self interval (Some p)) p"
  "ap_self (create_internal_app self interval path) = self"
  "ap_tokens (create_internal_app self interval path) = None"
  "ap_routers (create_internal_app self interval path) = [('''', Internal_Router)]"
proof -
  have "ap_middleware (create_internal_app self interval (Some p)) = map Cors [] @ accounting p"
    by (simp add: create_internal_app_def add_metrics_middleware_def Let_def accounting_def
      add_request_log_middleware_def add_audit_middleware_def add_middleware_def include_router_def app_new_def)
  then show "audited_app (create_internal_app self interval (Some p)) p" unfolding audited_app_def by blast
qed (cases path; simp add: create_internal_app_def add_metrics_middleware_def Let_def
    add_request_log_middleware_def add_audit_middleware_def add_middleware_def include_router_def app_new_def)+

text \<open>The requests that \<open>CORSMiddleware\<close>, the outermost middleware where there is one, answers itself.\<close>

definition intercepted :: "app \<Rightarrow> http_request \<Rightarrow> bool" where
  "intercepted a req \<longleftrightarrow> preflight req \<and> (\<exists>os. Cors os \<in> set (ap_middleware a))"

definition recorded :: "app \<Rightarrow> answered \<Rightarrow> bool" where
  "recorded a y \<longleftrightarrow> \<not> intercepted a (cl_request (fst y))"

lemma foldr_cors: "foldr (through repr t self) (map Cors os) h req w =
    (if os \<noteq> [] \<and> preflight req then (Inr (tm_preflight t), None, w) else h req w)"
  by (induction os) auto

lemma intercepted_audited: "ap_middleware a = map Cors os @ accounting p \<Longrightarrow> intercepted a req \<longleftrightarrow> os \<noteq> [] \<and> preflight req"
  by (cases os) (auto simp: intercepted_def accounting_def)

lemma not_intercepted [simp]:
  "routed req \<Longrightarrow> \<not> intercepted a req" "\<not> intercepted (create_internal_app self interval (Some p)) req"
  using internal_app_fields(1)
  by (auto simp: intercepted_def preflight_def routed_def method_to_verb_def create_internal_app_def add_metrics_middleware_def
      add_request_log_middleware_def add_audit_middleware_def add_middleware_def include_router_def app_new_def Let_def)

lemma serve_app_intercepted:
  "audited_app a p \<Longrightarrow> intercepted a req \<Longrightarrow> serve_app D nt repr cf a t ep req w = (Inr (tm_preflight t), None, w)"
  by (auto simp: audited_app_def serve_app_def foldr_cors intercepted_audited)

text \<open>A process whose logger was configured by the request log alone.\<close>

definition logging_ready :: "world \<Rightarrow> bool" where
  "logging_ready w \<longleftrightarrow> (\<exists>lg. lg_handlers lg = [] \<and> wd_logger w = configure_logger lg)"

lemma log_lines_ready: "logging_ready w \<Longrightarrow> log_lines (wd_logger w) msg = [dumps msg]"
  by (auto simp: logging_ready_def configure_logger_def log_lines_def Let_def log_format_def)

text \<open>One call of an audited application, answered or not.\<close>

lemma serve_app_inner:
  assumes "audited_app a p" "\<not> intercepted a req" "routed_handler D nt repr cf a ep req w = (ans, who, w1)"
  shows "serve_app D nt repr cf a t ep req w =
    (case ans of
       Inl e \<Rightarrow> (Inl e, who, w1)
     | Inr resp \<Rightarrow> metrics_dispatch (tm_start t) (tm_end t)
         (log_dispatch repr (tm_log t) (Some (ap_self a)) (audit_dispatch repr (tm_audit t) p (\<lambda>_ _. (Inr resp, who, w1)))) req w)"
  using assms
  by (cases ans) (auto simp: serve_app_def audited_app_def foldr_cors intercepted_audited accounting_def metrics_dispatch_def
      log_dispatch_def audit_dispatch_def Let_def)

text \<open>What an answered call adds to the four records; a call that raised adds nothing.\<close>

definition accounted :: "(real \<Rightarrow> string) \<Rightarrow> node_id \<Rightarrow> string \<Rightarrow> answered list \<Rightarrow> world \<Rightarrow> world \<Rightarrow> bool" where
  "accounted repr self p outs w w' \<longleftrightarrow>
     dict_get (wd_files w') p [] = dict_get (wd_files w) p [] @ concat (map (audit_line repr) outs) \<and>
     wd_stdout w' = wd_stdout w @ map (log_line repr self) outs \<and>
     wd_metrics w' = wd_metrics w @ concat (map metric_calls outs) \<and>
     wd_recent w' = latest (wd_recent w @ map (op_of self) (filter client_op outs)) \<and>
     wd_logger w' = wd_logger w"

lemma accounted_Nil:
  "length (wd_recent w) \<le> max_entries \<Longrightarrow> accounted repr self p [] w (w\<lparr>wd_cluster := c\<rparr>)"
  by (simp add: accounted_def latest_short)

lemma accounted_trans:
  "accounted repr self p xs w w1 \<Longrightarrow> accounted repr self p ys w1 w2 \<Longrightarrow> accounted repr self p (xs @ ys) w w2"
  by (simp add: accounted_def latest_append)

lemma accounted_recent: "accounted repr self p outs w w' \<Longrightarrow> length (wd_recent w') \<le> max_entries"
  by (simp add: accounted_def length_latest)

lemma serve_app_accounted:
  assumes "audited_app a p" "ap_self a = self" "logging_ready w" "length (wd_recent w) \<le> max_entries"
    and "serve_app D nt repr cf a (cl_timing x) (cl_endpoint x) (cl_request x) w = (ans, who, w')"
  shows "accounted repr self p (filter (recorded a) (case ans of Inl e \<Rightarrow> [] | Inr resp \<Rightarrow> [(x, who, fst resp)])) w w'"
proof (cases "intercepted a (cl_request x)")
  case True
  have "w\<lparr>wd_cluster := wd_cluster w\<rparr> = w" by simp
  then show ?thesis
    using assms(5) accounted_Nil [OF assms(4), of repr self p "wd_cluster w"] True
    unfolding serve_app_intercepted [OF assms(1) True] by (auto simp: recorded_def)
next
  case passed: False
  let ?t = "cl_timing x" and ?req = "cl_request x"
  obtain ans1 who1 w1 where inner: "routed_handler D nt repr cf a (cl_endpoint x) ?req w = (ans1, who1, w1)"
    by (metis prod_cases3)
  obtain c where w1: "w1 = w\<lparr>wd_cluster := c\<rparr>" using routed_frame [OF inner] by blast
  have lines: "log_lines (wd_logger w) msg = [dumps msg]" for msg by (rule log_lines_ready) (rule assms(3))
  note eq = serve_app_inner [OF assms(1) passed inner, of ?t]
  show ?thesis
  proof (cases ans1)
    case (Inl e)
    then show ?thesis using eq assms(4,5) w1 by (simp add: accounted_Nil)
  next
    case (Inr resp)
    have short: "latest (wd_recent w) = wd_recent w" by (rule latest_short) (rule assms(4))
    show ?thesis
      using eq assms(2,5) short unfolding Inr w1
      by (cases "is_client_path (rq_path ?req)")
        (auto simp: accounted_def audit_dispatch_def log_dispatch_def metrics_dispatch_def write_entry_def append_file_def
          Let_def lines log_line_def record_operation_latest client_op_def recorded_def passed)
  qed
qed

lemma logging_ready_accounted: "accounted repr self p outs w w' \<Longrightarrow> logging_ready w \<Longrightarrow> logging_ready w'"
  by (simp add: accounted_def logging_ready_def)

lemma serve_calls_accounted:
  assumes "audited_app a p" "ap_self a = self" "logging_ready w" "length (wd_recent w) \<le> max_entries"
    and "serve_calls D nt repr cf a calls w = (outs, w')"
  shows "accounted repr self p (filter (recorded a) outs) w w'"
  using assms(3-5)
proof (induction calls arbitrary: w outs)
  case Nil
  then show ?case using accounted_Nil [of w repr self p "wd_cluster w"] by simp
next
  case (Cons x xs)
  obtain ans who w1 where one: "serve_app D nt repr cf a (cl_timing x) (cl_endpoint x) (cl_request x) w = (ans, who, w1)"
    by (metis prod_cases3)
  obtain outs1 where rest: "serve_calls D nt repr cf a xs w1 = (outs1, w')"
      "outs = (case ans of Inl e \<Rightarrow> [] | Inr resp \<Rightarrow> [(x, who, fst resp)]) @ outs1"
    using Cons.prems(3) one by (cases ans) (auto simp: map_prod_def split: prod.splits)
  note acc = serve_app_accounted [OF assms(1,2) Cons.prems(1,2) one]
  have "accounted repr self p (filter (recorded a) outs1) w1 w'"
    by (rule Cons.IH [OF logging_ready_accounted [OF acc Cons.prems(1)] accounted_recent [OF acc] rest(1)])
  from accounted_trans [OF acc this] show ?case by (simp add: rest(2))
qed

text \<open>Whatever a handler raises and the framework does not turn into a response leaves no record.\<close>

lemma exception_leaves_no_record:
  assumes "audited_app a p" "\<not> intercepted a req" "routed_handler D nt repr cf a ep req w = (Inl e, who, w1)"
  shows "serve_app D nt repr cf a t ep req w = (Inl e, who, w1) \<and> wd_files w1 = wd_files w \<and>
    wd_stdout w1 = wd_stdout w \<and> wd_metrics w1 = wd_metrics w"
  using serve_app_inner [OF assms, of t] routed_frame [OF assms(3)] by auto

subsection \<open>Example calls\<close>

definition ex_settings :: config where
  "ex_settings =
     \<lparr>cf_node_id = ''a'', cf_storage_backend = ''sqlite'', cf_db_path = ''data/a.db'',
      cf_cluster_nodes = ''a,b,c'', cf_port = 8000, cf_virtual_nodes = 1, cf_n = 3, cf_r = 2, cf_w = 2,
      cf_gossip_interval = 2, cf_gossip_multiplier = 3, cf_internal_port = 8443,
      cf_tls_ca_cert = ''certs/ca.crt'', cf_tls_node_cert = ''certs/node/node.crt'',
      cf_tls_node_key = ''certs/node/node.key'', cf_auth_tokens_file = '''', cf_metrics_port = 9090,
      cf_public_cluster_urls = [], cf_frontend_dist_dir = ''frontend/dist'', cf_cors_origins = []\<rparr>"

definition ex_repr :: "real \<Rightarrow> string" where
  "ex_repr x = ''0.0''"

definition ex_disk :: disk where
  "ex_disk = \<lparr>dk_keys = [], dk_dbs = [], dk_texts = [], dk_dirs = []\<rparr>"

definition ex_platform :: platform where
  "ex_platform =
     \<lparr>pf_aes = (\<lambda>_. tag_cipher), pf_nonces = (\<lambda>_ i. [word_of_nat i]), pf_fresh_key = [], pf_digest = bytes_of, pf_clock = 0\<rparr>"

definition ex_app :: app where
  "ex_app = create_public_app ex_settings ex_disk ''a'' ex_tokens ''data/a.audit.log''"

definition ex_world :: world where
  "ex_world =
     \<lparr>wd_cluster = ex_cluster 3, wd_files = [],
      wd_logger = configure_logger \<lparr>lg_level = 0, lg_propagate = True, lg_handlers = []\<rparr>,
      wd_stdout = [], wd_recent = [], wd_metrics = []\<rparr>"

definition ex_timing :: timing where
  "ex_timing = \<lparr>tm_audit = 0, tm_log = \<lparr>lc_start = 0, lc_end = 0, lc_now = 0\<rparr>, tm_start = 0, tm_end = 0, tm_preflight = (200, JStr ''OK'')\<rparr>"

definition ex_call :: "http_request \<Rightarrow> endpoint \<Rightarrow> call" where
  "ex_call req ep = \<lparr>cl_timing = ex_timing, cl_request = req, cl_endpoint = ep\<rparr>"

lemma ex_world_ready: "logging_ready ex_world" "length (wd_recent ex_world) \<le> max_entries"
  by (auto simp: logging_ready_def ex_world_def intro: exI [of _ "\<lparr>lg_level = 0, lg_propagate = True, lg_handlers = []\<rparr>"])

subsection \<open>Accounting\<close>

text \<open>C18. Over any sequence of calls, the public and the internal application record every answer of their
  routes exactly once and in order: one line in the audit file, one line in the request log, one count
  and one latency in the metrics, and, for client key operations only, one recent operation, of which
  the last 200 are kept. Two kinds of calls leave none of these: one whose handler raised an exception
  that is no \<open>HTTPException\<close>, and, where origins for cross-origin requests are set, a preflight request,
  which \<open>CORSMiddleware\<close> answers before any of the records is reached.\<close>

theorem every_answer_accounted:
  assumes "a = create_public_app cf dk self tokens p \<or> a = create_internal_app self interval (Some p)"
    and "logging_ready w" "length (wd_recent w) \<le> max_entries"
    and "serve_calls D nt repr cf a calls w = (outs, w')" "ys = filter (recorded a) outs"
  shows "dict_get (wd_files w') p '''' = dict_get (wd_files w) p '''' @ concat (map (audit_line repr) ys) \<and>
     wd_stdout w' = wd_stdout w @ map (log_line repr self) ys \<and>
     wd_metrics w' = wd_metrics w @ concat (map metric_calls ys) \<and>
     wd_recent w' = latest (wd_recent w @ map (op_of self) (filter client_op ys))"
proof -
  have "audited_app a p" "ap_self a = self"
    using assms(1) public_app_fields [of cf dk self tokens p] internal_app_fields(1) [of self interval p] internal_app_fields(2) [of self interval "Some p"] by auto
  from serve_calls_accounted [OF this assms(2-4)] show ?thesis by (simp add: accounted_def assms(5))
qed

theorem every_answer_accounted_witness:
  "let calls = [ex_call (ex_request ''GET'' ''nobody'' ''k'') (Get_Key ''k'' []), ex_call (ex_request ''GET'' ''x'' '''') Healthz];
       (outs, w') = serve_calls bytes_of ex_net ex_repr ex_settings ex_app calls ex_world
   in map (\<lambda>(x, who, status). status) outs = [401, 200] \<and>
      wd_stdout w' = map (log_line ex_repr ''a'') outs \<and>
      dict_get (wd_files w') ''data/a.audit.log'' '''' = concat (map (audit_line ex_repr) outs)"
proof -
  let ?calls = "[ex_call (ex_request ''GET'' ''nobody'' ''k'') (Get_Key ''k'' []), ex_call (ex_request ''GET'' ''x'' '''') Healthz]"
  obtain outs w' where s: "serve_calls bytes_of ex_net ex_repr ex_settings ex_app ?calls ex_world = (outs, w')"
    by (metis surj_pair)
  have app: "ex_app = create_public_app ex_settings ex_disk ''a'' ex_tokens ''data/a.audit.log'' \<or>
      ex_app = create_internal_app ''a'' None (Some ''data/a.audit.log'')"
    by (simp add: ex_app_def)
  note fields = public_app_fields [of ex_settings ex_disk "''a''" ex_tokens "''data/a.audit.log''", folded ex_app_def]
  have out: "\<not> intercepted ex_app req" for req
    by (simp add: intercepted_def ex_app_def create_public_app_def add_dashboard_def add_metrics_middleware_def Let_def ex_settings_def
        add_request_log_middleware_def add_audit_middleware_def add_middleware_def include_router_def app_new_def)
  have one: "routed_handler bytes_of ex_net ex_repr ex_settings ex_app (Get_Key ''k'' []) (ex_request ''GET'' ''nobody'' ''k'') w =
      (Inr (401, detail_body ''''), Some (JStr ''invalid''), w)" for w
    by (simp add: routed_handler_def fields guarded_def check_key_def get_auth_context_def ex_request_def bearer_def
        dict_get_def get_or_def ex_tokens_def answer_of_def)
  have two: "routed_handler bytes_of ex_net ex_repr ex_settings ex_app Healthz req w =
      (Inr (200, health_json (healthz ''a'' w)), None, w)" for req w
    by (simp add: routed_handler_def fields)
  have "map (\<lambda>(x, who, status). status) outs = [401, 200]"
    using s by (auto simp: ex_call_def serve_app_inner [OF fields(1) out one] serve_app_inner [OF fields(1) out two]
        audit_dispatch_def log_dispatch_def metrics_dispatch_def Let_def split: prod.splits if_splits)
  moreover have "filter (recorded ex_app) outs = outs" by (simp add: recorded_def out)
  ultimately show ?thesis
    using every_answer_accounted [OF app ex_world_ready s refl] s by (simp add: ex_world_def)
qed

subsection \<open>Authorisation in the served application\<close>

fun key_of :: "endpoint \<Rightarrow> key option" where
  "key_of (Put_Key k _ _) = Some k"
| "key_of (Get_Key k _) = Some k"
| "key_of (Delete_Key k _) = Some k"
| "key_of _ = None"

definition status_of :: "answer \<Rightarrow> nat option" where
  "status_of ans = (case ans of Inl e \<Rightarrow> None | Inr resp \<Rightarrow> Some (fst resp))"

lemma serve_app_cluster:
  assumes "audited_app a p" "routed req" "routed_handler D nt repr cf a ep req w = (ans, who, w1)"
    and "serve_app D nt repr cf a t ep req w = (ans', who', w')"
  shows "ans' = ans" "wd_cluster w' = wd_cluster w1"
  using assms(4) unfolding serve_app_inner [OF assms(1) not_intercepted(1) [OF assms(2)] assms(3)]
  by (auto simp: audit_dispatch_def log_dispatch_def metrics_dispatch_def write_entry_def Let_def split: sum.splits if_splits)

text \<open>A refused key operation, by the contract of the guard.\<close>

lemma refused_handler:
  assumes "tokens_ok table" "routed req" "key_of ep = Some k" "\<not> policy table req k"
  shows "\<exists>status who. endpoint_handler D nt repr cf (Some table) self ep req w =
      (Inr (status, detail_body ''''), who, w) \<and> status \<in> {401, 403}"
proof -
  have "\<exists>status who. map_prod answer_of id (guarded (check_key (Some table)) req k h w) =
      (Inr (status, detail_body []), who, w) \<and> status \<in> {401, 403}"
    for h :: "world \<Rightarrow> (py_error + response) \<times> world"
  proof -
    obtain e who where "guarded (check_key (Some table)) req k h w = (Inl e, who, w)" "e \<in> {HTTPException 401, HTTPException 403}"
      using auth.guarded_refused [OF assms(1,2,4), where handler = h and w = w] unfolding check_key_def by blast
    then show ?thesis by (auto simp: answer_of_def)
  qed
  then show ?thesis using assms(3) by (cases ep) auto
qed

text \<open>C19. The public application changes the state of the cluster only for a key operation that the
  token table allows: a key operation that it does not allow is answered 401 or 403 and reaches no
  replica, and a node-to-node request is answered 404.\<close>

theorem public_app_enforces_policy:
  assumes "tokens_ok table" "routed req" "a = create_public_app cf dk self table p"
    and "serve_app D nt repr cf a t ep req w = (ans, who, w')"
    and "\<forall>k. key_of ep = Some k \<longrightarrow> \<not> policy table req k"
  shows "wd_cluster w' = wd_cluster w \<and>
    (case ep of
       Internal r \<Rightarrow> status_of ans = Some 404
     | Put_Key k body ins \<Rightarrow> status_of ans \<in> {Some 401, Some 403}
     | Get_Key k futures \<Rightarrow> status_of ans \<in> {Some 401, Some 403}
     | Delete_Key k futures \<Rightarrow> status_of ans \<in> {Some 401, Some 403}
     | _ \<Rightarrow> True)"
proof -
  note fields = public_app_fields [of cf dk self table p, folded assms(3)]
  obtain ans1 who1 w1 where inner: "routed_handler D nt repr cf a ep req w = (ans1, who1, w1)" by (metis prod_cases3)
  note eq = serve_app_cluster [OF fields(1) assms(2) inner assms(4)]
  show ?thesis
  proof (cases "key_of ep")
    case None
    then show ?thesis using inner eq
      by (cases ep) (auto simp: routed_handler_def fields status_of_def)
  next
    case (Some k)
    then have r: "router_of ep = Some Public" by (cases ep) auto
    obtain status who2 where "endpoint_handler D nt repr cf (Some table) self ep req w =
        (Inr (status, detail_body ''''), who2, w)" "status \<in> {401, 403}"
      using refused_handler [OF assms(1,2) Some] assms(5) Some by blast
    moreover have "routed_handler D nt repr cf a ep req w = endpoint_handler D nt repr cf (Some table) self ep req w"
      by (simp add: routed_handler_def fields r)
    ultimately have "ans1 = Inr (status, detail_body '''')" "w1 = w" "status \<in> {401, 403}"
      using inner by (simp_all del: endpoint_handler.simps)
    then show ?thesis using eq Some by (cases ep) (auto simp: status_of_def)
  qed
qed

theorem public_app_enforces_policy_witness:
  "let (ans, who, w') = serve_app bytes_of ex_net ex_repr ex_settings ex_app ex_timing (Delete_Key ''k'' [(''a'', Delivered, [])])
         (ex_request ''DELETE'' ''adm'' ''k'') ex_world
   in wd_cluster w' = ex_cluster 3 \<and> status_of ans \<in> {Some 401, Some 403}"
proof -
  let ?req = "ex_request ''DELETE'' ''adm'' ''k''" and ?ep = "Delete_Key ''k'' [(''a'', Delivered, [])]"
  obtain ans who w' where s: "serve_app bytes_of ex_net ex_repr ex_settings ex_app ex_timing ?ep ?req ex_world = (ans, who, w')"
    by (metis prod_cases3)
  have no: "\<forall>k. key_of ?ep = Some k \<longrightarrow> \<not> policy ex_tokens ?req k"
    by (auto simp: policy_def ex_request_def ex_tokens_def token_entry_def bearer_def verb_of_def method_to_verb_def
        verbs_for_def namespace_for_key_def)
  have req: "routed ?req" by (rule ex_request_routed) simp
  show ?thesis
    using public_app_enforces_policy [OF ex_tokens_ok req ex_app_def s no] s by (simp add: ex_world_def)
qed

subsection \<open>The dashboard\<close>

lemma sorted_points_ok:
  assumes "ring_ok D r"
  shows "sorted_points r = Inr (map (\<lambda>h. (real h / 2 ^ 64, ring_owner r h)) (sorted_hashes r))"
proof -
  have "position_list r hs = Inr (map (\<lambda>h. (real h / 2 ^ 64, ring_owner r h)) hs)"
    if "set hs \<subseteq> set (sorted_hashes r)" for hs
    using that by (induction hs) (simp_all add: ring_okD(5) [OF assms])
  then show ?thesis by (simp add: sorted_points_def)
qed

lemma pending_counts_ok: "hint_ok s \<Longrightarrow> \<exists>d. pending_counts s ms = Inr d \<and> map fst d = ms"
proof (induction ms)
  case (Cons m ms)
  obtain d where "hs_pending_for s m = Inr d"
    by (rule hint_okE [OF Cons.prems, of m]) (auto dest: hs_pending_for_row)
  then show ?case using Cons by auto
qed simp

definition op_out :: "recent_op \<Rightarrow> recent_op_out" where
  "op_out op =
     \<lparr>oo_timestamp = le_timestamp op, oo_node_id = the (le_node_id op), oo_method = le_method op, oo_path = le_path op,
      oo_key = ro_key op, oo_latency_ms = le_latency_ms op, oo_status_code = le_status_code op,
      oo_outcome = le_outcome op, oo_conflict = ro_conflict op\<rparr>"

lemma op_out_op_of: "recent_op_out_new (op_of self y) = Inr (op_out (op_of self y))"
  by (cases y) (simp add: recent_op_out_new_def op_out_def operation_entry_def log_entry_new_def Let_def
      log_entry.defs recent_op.defs)

lemma map_err_ops: "map_err recent_op_out_new (map (op_of self) ys) = Inr (map (op_out \<circ> op_of self) ys)"
  by (induction ys) (simp_all add: op_out_op_of del: op_of.simps)

text \<open>C20. The view for the dashboard never fails to validate: after any sequence of calls the recorded
  operations have the types that the response model asks for, and a node in a good state always
  answers. The answer lists at most 200 operations, the latest ones, every peer as down exactly when
  gossip believes it down, and every point of the ring with its owner.\<close>

theorem dashboard_never_fails:
  assumes "a = create_public_app cf dk self tokens p" "logging_ready w" "wd_recent w = []"
    and "serve_calls D nt repr cf a calls w = (outs, w')"
    and "node_ok (wd_cluster w' self)" "ring_ok D (nd_ring (wd_cluster w' self))"
  shows "\<exists>r. cluster_state cf self now order w' = Inr r \<and>
    cs_recent_ops r = map (op_out \<circ> op_of self) (latest (filter client_op (filter (recorded a) outs))) \<and> length (cs_recent_ops r) \<le> 200 \<and>
    cs_peers r = map (\<lambda>i. (i, if i \<in> down_peers (wd_cluster w' self) now then ''down'' else ''up'')) order \<and>
    map rp_owner (rt_points (cs_ring r)) = map (ring_owner (nd_ring (wd_cluster w' self))) (sorted_hashes (nd_ring (wd_cluster w' self)))"
proof -
  have short: "length (wd_recent w) \<le> max_entries" using assms(3) by simp
  have "accounted repr self p (filter (recorded a) outs) w w'"
    unfolding assms(1) by (rule serve_calls_accounted [OF public_app_fields(1,2) assms(2) short assms(4) [unfolded assms(1)]])
  then have recent: "wd_recent w' = map (op_of self) (latest (filter client_op (filter (recorded a) outs)))"
    using assms(3) by (simp add: accounted_def latest_def drop_map)
  obtain d where "pending_hints (wd_cluster w' self) = Inr d"
    using pending_counts_ok [OF node_ok_parts(2) [OF assms(5)]] by (auto simp: pending_hints_def)
  moreover have "ring_topology (wd_cluster w' self) =
      Inr (map (\<lambda>h. (real h / 2 ^ 64, ring_owner (nd_ring (wd_cluster w' self)) h)) (sorted_hashes (nd_ring (wd_cluster w' self))))"
    using sorted_points_ok [OF assms(6)] by (simp add: ring_topology_def)
  moreover have "length (latest (filter client_op (filter (recorded a) outs))) \<le> 200"
    using length_latest [of "filter client_op (filter (recorded a) outs)"] by (simp add: max_entries_def)
  ultimately show ?thesis
    by (simp add: cluster_state_def recent_operations_def recent map_err_ops peer_states_def Let_def o_def split_def del: op_of.simps)
qed

theorem dashboard_never_fails_witness:
  "\<exists>r. cluster_state ex_settings ''a'' 1 [''b'', ''c''] ex_world = Inr r \<and> cs_recent_ops r = [] \<and>
     map fst (cs_peers r) = [''b'', ''c'']"
proof -
  have s: "serve_calls bytes_of ex_net ex_repr ex_settings ex_app [] ex_world = ([], ex_world)" by simp
  have recent: "wd_recent ex_world = []" by (simp add: ex_world_def)
  have node: "node_ok (wd_cluster ex_world ''a'')" "ring_ok bytes_of (nd_ring (wd_cluster ex_world ''a''))"
    using cluster_okD [OF ex_cluster_ok, of 3 "''a''"] ex_ring_ok by (simp_all add: ex_world_def)
  show ?thesis
    using dashboard_never_fails [OF ex_app_def ex_world_ready(1) recent s node, of 1 "[''b'', ''c'']"]
    by (auto simp: latest_def)
qed

end
