(* ===== verification/Client_View.thy ===== *)
theory Client_View
  imports Adversary Service
begin

section \<open>What clients see: one map from keys to values and clocks\<close>

text \<open>
  The specification of the public API when nothing goes wrong. A \<open>client_call\<close> is a request for a key
  to the public application of any node. \<open>map_call\<close> answers it from a single map from keys to values
  with their clocks; \<open>system_call\<close> answers it by the served applications (\<open>serve_app\<close>, with the token
  check, the middleware, the coordinator and its replicas), each node with records of its own. The
  requests that were still out when the answer went back are part of the state. Nothing in the program
  waits for them: a session is a list of events, calls and \<open>Settle\<close>, at which whatever is out completes.

  The refinement: on a cluster whose replicas answer and agree, any session in which no call starts while
  requests of an earlier one are out, through any coordinators, with the replicas' answers coming back
  in any order, gets exactly the answers of the map, and once everything has settled the replicas hold
  what the map says. For sessions in which calls overtake such requests it does not hold: a late write
  that reaches a replica after a delete brings the value back there.
\<close>

datatype client_op = Write json | Read | Erase

record client_call =
  cc_at :: node_id
  cc_request :: http_request
  cc_timing :: timing
  cc_key :: key
  cc_op :: client_op
  cc_now :: real
  cc_first :: "node_id list"
  cc_writes :: "node_id list"

fun op_method :: "client_op \<Rightarrow> string" where
  "op_method (Write v) = ''PUT''"
| "op_method Read = ''GET''"
| "op_method Erase = ''DELETE''"

subsection \<open>The specification\<close>

type_synonym entries = "key \<Rightarrow> (json \<times> (node_id, int) dict) option"

definition stored_response :: "key \<Rightarrow> json \<times> (node_id, int) dict \<Rightarrow> response" where
  "stored_response k e = (200, key_value_json \<lparr>kv_key = k, kv_value = fst e, kv_clock = snd e\<rparr>)"

definition bump :: "node_id \<Rightarrow> (node_id, int) dict \<Rightarrow> (node_id, int) dict" where
  "bump i d = dict_put i (dict_get d i 0 + 1) d"

definition map_call :: "json \<Rightarrow> client_call \<Rightarrow> entries \<Rightarrow> response \<times> entries" where
  "map_call table x m =
     (let k = cc_key x
      in if \<not> policy table (cc_request x) k
         then ((if known_token table (cc_request x) then 403 else 401, detail_body ''''), m)
         else case (cc_op x, m k) of
             (Write v, old) \<Rightarrow>
               (let e = (v, bump (cc_at x) (case old of None \<Rightarrow> [] | Some (_, d) \<Rightarrow> d))
                in (stored_response k e, m(k \<mapsto> e)))
           | (Read, None) \<Rightarrow> ((404, detail_body ''''), m)
           | (Read, Some e) \<Rightarrow> (stored_response k e, m)
           | (Erase, None) \<Rightarrow> ((404, detail_body ''''), m)
           | (Erase, Some e) \<Rightarrow> ((200, delete_json \<lparr>dr_key = k, dr_deleted = True\<rparr>), m(k := None)))"

fun map_session :: "json \<Rightarrow> client_call list \<Rightarrow> entries \<Rightarrow> response list \<times> entries" where
  "map_session table [] m = ([], m)"
| "map_session table (x # xs) m =
     (case map_call table x m of (r, m1) \<Rightarrow> map_prod ((#) r) id (map_session table xs m1))"

subsection \<open>The system\<close>

record system =
  sy_digest :: "string \<Rightarrow> bytes"
  sy_net :: net
  sy_repr :: "real \<Rightarrow> string"
  sy_config :: "node_id \<Rightarrow> config"
  sy_app :: "node_id \<Rightarrow> app"
  sy_prefs :: "key \<Rightarrow> node_id list"

definition call_endpoint :: "client_call \<Rightarrow> endpoint" where
  "call_endpoint x =
     (case cc_op x of
        Write v \<Rightarrow> Put_Key (cc_key x) \<lparr>pr_value = v\<rparr> (calm_puts (cc_now x) (cc_first x) (cc_writes x))
      | Read \<Rightarrow> Get_Key (cc_key x) (all_answer (cc_first x))
      | Erase \<Rightarrow> Delete_Key (cc_key x) (all_answer (cc_first x)))"

text \<open>The requests that a handler left out: those of a write and of a delete; late reads change nothing.\<close>

datatype late =
    Late_Put node_id "node_id option" key version "(delivery \<times> delivery) completion list"
  | Late_Delete node_id key "delivery completion list"

fun complete_late :: "net \<Rightarrow> late \<Rightarrow> cluster \<Rightarrow> cluster" where
  "complete_late nt (Late_Put i h k v rest) c = stragglers (guarded_put_op nt i h k v) rest c"
| "complete_late nt (Late_Delete i k rest) c = stragglers (delete_op nt i k) rest c"

definition late_requests :: "system \<Rightarrow> client_call \<Rightarrow> cluster \<Rightarrow> late list" where
  "late_requests sy x c =
     (let D = sy_digest sy; nt = sy_net sy; i = cc_at x; k = cc_key x; prefs = sy_prefs sy k
      in case cc_op x of
           Write v \<Rightarrow>
             (case put_key D nt i k v (calm_puts (cc_now x) (cc_first x) (cc_writes x)) c of
                (Inl e, rest, _) \<Rightarrow> []
              | (Inr ver, rest, _) \<Rightarrow> if rest = [] then [] else [Late_Put i (holder_of D i k prefs c) k ver rest])
         | Read \<Rightarrow> []
         | Erase \<Rightarrow>
             (let rest = fst (snd (delete_key D nt i k (all_answer (cc_first x)) c))
              in if rest = [] then [] else [Late_Delete i k rest]))"

text \<open>The applications' records, the cluster, and the requests that are out.\<close>

type_synonym processes = "(node_id \<Rightarrow> world) \<times> cluster \<times> late list"

definition system_call :: "system \<Rightarrow> client_call \<Rightarrow> processes \<Rightarrow> answer \<times> processes" where
  "system_call sy x = (\<lambda>(ws, c, out).
     let i = cc_at x
     in case serve_app (sy_digest sy) (sy_net sy) (sy_repr sy) (sy_config sy i) (sy_app sy i) (cc_timing x)
               (call_endpoint x) (cc_request x) ((ws i)\<lparr>wd_cluster := c\<rparr>) of
          (ans, who, w) \<Rightarrow>
            (ans, ws(i := w), wd_cluster w,
             if status_of ans \<in> {Some 401, Some 403} then out else out @ late_requests sy x c))"

definition settle :: "system \<Rightarrow> processes \<Rightarrow> processes" where
  "settle sy = (\<lambda>(ws, c, out). (ws, fold (complete_late (sy_net sy)) out c, []))"

datatype event = Call client_call | Settle

fun calls_of :: "event list \<Rightarrow> client_call list" where
  "calls_of [] = []"
| "calls_of (Call x # es) = x # calls_of es"
| "calls_of (Settle # es) = calls_of es"

fun system_session :: "system \<Rightarrow> event list \<Rightarrow> processes \<Rightarrow> answer list \<times> processes" where
  "system_session sy [] s = ([], s)"
| "system_session sy (Call x # es) s =
     (case system_call sy x s of (ans, s1) \<Rightarrow> map_prod ((#) ans) id (system_session sy es s1))"
| "system_session sy (Settle # es) s = system_session sy es (settle sy s)"

text \<open>No call of the session starts while requests of an earlier one are out.\<close>

fun calls_wait :: "system \<Rightarrow> event list \<Rightarrow> processes \<Rightarrow> bool" where
  "calls_wait sy [] s \<longleftrightarrow> True"
| "calls_wait sy (Call x # es) s \<longleftrightarrow> snd (snd s) = [] \<and> calls_wait sy es (snd (system_call sy x s))"
| "calls_wait sy (Settle # es) s \<longleftrightarrow> calls_wait sy es (settle sy s)"

text \<open>The cluster once everything has settled.\<close>

definition settled_cluster :: "system \<Rightarrow> processes \<Rightarrow> cluster" where
  "settled_cluster sy s = fst (snd (settle sy s))"

lemma settled_simps [simp]:
  "settled_cluster sy (ws, c, []) = c" "settled_cluster sy (ws, c, out) = fold (complete_late (sy_net sy)) out c"
  "settle sy (ws, c, []) = (ws, c, [])" "settled_cluster sy (settle sy s) = settled_cluster sy s"
  "snd (snd (settle sy s)) = []"
  by (simp_all add: settled_cluster_def settle_def split: prod.split)

subsection \<open>The relation\<close>

text \<open>What each replica of a key holds, by the map; the counters that writes make are not negative.\<close>

definition versions_of :: "(json \<times> (node_id, int) dict) option \<Rightarrow> version list" where
  "versions_of e = (case e of None \<Rightarrow> [] | Some (v, d) \<Rightarrow> [Version v (VectorClock d)])"

definition counters_ok :: "(node_id, int) dict \<Rightarrow> bool" where
  "counters_ok d \<longleftrightarrow> dict_ok d \<and> (\<forall>(i, n) \<in> set d. 0 \<le> n)"

definition entries_ok :: "entries \<Rightarrow> bool" where
  "entries_ok m \<longleftrightarrow> (\<forall>k v d. m k = Some (v, d) \<longrightarrow> counters_ok d)"

definition holds_entries :: "system \<Rightarrow> key set \<Rightarrow> entries \<Rightarrow> cluster \<Rightarrow> bool" where
  "holds_entries sy ks m c \<longleftrightarrow> entries_ok m \<and> (\<forall>k \<in> ks. all_hold (sy_prefs sy k) k (versions_of (m k)) c)"

definition calm_for :: "system \<Rightarrow> client_call \<Rightarrow> cluster \<Rightarrow> bool" where
  "calm_for sy x c \<longleftrightarrow> calm (sy_digest sy) (sy_net sy) (cc_at x) (cc_key x) (cc_now x) (sy_prefs sy (cc_key x)) c"

definition call_ok :: "system \<Rightarrow> client_call \<Rightarrow> bool" where
  "call_ok sy x \<longleftrightarrow>
     rq_method (cc_request x) = op_method (cc_op x) \<and> (\<forall>v. cc_op x = Write v \<longrightarrow> json_ok v) \<and>
     distinct (cc_first x) \<and> set (cc_first x) = set (sy_prefs sy (cc_key x)) \<and>
     distinct (cc_writes x) \<and> set (cc_writes x) = set (sy_prefs sy (cc_key x))"

text \<open>Every node serves the public application that \<open>run.py\<close> builds, with one table of tokens.\<close>

definition served_with :: "system \<Rightarrow> json \<Rightarrow> bool" where
  "served_with sy table \<longleftrightarrow>
     tokens_ok table \<and> (\<forall>i. \<exists>dk p. sy_app sy i = create_public_app (sy_config sy i) dk i table p)"

subsection \<open>Clocks\<close>

lemma merge_items_fresh:
  "dict_ok (r @ items) \<Longrightarrow> \<forall>(i, n) \<in> set items. 0 \<le> n \<Longrightarrow> merge_items r items = r @ items"
proof (induction items arbitrary: r)
  case (Cons x items)
  obtain i n where x: "x = (i, n)" by (cases x)
  have fresh: "i \<notin> fst ` set r" using Cons.prems(1) by (auto simp: x)
  then have "dict_get r i 0 = 0" by (simp add: dict_get_def map_of_eq_None_iff [THEN iffD2])
  moreover have "dict_put i n r = r @ [(i, n)]" using fresh by (induction r) auto
  ultimately show ?case using Cons.IH [of "r @ [(i, n)]"] Cons.prems by (simp add: x max_def)
qed simp

lemma next_version_entry:
  assumes "entries_ok m"
  shows "next_version i v (versions_of (m k)) =
    Version v (VectorClock (bump i (case m k of None \<Rightarrow> [] | Some (_, d) \<Rightarrow> d)))"
proof (cases "m k")
  case None
  then show ?thesis by (simp add: versions_of_def next_version_def merge_def incremented_def bump_def)
next
  case (Some e)
  obtain u d where e: "e = (u, d)" by (cases e)
  then have "dict_ok d" "\<forall>(i, n) \<in> set d. 0 \<le> n" using assms Some by (auto simp: entries_ok_def counters_ok_def)
  then have "merge_items [] d = d" using merge_items_fresh [of "[]" d] by simp
  then show ?thesis using Some e by (simp add: versions_of_def next_version_def merge_def incremented_def bump_def)
qed

lemma bump_ok:
  assumes "counters_ok d"
  shows "counters_ok (bump i d)"
proof -
  have "0 \<le> dict_get d i 0"
    using assms by (auto simp: counters_ok_def dict_get_def split: option.splits dest!: map_of_SomeD)
  then show ?thesis
    using assms dict_put_subset [of i "dict_get d i 0 + 1" d] by (fastforce simp: counters_ok_def bump_def)
qed

lemma entries_ok_bump:
  assumes "entries_ok m"
  shows "entries_ok (m(k \<mapsto> (v, bump i (case m k of None \<Rightarrow> [] | Some (_, d) \<Rightarrow> d))))"
proof -
  have "counters_ok (case m k of None \<Rightarrow> [] | Some (_, d) \<Rightarrow> d)"
    using assms by (cases "m k") (auto simp: entries_ok_def counters_ok_def [of "[]"])
  then show ?thesis using assms bump_ok by (auto simp: entries_ok_def)
qed

subsection \<open>The effect of an operation\<close>

definition deletes :: "key \<Rightarrow> node_id list \<Rightarrow> action list" where
  "deletes k ms = map (\<lambda>m. StoreDelete m k) ms"

lemma siblings_deletes:
  "cluster_ok c \<Longrightarrow> siblings (run (deletes k ms) c m) k' = (if k' = k \<and> m \<in> set ms then [] else siblings (c m) k')"
proof (induction ms arbitrary: c)
  case (Cons x xs)
  have ok: "cluster_ok (perform (StoreDelete x k) c)" using perform_ok [OF Cons.prems] by (simp del: perform.simps)
  show ?case
    using Cons.IH [OF ok] siblings_perform [OF Cons.prems, of "StoreDelete x k"]
    by (auto simp: deletes_def simp del: perform.simps)
qed (simp add: deletes_def)

lemma quorum_deletes:
  assumes "calm D nt self k now prefs c" "set ms \<subseteq> set prefs" "distinct ms" "\<forall>m \<in> set ms. siblings (c m) k = vs"
    and "quorum_op (delete_op nt self k) th (map (\<lambda>m. (m, Delivered, [])) ms) [] c = (succ, rest, c')"
  shows "stragglers (delete_op nt self k) rest c' = run (deletes k ms) c \<and>
    (\<exists>j. succ = replicate j (vs \<noteq> []) \<and> (ms \<noteq> [] \<longrightarrow> 0 < j)) \<and> min th (int (length ms)) \<le> int (length succ)"
proof -
  let ?P = "\<lambda>ms c. calm D nt self k now prefs c \<and> set ms \<subseteq> set prefs \<and> distinct ms \<and> (\<forall>m \<in> set ms. siblings (c m) k = vs)"
  have step: "delete_op nt self k m Delivered c = (Inr (vs \<noteq> []), perform (StoreDelete m k) c) \<and> ?P ms (perform (StoreDelete m k) c)"
    if p: "?P (m # ms) c" for m ms c
  proof -
    have ok: "cluster_ok c" "wired nt c self k" and r: "responds c self m Delivered"
      using p by (auto simp: calm_def)
    have "reached c self m Delivered" using r by (auto simp: reached_def responds_def)
    then have "delete_op nt self k m Delivered c = (Inr (vs \<noteq> []), perform (StoreDelete m k) c)"
      using delete_op_effect [OF ok] r p by (simp del: perform.simps)
    moreover have "siblings (perform (StoreDelete m k) c m') k = vs" if "m' \<in> set ms" for m'
      using siblings_perform [OF ok(1), of "StoreDelete m k"] p that by (auto simp del: perform.simps)
    ultimately show ?thesis using p by (simp add: calm_perform del: perform.simps)
  qed
  show ?thesis
    using quorum_acts [where P = ?P and act = "\<lambda>m. StoreDelete m k" and op = "delete_op nt self k" and r = "vs \<noteq> []",
        OF step _ assms(5)] assms(1-4)
    by (simp add: deletes_def)
qed

lemma calm_delete_effect:
  assumes "calm D nt self k now prefs c" "all_hold prefs k vs c" "set ms = set prefs" "distinct ms"
  shows "\<exists>rest c'. delete_key D nt self k (all_answer ms) c = (Inr (vs \<noteq> []), rest, c') \<and>
    stragglers (delete_op nt self k) rest c' = run (deletes k ms) c"
proof -
  let ?th = "min (nd_w (c self)) (int (length prefs))"
  have prefs: "preference_list D (c self) k = Inr prefs" "distinct prefs" "prefs \<noteq> []" using assms(1) by (simp_all add: calm_def)
  have len: "length ms = length prefs" using assms(3,4) prefs(2) by (metis distinct_card)
  obtain succ rest c' where q: "quorum_op (delete_op nt self k) ?th (all_answer ms) [] c = (succ, rest, c')"
    by (metis prod_cases3)
  have "\<forall>m \<in> set ms. siblings (c m) k = vs" using assms(2,3) by (simp add: all_hold_def)
  from quorum_deletes [OF assms(1) _ assms(4) this q [unfolded all_answer_def]] assms(3)
  obtain j where j: "stragglers (delete_op nt self k) rest c' = run (deletes k ms) c" "succ = replicate j (vs \<noteq> [])"
      "ms \<noteq> [] \<longrightarrow> 0 < j" "min ?th (int (length ms)) \<le> int (length succ)"
    by auto
  have "ms \<noteq> []" using len prefs(3) by auto
  then have "list_ex (\<lambda>b. b) succ = (vs \<noteq> [])" using j(2,3) by (auto simp: list_ex_iff)
  moreover have "\<not> int (length succ) < ?th" using j(4) len by linarith
  ultimately have "delete_key D nt self k (all_answer ms) c = (Inr (vs \<noteq> []), rest, c')"
    using prefs(1) q by (simp add: delete_key_def Let_def)
  then show ?thesis using j(1) by blast
qed

subsection \<open>The answer of a key route\<close>

definition call_route :: "system \<Rightarrow> client_call \<Rightarrow> world \<Rightarrow> (py_error + response) \<times> world" where
  "call_route sy x =
     (let D = sy_digest sy; nt = sy_net sy; i = cc_at x; k = cc_key x
      in case cc_op x of
           Write v \<Rightarrow> put_key_route D nt i k \<lparr>pr_value = v\<rparr> (calm_puts (cc_now x) (cc_first x) (cc_writes x))
         | Read \<Rightarrow> get_key_route D nt i k (all_answer (cc_first x))
         | Erase \<Rightarrow> delete_key_route D nt i k (all_answer (cc_first x)))"

lemma refusal_status:
  assumes "tokens_ok table" "routed req" "\<not> policy table req k"
  shows "\<exists>who. get_auth_context (Some table) req k = (Inl (HTTPException (if known_token table req then 403 else 401)), who)"
proof -
  obtain verb where verb: "verb_of (rq_method req) = Inr verb" using routed_verb [OF assms(2)] by blast
  have "fst (get_auth_context (Some table) req k) = Inl (HTTPException (if known_token table req then 403 else 401))"
    using get_auth_context_cases [OF assms(1) verb, of k] assms(3) verb
    by (auto simp: policy_def known_token_def split: if_splits)
  then show ?thesis by (metis prod.collapse)
qed

lemma call_routed: "call_ok sy x \<Longrightarrow> routed (cc_request x)"
  by (cases "cc_op x") (auto simp: call_ok_def routed_def method_to_verb_def)

lemma key_route_answer:
  assumes "served_with sy table" "call_ok sy x"
    and "serve_app (sy_digest sy) (sy_net sy) (sy_repr sy) (sy_config sy (cc_at x)) (sy_app sy (cc_at x)) t
           (call_endpoint x) (cc_request x) w = (ans, who, w')"
  shows "if policy table (cc_request x) (cc_key x)
    then ans = answer_of (fst (call_route sy x w)) \<and> wd_cluster w' = wd_cluster (snd (call_route sy x w))
    else ans = Inr (if known_token table (cc_request x) then 403 else 401, detail_body '''') \<and> wd_cluster w' = wd_cluster w"
proof -
  let ?i = "cc_at x" and ?req = "cc_request x" and ?k = "cc_key x"
  obtain dk p where a: "sy_app sy ?i = create_public_app (sy_config sy ?i) dk ?i table p"
    using assms(1) unfolding served_with_def by blast
  have tok: "tokens_ok table" using assms(1) by (simp add: served_with_def)
  note fields = public_app_fields [of "sy_config sy ?i" dk ?i table p, folded a] and routed = call_routed [OF assms(2)]
  obtain ans1 who1 w1 where inner: "routed_handler (sy_digest sy) (sy_net sy) (sy_repr sy) (sy_config sy ?i) (sy_app sy ?i)
      (call_endpoint x) ?req w = (ans1, who1, w1)"
    by (metis prod_cases3)
  note eq = serve_app_cluster [OF fields(1) routed inner assms(3)]
  have "routed_handler (sy_digest sy) (sy_net sy) (sy_repr sy) (sy_config sy ?i) (sy_app sy ?i) (call_endpoint x) ?req w =
      map_prod answer_of id (guarded (check_key (Some table)) ?req ?k (call_route sy x) w)"
    by (cases "cc_op x") (simp_all add: routed_handler_def fields call_endpoint_def call_route_def Let_def)
  then have g: "(ans1, who1, w1) = map_prod answer_of id (guarded (check_key (Some table)) ?req ?k (call_route sy x) w)"
    using inner by simp
  have check: "check_key (Some table) = get_auth_context (Some table)" by (intro ext) (simp add: check_key_def)
  show ?thesis
  proof (cases "policy table ?req ?k")
    case True
    then show ?thesis
      using g eq auth.guarded_granted [OF tok routed True, of "call_route sy x" w] unfolding check by auto
  next
    case False
    then show ?thesis
      using g eq refusal_status [OF tok routed False] by (auto simp: guarded_def check answer_of_def)
  qed
qed

subsection \<open>The refinement\<close>

lemma versions_of_single: "versions_of e = [] \<or> (\<exists>u. versions_of e = [u])"
  by (auto simp: versions_of_def split: option.splits)

lemma holds_entries_key: "holds_entries sy ks m c \<Longrightarrow> k \<in> ks \<Longrightarrow> all_hold (sy_prefs sy k) k (versions_of (m k)) c"
  by (simp add: holds_entries_def)

text \<open>An operation on one key that leaves the other keys alone.\<close>

lemma holds_entries_update:
  assumes "holds_entries sy ks m c" "entries_ok (m(k := e))"
    and "\<And>n. n \<in> set (sy_prefs sy k) \<Longrightarrow> siblings (c' n) k = versions_of e"
    and "\<And>n k'. k' \<noteq> k \<Longrightarrow> siblings (c' n) k' = siblings (c n) k'"
  shows "holds_entries sy ks (m(k := e)) c'"
  using assms by (auto simp: holds_entries_def all_hold_def)

lemma write_refines:
  assumes calm: "calm_for sy x c" and holds: "holds_entries sy ks m c" "cc_key x \<in> ks" and ok: "call_ok sy x" "cc_op x = Write v"
    and w: "wd_cluster w = c"
  defines "e \<equiv> (v, bump (cc_at x) (case m (cc_key x) of None \<Rightarrow> [] | Some (_, d) \<Rightarrow> d))"
  shows "\<exists>c' as. call_route sy x w = (Inr (stored_response (cc_key x) e), w\<lparr>wd_cluster := c'\<rparr>) \<and>
    fold (complete_late (sy_net sy)) (late_requests sy x c) c' = run as c \<and> (\<forall>a \<in> set as. store_action a) \<and>
    holds_entries sy ks (m(cc_key x \<mapsto> e)) (run as c)"
proof -
  let ?i = "cc_at x" and ?k = "cc_key x" and ?prefs = "sy_prefs sy (cc_key x)" and ?vs = "versions_of (m (cc_key x))"
  let ?ver = "Version v (VectorClock (snd e))"
  have entries: "entries_ok m" using holds(1) by (simp add: holds_entries_def)
  have ver: "next_version ?i v ?vs = ?ver" using next_version_entry [OF entries] by (simp add: e_def)
  have args: "json_ok v" "set (cc_first x) = set ?prefs" "distinct (cc_first x)" "set (cc_writes x) = set ?prefs" "distinct (cc_writes x)"
    using ok by (simp_all add: call_ok_def)
  note c = calm [unfolded calm_for_def] and h = holds_entries_key [OF holds] versions_of_single [of "m ?k"]
  have len: "length (cc_writes x) = length ?prefs" using args(4,5) c by (metis calm_def distinct_card)
  obtain rest c' where put: "put_key (sy_digest sy) (sy_net sy) ?i ?k v (calm_puts (cc_now x) (cc_first x) (cc_writes x)) c =
        (Inr ?ver, rest, c')"
      "stragglers (guarded_put_op (sy_net sy) ?i (holder_of (sy_digest sy) ?i ?k ?prefs c) ?k ?ver) rest c' =
        run (puts ?k ?ver (cc_writes x)) c"
    using calm_put_effect [OF c h args(1-3), of "cc_writes x"] args(4) len unfolding ver by auto
  have ver_ok: "version_ok ?ver" using version_ok_next [OF args(1), of ?i ?vs] ver by simp
  note sib = siblings_puts [OF calm_ok [OF c] ver_ok args(5)]
  have new: "reconcile (siblings (c n) ?k) ?ver = [?ver]" if "n \<in> set ?prefs" for n
    using calm_next(2) [OF c h that, of v] ver by simp
  have "entries_ok (m(?k \<mapsto> e))" unfolding e_def using entries by (rule entries_ok_bump)
  then have "holds_entries sy ks (m(?k \<mapsto> e)) (run (puts ?k ?ver (cc_writes x)) c)"
    using sib new args(4) by (intro holds_entries_update [OF holds(1)]) (auto simp: versions_of_def e_def)
  moreover have "call_route sy x w = (Inr (stored_response ?k e), w\<lparr>wd_cluster := c'\<rparr>)"
    using put(1) w ok(2)
    by (simp add: call_route_def Let_def put_key_route_def stored_response_def key_value_of_def e_def)
  moreover have "fold (complete_late (sy_net sy)) (late_requests sy x c) c' = run (puts ?k ?ver (cc_writes x)) c"
    using put ok(2) by (auto simp: late_requests_def Let_def)
  moreover have "\<forall>a \<in> set (puts ?k ?ver (cc_writes x)). store_action a" using ver_ok by (auto simp: puts_def)
  ultimately show ?thesis by blast
qed

lemma erase_refines:
  assumes calm: "calm_for sy x c" and holds: "holds_entries sy ks m c" "cc_key x \<in> ks" and ok: "call_ok sy x" "cc_op x = Erase"
    and w: "wd_cluster w = c"
  shows "\<exists>c' as. call_route sy x w =
      (if m (cc_key x) = None then Inl (HTTPException 404) else Inr (200, delete_json \<lparr>dr_key = cc_key x, dr_deleted = True\<rparr>),
       w\<lparr>wd_cluster := c'\<rparr>) \<and>
    fold (complete_late (sy_net sy)) (late_requests sy x c) c' = run as c \<and> (\<forall>a \<in> set as. store_action a) \<and>
    holds_entries sy ks (m(cc_key x := None)) (run as c)"
proof -
  let ?k = "cc_key x" and ?vs = "versions_of (m (cc_key x))"
  have args: "set (cc_first x) = set (sy_prefs sy ?k)" "distinct (cc_first x)" using ok by (simp_all add: call_ok_def)
  note c = calm [unfolded calm_for_def]
  obtain rest c' where del: "delete_key (sy_digest sy) (sy_net sy) (cc_at x) ?k (all_answer (cc_first x)) c = (Inr (?vs \<noteq> []), rest, c')"
      "stragglers (delete_op (sy_net sy) (cc_at x) ?k) rest c' = run (deletes ?k (cc_first x)) c"
    using calm_delete_effect [OF c holds_entries_key [OF holds] args] by blast
  note sib = siblings_deletes [OF calm_ok [OF c], of ?k "cc_first x"]
  have "entries_ok (m(?k := None))" using holds(1) by (auto simp: holds_entries_def entries_ok_def)
  then have "holds_entries sy ks (m(?k := None)) (run (deletes ?k (cc_first x)) c)"
    using sib args(1) by (intro holds_entries_update [OF holds(1)]) (auto simp: versions_of_def)
  moreover have "call_route sy x w =
      (if m ?k = None then Inl (HTTPException 404) else Inr (200, delete_json \<lparr>dr_key = ?k, dr_deleted = True\<rparr>), w\<lparr>wd_cluster := c'\<rparr>)"
    using del(1) w ok(2)
    by (simp add: call_route_def Let_def delete_key_route_def versions_of_def split: option.splits prod.splits)
  moreover have "fold (complete_late (sy_net sy)) (late_requests sy x c) c' = run (deletes ?k (cc_first x)) c"
    using del ok(2) by (auto simp: late_requests_def Let_def)
  moreover have "\<forall>a \<in> set (deletes ?k (cc_first x)). store_action a" by (auto simp: deletes_def)
  ultimately show ?thesis by blast
qed

lemma read_refines:
  assumes calm: "calm_for sy x c" and holds: "holds_entries sy ks m c" "cc_key x \<in> ks" and ok: "call_ok sy x" "cc_op x = Read"
    and w: "wd_cluster w = c"
  shows "call_route sy x w =
    (case m (cc_key x) of None \<Rightarrow> Inl (HTTPException 404) | Some e \<Rightarrow> Inr (stored_response (cc_key x) e), w)"
proof -
  let ?k = "cc_key x" and ?vs = "versions_of (m (cc_key x))"
  have args: "set (cc_first x) = set (sy_prefs sy ?k)" "distinct (cc_first x)" using ok by (simp_all add: call_ok_def)
  note c = calm [unfolded calm_for_def]
  have "preference_list (sy_digest sy) (c (cc_at x)) ?k = Inr (sy_prefs sy ?k)" using c by (simp add: calm_def)
  from get_key_merged [OF this calm_read_any [OF c holds_entries_key [OF holds] versions_of_single args]]
  have get: "get_key (sy_digest sy) (sy_net sy) (cc_at x) ?k (all_answer (cc_first x)) c =
      (if ?vs = [] then Inl (Raised (HTTPException 404)) else Inr (hd ?vs), c)"
    using versions_of_single [of "m ?k"] by auto
  have "w\<lparr>wd_cluster := c\<rparr> = w" using w by simp
  then show ?thesis
    using get w ok(2)
    by (auto simp: call_route_def Let_def get_key_route_def versions_of_def stored_response_def key_value_of_def split: option.splits)
qed

lemma calm_for_run: "calm_for sy x c \<Longrightarrow> \<forall>a \<in> set as. store_action a \<Longrightarrow> calm_for sy x (run as c)"
  by (simp add: calm_for_def calm_run)

lemma system_call_refines:
  assumes "served_with sy table" "call_ok sy x" "calm_for sy x c" "holds_entries sy ks m c" "cc_key x \<in> ks"
    and "map_call table x m = (r, m1)" "system_call sy x (ws, c, []) = (ans, s1)"
  shows "ans = Inr r \<and> holds_entries sy ks m1 (settled_cluster sy s1) \<and>
    (\<exists>as. settled_cluster sy s1 = run as c \<and> (\<forall>a \<in> set as. store_action a))"
proof -
  let ?k = "cc_key x" and ?w = "(ws (cc_at x))\<lparr>wd_cluster := c\<rparr>"
  have w: "wd_cluster ?w = c" by simp
  have id: "\<exists>as. c = run as c \<and> (\<forall>a \<in> set as. store_action a)" by (intro exI [of _ "[]"]) simp
  obtain ans1 who w1 where serve: "serve_app (sy_digest sy) (sy_net sy) (sy_repr sy) (sy_config sy (cc_at x)) (sy_app sy (cc_at x))
      (cc_timing x) (call_endpoint x) (cc_request x) ?w = (ans1, who, w1)"
    by (metis prod_cases3)
  note route = key_route_answer [OF assms(1,2) serve]
  have s1: "ans = ans1" "settled_cluster sy s1 =
      (if status_of ans1 \<in> {Some 401, Some 403} then wd_cluster w1
       else fold (complete_late (sy_net sy)) (late_requests sy x c) (wd_cluster w1))"
    using assms(7) serve by (auto simp: system_call_def Let_def)
  show ?thesis
  proof (cases "policy table (cc_request x) ?k")
    case False
    then show ?thesis using route s1 assms(4,6) w id by (auto simp: map_call_def Let_def status_of_def)
  next
    case True
    then have ran: "ans = answer_of (fst (call_route sy x ?w))" "wd_cluster w1 = wd_cluster (snd (call_route sy x ?w))"
      using route s1 by simp_all
    show ?thesis
    proof (cases "cc_op x")
      case (Write v)
      show ?thesis
        using write_refines [OF assms(3-5,2) Write w] ran s1 True assms(6)
        by (auto simp: map_call_def Let_def Write answer_of_def status_of_def stored_response_def)
    next
      case Read
      have "settled_cluster sy s1 = c"
        using read_refines [OF assms(3-5,2) Read w] ran s1 Read
        by (simp add: late_requests_def Let_def)
      then show ?thesis
        using read_refines [OF assms(3-5,2) Read w] ran True assms(4,6) id
        by (auto simp: map_call_def Let_def Read answer_of_def split: option.splits)
    next
      case Erase
      show ?thesis
        using erase_refines [OF assms(3-5,2) Erase w] ran s1 True assms(4,6)
        by (auto simp: map_call_def Let_def Erase answer_of_def status_of_def fun_upd_idem split: option.splits if_splits)
    qed
  qed
qed

text \<open>C5. The public API refines a map. Take a cluster whose replicas all answer, are believed up and
  agree, for every key that the calls name, on what a map from keys to values and clocks says. Then any
  session of calls, through the applications of any nodes, with the replicas' answers arriving in any
  order, in which no call starts while requests of an earlier one are still out, is answered exactly as
  the map answers it: a write by the new value under the old clock with the coordinator's counter one
  higher, a read by the last value written, a delete by success, and then 404, and a call that the
  tokens do not allow by 401 or 403 and no effect. Once all requests have completed, the replicas hold
  what the map then says.\<close>

theorem api_refines_map:
  assumes "served_with sy table" "\<forall>x \<in> set (calls_of es). call_ok sy x \<and> calm_for sy x (settled_cluster sy s)"
    and "holds_entries sy (cc_key ` set (calls_of es)) m (settled_cluster sy s)" "calls_wait sy es s"
    and "map_session table (calls_of es) m = (rs, m')" "system_session sy es s = (answers, s')"
  shows "answers = map Inr rs \<and> holds_entries sy (cc_key ` set (calls_of es)) m' (settled_cluster sy s')"
proof -
  have "\<forall>x \<in> set (calls_of es). call_ok sy x \<and> calm_for sy x (settled_cluster sy s) \<Longrightarrow> set (calls_of es) \<subseteq> A \<Longrightarrow>
      holds_entries sy (cc_key ` A) m (settled_cluster sy s) \<Longrightarrow> calls_wait sy es s \<Longrightarrow>
      map_session table (calls_of es) m = (rs, m') \<Longrightarrow> system_session sy es s = (answers, s') \<Longrightarrow>
      answers = map Inr rs \<and> holds_entries sy (cc_key ` A) m' (settled_cluster sy s')" for A
  proof (induction es arbitrary: s m rs answers)
    case (Cons e es)
    show ?case
    proof (cases e)
      case Settle
      then show ?thesis using Cons.IH [of "settle sy s" m rs answers] Cons.prems by simp
    next
      case (Call x)
      obtain ws c where s: "s = (ws, c, [])" using Cons.prems(4) Call by (cases s) auto
      obtain r m1 where r: "map_call table x m = (r, m1)" by (metis surj_pair)
      obtain ans s1 where a: "system_call sy x s = (ans, s1)" by (metis surj_pair)
      obtain rs1 where rs1: "map_session table (calls_of es) m1 = (rs1, m')" "rs = r # rs1"
        using Cons.prems(5) r Call by (cases "map_session table (calls_of es) m1") auto
      obtain as1 where as1: "system_session sy es s1 = (as1, s')" "answers = ans # as1"
        using Cons.prems(6) a Call by (cases "system_session sy es s1") auto
      have x: "call_ok sy x" "calm_for sy x c" "cc_key x \<in> cc_key ` A" using Cons.prems(1,2) Call s by auto
      have h: "holds_entries sy (cc_key ` A) m c" using Cons.prems(3) s by simp
      from system_call_refines [OF assms(1) x(1,2) h x(3) r a [unfolded s]]
      obtain as where one: "ans = Inr r" "holds_entries sy (cc_key ` A) m1 (settled_cluster sy s1)"
          "settled_cluster sy s1 = run as c" "\<forall>a \<in> set as. store_action a"
        by blast
      have "\<forall>y \<in> set (calls_of es). call_ok sy y \<and> calm_for sy y (settled_cluster sy s1)"
        using Cons.prems(1) one(3,4) s Call by (auto intro: calm_for_run)
      moreover have "calls_wait sy es s1" using Cons.prems(4) Call a by simp
      ultimately show ?thesis
        using Cons.IH [OF _ _ one(2) _ rs1(1) as1(1)] Cons.prems(2) Call one(1) rs1(2) as1(2) by simp
    qed
  qed simp
  from this [OF assms(2) subset_refl assms(3-6)] show ?thesis .
qed

subsection \<open>A session in the laboratory\<close>

definition lab_system :: system where
  "lab_system =
     \<lparr>sy_digest = lab_digest, sy_net = ex_net, sy_repr = ex_repr, sy_config = (\<lambda>i. ex_settings),
      sy_app = (\<lambda>i. create_public_app ex_settings ex_disk i ex_tokens ''audit.log''), sy_prefs = lab_prefs\<rparr>"

definition lab_call :: "node_id \<Rightarrow> string \<Rightarrow> client_op \<Rightarrow> client_call" where
  "lab_call i tok op =
     \<lparr>cc_at = i, cc_request = ex_request (op_method op) tok ''k'', cc_timing = ex_timing, cc_key = ''k'', cc_op = op,
      cc_now = 0, cc_first = [''node-3'', ''node-1'', ''node-2''], cc_writes = [''node-2'', ''node-3'', ''node-1'']\<rparr>"

definition lab_events :: "event list" where
  "lab_events =
     [Call (lab_call ''node-1'' ''adm'' (Write (JInt 7))), Settle, Call (lab_call ''node-2'' ''adm'' Read),
      Call (lab_call ''node-3'' ''ro'' Read), Call (lab_call ''node-2'' ''nobody'' Read)]"

lemma lab_served: "served_with lab_system ex_tokens"
  by (auto simp: served_with_def lab_system_def ex_tokens_ok)

lemma lab_call_ok:
  assumes "i \<in> set nodes_attacked" "\<forall>v. op = Write v \<longrightarrow> json_ok v"
  shows "call_ok lab_system (lab_call i tok op) \<and> calm_for lab_system (lab_call i tok op) lab_cluster"
proof -
  have "set [''node-3'', ''node-1'', ''node-2''] = set (lab_prefs ''k'')" "set [''node-2'', ''node-3'', ''node-1''] = set (lab_prefs ''k'')"
    unfolding lab_calm(3) [OF assms(1)] by (auto simp: nodes_attacked_def)
  then show ?thesis
    using lab_calm(1) [OF assms(1), of "''k''"] assms(2)
    by (simp add: call_ok_def calm_for_def lab_call_def lab_system_def ex_request_def)
qed

lemma lab_calls_ok: "\<forall>x \<in> set (calls_of lab_events). call_ok lab_system x \<and> calm_for lab_system x lab_cluster"
  using lab_call_ok [of "''node-1''" "Write (JInt 7)" "''adm''"] lab_call_ok [of "''node-2''" Read "''adm''"]
    lab_call_ok [of "''node-3''" Read "''ro''"] lab_call_ok [of "''node-2''" Read "''nobody''"]
  by (simp add: lab_events_def nodes_attacked_def)

text \<open>Reads leave nothing out, so only the write is followed by a \<open>Settle\<close>.\<close>

lemma read_leaves_nothing:
  "cc_op x = Read \<Longrightarrow> snd (snd (snd (system_call sy x s))) = snd (snd s)"
  by (cases s) (simp add: system_call_def Let_def late_requests_def split: prod.split)

lemma lab_waits: "calls_wait lab_system lab_events (ws, lab_cluster, [])"
  by (simp add: lab_events_def lab_call_def read_leaves_nothing)

lemma lab_policy:
  "policy ex_tokens (ex_request ''PUT'' ''adm'' ''k'') ''k''" "policy ex_tokens (ex_request ''GET'' ''adm'' ''k'') ''k''"
  "\<not> policy ex_tokens (ex_request ''GET'' ''ro'' ''k'') ''k''" "\<not> policy ex_tokens (ex_request ''GET'' ''nobody'' ''k'') ''k''"
  "known_token ex_tokens (ex_request ''GET'' ''ro'' ''k'')" "\<not> known_token ex_tokens (ex_request ''GET'' ''nobody'' ''k'')"
  by (auto simp: policy_def known_token_def ex_request_def ex_tokens_def token_entry_def bearer_def verb_of_def method_to_verb_def
      verbs_for_def namespace_for_key_def)

theorem api_refines_map_witness:
  "let stored = stored_response ''k'' (JInt 7, [(''node-1'', 1)])
   in fst (system_session lab_system lab_events (\<lambda>i. ex_world, lab_cluster, [])) =
     [Inr stored, Inr stored, Inr (403, detail_body ''''), Inr (401, detail_body '''')]"
proof -
  let ?m = "\<lambda>k. None :: (json \<times> (node_id, int) dict) option" and ?s = "(\<lambda>i. ex_world, lab_cluster, [])"
  obtain answers s' where s: "system_session lab_system lab_events ?s = (answers, s')"
    by (metis surj_pair)
  have ok: "\<forall>x \<in> set (calls_of lab_events). call_ok lab_system x \<and> calm_for lab_system x (settled_cluster lab_system ?s)"
    using lab_calls_ok by simp
  have "cc_key ` set (calls_of lab_events) = {''k''}" by (simp add: lab_events_def lab_call_def)
  then have holds: "holds_entries lab_system (cc_key ` set (calls_of lab_events)) ?m (settled_cluster lab_system ?s)"
    using lab_calm(2) [of "''node-1''" "''k''"]
    by (simp add: holds_entries_def entries_ok_def lab_system_def versions_of_def nodes_attacked_def)
  have spec: "map_session ex_tokens (calls_of lab_events) ?m =
      ([stored_response ''k'' (JInt 7, [(''node-1'', 1)]), stored_response ''k'' (JInt 7, [(''node-1'', 1)]),
        (403, detail_body ''''), (401, detail_body '''')], ?m(''k'' \<mapsto> (JInt 7, [(''node-1'', 1)])))"
    by (simp add: lab_events_def lab_call_def map_call_def Let_def lab_policy bump_def dict_get_def)
  show ?thesis using api_refines_map [OF lab_served ok holds lab_waits spec s] s by simp
qed

end
