(* ===== verification/Provenance.thy ===== *)
theory Provenance
  imports Operations
begin

section \<open>Runs of the cluster: every value comes from a write\<close>

text \<open>
  A cluster that runs the public operations and the gossip rounds of \<open>src/dynamokv/node.py\<close>, as an
  inductive relation: \<open>cluster_run D nt c0 H c\<close> says that the cluster can be in state \<open>c\<close> after the
  clients have sent the writes \<open>H\<close>. Inside an operation the actions of others are arbitrary as long as
  they are \<open>fair\<close>: they store, write back late or hint a version of a key only if it stems from a write of
  that key. Every
  rule's operation is itself a list of fair actions (\<open>run_steps\<close>), so the assumption is met by any
  interleaving of such operations.
\<close>

subsection \<open>Versions that stem from writes\<close>

text \<open>A write: the coordinator that got it, the key and the value.\<close>

type_synonym history = "(node_id \<times> key \<times> json) set"

definition stems :: "history \<Rightarrow> key \<Rightarrow> version \<Rightarrow> bool" where
  "stems H k v \<longleftrightarrow>
     (\<exists>m. (m, k, ver_value v) \<in> H \<and> 0 < vc_get (ver_clock v) m) \<and>
     (\<forall>m. 0 < vc_get (ver_clock v) m \<longrightarrow> (\<exists>x. (m, k, x) \<in> H))"

definition owned :: "net \<Rightarrow> history \<Rightarrow> key \<Rightarrow> version \<Rightarrow> bool" where
  "owned nt H k v \<longleftrightarrow> version_ok v \<and> net_wire nt k = Some k \<and> stems H k v"

fun fair :: "net \<Rightarrow> history \<Rightarrow> action \<Rightarrow> bool" where
  "fair nt H (StorePut i k v) \<longleftrightarrow> owned nt H k v"
| "fair nt H (StoreLate i k existing v) \<longleftrightarrow> owned nt H k v \<and> siblings_ok existing \<and> (\<forall>w \<in> set existing. owned nt H k w)"
| "fair nt H (HintAdd i t k v) \<longleftrightarrow> owned nt H k v"
| "fair nt H (GossipMerge i now table) \<longleftrightarrow> dict_ok table"
| "fair nt H _ \<longleftrightarrow> True"

lemma fair_sound: "fair nt H a \<Longrightarrow> action_ok a"
  by (cases a) (auto simp: owned_def)

lemma spreads_owned: "owned nt H k v \<Longrightarrow> spreads (fair nt H) nt k v"
  by (auto simp: spreads_def owned_def)

interpretation fair: action_policy "fair nt H" nt for nt H
  by unfold_locales (auto intro: fair_sound spreads_owned)

lemma stems_mono: "stems H k v \<Longrightarrow> H \<subseteq> H' \<Longrightarrow> stems H' k v"
  unfolding stems_def by blast

lemma owned_mono: "owned nt H k v \<Longrightarrow> H \<subseteq> H' \<Longrightarrow> owned nt H' k v"
  unfolding owned_def using stems_mono by blast

text \<open>The writes that the routes can deliver.\<close>

definition history_ok :: "net \<Rightarrow> history \<Rightarrow> bool" where
  "history_ok nt H \<longleftrightarrow> (\<forall>m k x. (m, k, x) \<in> H \<longrightarrow> json_ok x \<and> net_wire nt k = Some k)"

lemma stems_next:
  assumes "(self, k, x) \<in> H" "\<forall>v \<in> set merged. version_ok v \<and> stems H k v"
  shows "stems H k (next_version self x merged)"
proof -
  let ?cs = "map ver_clock merged"
  have ok: "\<forall>c \<in> set ?cs. clock_ok c" using assms(2) by (auto simp: version_ok_def)
  have "\<exists>y. (m, k, y) \<in> H" if "0 < vc_get (merge ?cs) m" for m
  proof -
    have "0 < Max (insert 0 ((\<lambda>c. vc_get c m) ` set ?cs))" using that vc_get_merge [OF ok, of m] by simp
    then have "\<exists>n \<in> insert 0 ((\<lambda>c. vc_get c m) ` set ?cs). 0 < n" by (subst (asm) Max_gr_iff) simp_all
    then obtain v where "v \<in> set merged" "0 < vc_get (ver_clock v) m" by auto
    then show ?thesis using assms(2) unfolding stems_def by blast
  qed
  then show ?thesis using assms(1) merge_nonneg [OF ok, of self]
    by (auto simp: stems_def next_version_def)
qed

subsection \<open>The invariant of the state\<close>

text \<open>The addresses that a node has for its peers are theirs.\<close>

definition addressed :: "net \<Rightarrow> cluster \<Rightarrow> node_id \<Rightarrow> bool" where
  "addressed nt c self \<longleftrightarrow> (\<forall>m u. map_of (nd_peers (c self)) m = Some u \<longrightarrow> net_host nt u = Some m)"

lemma addressed_trace: "addressed nt c self \<Longrightarrow> steps Q c c' \<Longrightarrow> addressed nt c' self"
  by (simp add: addressed_def trace_fields)

definition traced :: "net \<Rightarrow> history \<Rightarrow> cluster \<Rightarrow> bool" where
  "traced nt H c \<longleftrightarrow> cluster_ok c \<and> (\<forall>self. addressed nt c self) \<and>
     (\<forall>i k. \<forall>v \<in> set (siblings (c i) k). owned nt H k v) \<and>
     (\<forall>i t k. \<forall>v \<in> set (hinted (c i) t k). owned nt H k v)"

lemma traced_ok: "traced nt H c \<Longrightarrow> cluster_ok c"
  by (simp add: traced_def)

lemma traced_wired: "traced nt H c \<Longrightarrow> net_wire nt k = Some k \<Longrightarrow> wired nt c self k"
  by (simp add: traced_def wired_def addressed_def)

lemma traced_state_ok: "traced nt H c \<Longrightarrow> fair.state_ok nt H c"
  by (simp add: traced_def fair.state_ok_def spreads_owned)

lemma traced_mono: "traced nt H c \<Longrightarrow> H \<subseteq> H' \<Longrightarrow> traced nt H' c"
  unfolding traced_def using owned_mono by blast

lemma reconcile_in: "v \<in> set (reconcile vs w) \<Longrightarrow> v = w \<or> v \<in> set vs"
  using versions.set_ins [of vs w] by blast

lemma traced_steps:
  assumes "steps (fair nt H) c c'" "traced nt H c"
  shows "traced nt H c'"
  using assms(1)
proof (induction rule: trace_induct)
  case refl
  then show ?case using assms(2) .
next
  case (step a d)
  have ok: "cluster_ok d" "action_ok a" using step fair_sound by (simp_all add: traced_def)
  have "owned nt H k v" if new: "v \<in> set (siblings_after a i k (siblings (d i) k))" for i k v
    using new step by (cases a) (auto simp: traced_def split: if_splits dest: reconcile_in)
  moreover have "owned nt H k v" if new: "v \<in> set (hinted_after a i t k (hinted (d i) t k))" for i t k v
    using new step by (cases a) (auto simp: traced_def split: if_splits dest: reconcile_in)
  moreover have "addressed nt (perform a d) self" for self
    using addressed_trace [OF _ trace_perform, of nt d self "fair nt H"] step by (simp add: traced_def)
  ultimately show ?case
    using perform_ok [OF ok] siblings_perform [OF ok] hinted_perform [OF ok] by (simp add: traced_def)
qed

lemma merged_read_owned:
  assumes "traced nt H c" "net_wire nt k = Some k" "others_in (fair nt H) futures"
    and "merged_read nt self th k futures c = (Inr merged, c')"
  shows "siblings_ok merged \<and> (\<forall>v \<in> set merged. owned nt H k v)"
proof -
  obtain results rest where q: "quorum_op (get_op nt self k) th futures [] c = (results, rest, c')"
      and merged: "merged = foldl reconcile [] (concat results)"
    using assms(4) by (auto simp: merged_read_def foldl_foldl split: prod.splits if_splits)
  obtain dn where dn: "results = map snd dn"
      and each: "\<And>m x. (m, x) \<in> set dn \<Longrightarrow> \<exists>c0. steps (fair nt H) c c0 \<and> x = siblings (c0 m) k"
    using quorum_read_states [OF q traced_ok [OF assms(1)] traced_wired [OF assms(1,2)] assms(3) fair_sound [of nt H]] by blast
  have own: "\<forall>v \<in> set (concat results). owned nt H k v"
  proof
    fix v assume "v \<in> set (concat results)"
    then obtain m x where x: "(m, x) \<in> set dn" "v \<in> set x" using dn by auto
    then obtain c0 where c0: "steps (fair nt H) c c0" "x = siblings (c0 m) k" using each by blast
    from traced_steps [OF c0(1) assms(1)] show "owned nt H k v" using x(2) c0(2) by (simp add: traced_def)
  qed
  then have "\<forall>v \<in> set merged. owned nt H k v" unfolding merged using versions.set_foldl [of "[]"] by fastforce
  moreover have "siblings_ok merged"
    unfolding merged using own by (intro siblings_ok_fold siblings_ok_Nil) (simp add: owned_def)
  ultimately show ?thesis by blast
qed

subsection \<open>Every operation is a list of fair actions\<close>

lemma get_key_fair:
  assumes "others_in (fair nt H) futures" "get_key D nt self k futures c = (res, c')"
  shows "steps (fair nt H) c c'"
proof (cases "preference_list D (c self) k")
  case (Inl e)
  then show ?thesis using assms(2) by (simp add: get_key_def)
next
  case (Inr prefs)
  obtain rd c1 where rd: "merged_read nt self (min (nd_r (c self)) (int (length prefs))) k futures c = (rd, c1)"
    by (metis surj_pair)
  show ?thesis using merged_read_trace [OF assms(1) rd] assms(2) get_key_merged [OF Inr rd] by simp
qed

lemma put_key_fair:
  assumes "traced nt H c" "history_ok nt H" "(self, k, x) \<in> H"
    and "preference_list D (c self) k = Inr prefs" "put_inputs_in (fair nt H) prefs ins"
    and "put_key D nt self k x ins c = (res, rest, c')"
  shows "steps (fair nt H) c c'" "others_in (fair nt H) rest" "res = Inr v \<Longrightarrow> owned nt H k v"
proof -
  have k: "json_ok x" "net_wire nt k = Some k" using assms(2,3) by (auto simp: history_ok_def)
  have own: "owned nt H k (next_version self x merged)"
    if "merged_read nt self (min (nd_r (c self)) (int (length prefs))) k (pi_reads ins) c = (Inr merged, c1)" for merged c1
  proof -
    have "\<forall>v \<in> set merged. owned nt H k v"
      using merged_read_owned [OF assms(1) k(2) _ that] assms(5) by (simp add: put_inputs_in_def)
    then show ?thesis using k stems_next [OF assms(3)] version_ok_next [OF k(1)] by (simp add: owned_def)
  qed
  have spread: "spreads (fair nt H) nt k (next_version self x merged)"
    if "merged_read nt self (min (nd_r (c self)) (int (length prefs))) k (pi_reads ins) c = (Inr merged, c1)" for merged c1
    using spreads_owned [OF own [OF that]] .
  have put: "steps (fair nt H) c c' \<and> others_in (fair nt H) rest \<and>
      (\<forall>v. res = Inr v \<longrightarrow> (\<exists>merged c1. v = next_version self x merged \<and>
        merged_read nt self (min (nd_r (c self)) (int (length prefs))) k (pi_reads ins) c = (Inr merged, c1)))"
    by (rule put_key_steps [OF assms(4,5) _ assms(6)]) (erule spread)
  then show "steps (fair nt H) c c'" "others_in (fair nt H) rest" by simp_all
  show "owned nt H k v" if res: "res = Inr v"
  proof -
    from put res obtain merged c1 where "v = next_version self x merged"
        "merged_read nt self (min (nd_r (c self)) (int (length prefs))) k (pi_reads ins) c = (Inr merged, c1)" by blast
    then show ?thesis using own by simp
  qed
qed

lemma removes_fair: "removes (fair nt H) nt k"
  by (simp add: removes_def)

lemma delete_key_fair:
  assumes "others_in (fair nt H) futures" "delete_key D nt self k futures c = (res, rest, c')"
  shows "steps (fair nt H) c c' \<and> others_in (fair nt H) rest"
proof (cases "preference_list D (c self) k")
  case (Inl e)
  then show ?thesis using assms(2) by (simp add: delete_key_def)
next
  case (Inr prefs)
  obtain results rest' c1 where q: "quorum_op (delete_op nt self k) (min (nd_w (c self)) (int (length prefs))) futures [] c =
      (results, rest', c1)" by (metis prod_cases3)
  show ?thesis using delete_trace [OF removes_fair assms(1) q] assms(2) Inr q by (simp add: delete_key_def)
qed

lemma gossip_round_fair:
  "traced nt H c \<Longrightarrow> gossip_inputs_in (fair nt H) gi \<Longrightarrow> steps (fair nt H) c (snd (gossip_round nt self gi c))"
  by (rule fair.gossip_round_steps) (simp_all add: traced_state_ok)

subsection \<open>Runs\<close>

text \<open>
  A client's write is first received and then coordinated; its late replica requests complete after
  the answer, and so do those of a delete.
\<close>

inductive cluster_run :: "(string \<Rightarrow> bytes) \<Rightarrow> net \<Rightarrow> cluster \<Rightarrow> history \<Rightarrow> cluster \<Rightarrow> bool" for D nt c0 where
  initial: "cluster_run D nt c0 {} c0"
| receive: "cluster_run D nt c0 H c \<Longrightarrow> json_ok x \<Longrightarrow> net_wire nt k = Some k \<Longrightarrow>
    cluster_run D nt c0 (insert (self, k, x) H) c"
| get: "cluster_run D nt c0 H c \<Longrightarrow> others_in (fair nt H) futures \<Longrightarrow>
    get_key D nt self k futures c = (res, c') \<Longrightarrow> cluster_run D nt c0 H c'"
| put: "cluster_run D nt c0 H c \<Longrightarrow> (self, k, x) \<in> H \<Longrightarrow> preference_list D (c self) k = Inr prefs \<Longrightarrow>
    put_inputs_in (fair nt H) prefs ins \<Longrightarrow> put_key D nt self k x ins c = (Inr v, rest, c1) \<Longrightarrow>
    cluster_run D nt c0 H (stragglers (guarded_put_op nt self h k v) rest c1)"
| failed_put: "cluster_run D nt c0 H c \<Longrightarrow> (self, k, x) \<in> H \<Longrightarrow> preference_list D (c self) k = Inr prefs \<Longrightarrow>
    put_inputs_in (fair nt H) prefs ins \<Longrightarrow> put_key D nt self k x ins c = (Inl e, rest, c1) \<Longrightarrow>
    cluster_run D nt c0 H c1"
| delete: "cluster_run D nt c0 H c \<Longrightarrow> others_in (fair nt H) futures \<Longrightarrow>
    delete_key D nt self k futures c = (deleted, rest, c1) \<Longrightarrow>
    cluster_run D nt c0 H (stragglers (delete_op nt self k) rest c1)"
| gossip: "cluster_run D nt c0 H c \<Longrightarrow> gossip_inputs_in (fair nt H) gi \<Longrightarrow>
    cluster_run D nt c0 H (snd (gossip_round nt self gi c))"

lemma run_steps:
  assumes "traced nt {} c0" "cluster_run D nt c0 H c"
  shows "history_ok nt H \<and> traced nt H c \<and> (\<forall>i. config_of (c i) = config_of (c0 i))"
proof -
  have extend: "history_ok nt H \<and> traced nt H c' \<and> (\<forall>i. config_of (c' i) = config_of (c0 i))"
    if "history_ok nt H \<and> traced nt H c \<and> (\<forall>i. config_of (c i) = config_of (c0 i))" "steps (fair nt H) c c'" for H c c'
    using that traced_steps trace_config by metis
  show ?thesis
    using assms(2)
  proof induction
    case initial
    then show ?case using assms(1) by (auto simp: history_ok_def)
  next
    case (receive H c x k self)
    then show ?case using traced_mono [of nt H c] by (auto simp: history_ok_def)
  next
    case (get H c futures self k res c')
    then show ?case using extend get_key_fair by blast
  next
    case (put H c self k x prefs ins v rest c1 h)
    then have t: "traced nt H c" "history_ok nt H" by blast+
    note fair = put_key_fair [OF t put(2-5)]
    have "steps (fair nt H) c1 (stragglers (guarded_put_op nt self h k v) rest c1)"
      using spreads_owned [OF fair(3) [OF refl]] fair(2) by (rule write_stragglers_steps)
    with fair(1) show ?case by (intro extend [OF put.IH]) (rule trace_trans)
  next
    case (failed_put H c self k x prefs ins e rest c1)
    then show ?case using extend put_key_fair(1) by blast
  next
    case (delete H c futures self k deleted rest c1)
    have "steps (fair nt H) c1 (stragglers (delete_op nt self k) rest c1)"
      using delete_key_fair [OF delete(2,3)] delete_stragglers [OF removes_fair] by blast
    then show ?case using delete_key_fair [OF delete(2,3)] trace_trans by (intro extend [OF delete.IH]) blast
  next
    case (gossip H c gi self)
    then show ?case using extend gossip_round_fair by blast
  qed
qed

subsection \<open>Properties\<close>

text \<open>C6. Integrity of a running cluster. From empty stores, whatever operations, gossip rounds,
  failures and interleavings happen, every node stays well formed and keeps its configuration; every
  version that a replica stores for a key, or that is hinted for it anywhere, carries a value that a
  client wrote to that key through a coordinator counted in the version's clock, and its clock counts
  only coordinators that got writes of the key. A read therefore returns a value that was written to
  this key, or a conflict of at least two such versions, none of which supersedes another, or
  fails with 404 or 503.\<close>

theorem every_value_was_written:
  assumes "cluster_run D nt c0 H c" "cluster_ok c0" "\<forall>self. addressed nt c0 self"
    and "\<forall>i k. siblings (c0 i) k = []" "\<forall>i t k. hinted (c0 i) t k = []"
  shows "cluster_ok c \<and> (\<forall>i. config_of (c i) = config_of (c0 i)) \<and>
    (\<forall>i k v. v \<in> set (siblings (c i) k) \<longrightarrow> stems H k v) \<and>
    (\<forall>i t k v. v \<in> set (hinted (c i) t k) \<longrightarrow> stems H k v) \<and>
    (\<forall>self k prefs futures. net_wire nt k = Some k \<longrightarrow> preference_list D (c self) k = Inr prefs \<longrightarrow>
      others_in (fair nt H) futures \<longrightarrow>
      (case fst (get_key D nt self k futures c) of
         Inr v \<Rightarrow> stems H k v
       | Inl (Conflict vs) \<Rightarrow> 2 \<le> length vs \<and> siblings_ok vs \<and> (\<forall>v \<in> set vs. stems H k v)
       | Inl (Raised e) \<Rightarrow> e = HTTPException 404 \<or> e = HTTPException 503))"
proof -
  have "traced nt {} c0" using assms(2-5) by (simp add: traced_def)
  note inv = run_steps [OF this assms(1)]
  then have t: "traced nt H c" by blast
  have "case fst (get_key D nt self k futures c) of
         Inr v \<Rightarrow> stems H k v
       | Inl (Conflict vs) \<Rightarrow> 2 \<le> length vs \<and> siblings_ok vs \<and> (\<forall>v \<in> set vs. stems H k v)
       | Inl (Raised e) \<Rightarrow> e = HTTPException 404 \<or> e = HTTPException 503"
    if k: "net_wire nt k = Some k" and prefs: "preference_list D (c self) k = Inr prefs"
      and others: "others_in (fair nt H) futures" for self k prefs futures
  proof -
    obtain rd c1 where rd: "merged_read nt self (min (nd_r (c self)) (int (length prefs))) k futures c = (rd, c1)"
      by (metis surj_pair)
    show ?thesis
    proof (cases rd)
      case (Inl e)
      then have "e = HTTPException 503" using rd by (auto simp: merged_read_def split: prod.splits if_splits)
      then show ?thesis using get_key_merged [OF prefs rd] Inl by simp
    next
      case (Inr merged)
      note read = merged_read_owned [OF t k others rd [unfolded Inr]]
      show ?thesis
      proof (cases merged)
        case (Cons v vs)
        then show ?thesis using get_key_merged [OF prefs rd] Inr read by (cases vs) (auto simp: owned_def)
      qed (use get_key_merged [OF prefs rd] Inr in simp)
    qed
  qed
  then show ?thesis using inv t by (auto simp: traced_def owned_def)
qed

text \<open>A write at \<open>a\<close>, then reads through any node.\<close>

theorem every_value_was_written_witness:
  "\<exists>v rest c. put_key bytes_of ex_net ''a'' ''k'' (JInt 1) (ex_put [''a'', ''b'', ''c'']) (ex_cluster 3) = (Inr v, rest, c) \<and>
     cluster_run bytes_of ex_net (ex_cluster 3) {(''a'', ''k'', JInt 1)} (stragglers (guarded_put_op ex_net ''a'' None ''k'' v) rest c) \<and>
     (\<forall>w i. w \<in> set (siblings (stragglers (guarded_put_op ex_net ''a'' None ''k'' v) rest c i) ''k'') \<longrightarrow>
       ver_value w = JInt 1 \<and> 0 < vc_get (ver_clock w) ''a'' \<and> vc_get (ver_clock w) ''b'' \<le> 0)"
proof -
  let ?H = "{(''a'', ''k'', JInt 1)}" and ?prefs = "[''a'', ''b'', ''c'']"
  obtain v rest c where put: "put_key bytes_of ex_net ''a'' ''k'' (JInt 1) (ex_put ?prefs) (ex_cluster 3) = (Inr v, rest, c)"
    using ex_put_acks by blast
  let ?c = "stragglers (guarded_put_op ex_net ''a'' None ''k'' v) rest c"
  have "cluster_run bytes_of ex_net (ex_cluster 3) ?H (ex_cluster 3)"
    by (rule cluster_run.receive [OF cluster_run.initial]) (simp_all add: ex_net_def)
  then have run: "cluster_run bytes_of ex_net (ex_cluster 3) ?H ?c"
    by (rule cluster_run.put [OF _ _ ex_preference_list(1) ex_put_ok put]) simp_all
  have empty: "siblings (ex_cluster 3 i) k = []" "hinted (ex_cluster 3 i) t k = []" for i t k
    by (simp_all add: ex_empty)
  have addr: "addressed ex_net (ex_cluster 3) self" for self
    using ex_wired [of 3 self] by (simp add: addressed_def wired_def)
  have "stems ?H ''k'' w" if "w \<in> set (siblings (?c i) ''k'')" for w i
    using every_value_was_written [OF run ex_cluster_ok] addr empty that by blast
  then have "ver_value w = JInt 1 \<and> 0 < vc_get (ver_clock w) ''a'' \<and> vc_get (ver_clock w) ''b'' \<le> 0"
    if "w \<in> set (siblings (?c i) ''k'')" for w i
    using that by (fastforce simp: stems_def not_less [symmetric])
  with put run show ?thesis by blast
qed

end
