(* ===== verification/Wire.thy ===== *)
theory Wire
  imports Api Examples
begin

section \<open>Requests on the internal port as text\<close>

text \<open>
  The rest of \<open>src/dynamokv/models.py\<close>: the bodies of the internal requests and responses, and the JSON
  that \<open>node.py\<close> sends. \<open>Cluster\<close> hands typed requests to the handlers; here a request carries the text
  of its body, which is parsed and validated before the handler runs, and answered 422 when that fails.

  Pydantic's validators of \<open>int\<close> and \<open>str\<close> are a parameter, since in its default mode more than a JSON
  integer is accepted as an \<open>int\<close>; \<open>pydantic_ok\<close> states what the models rely on. The text that the
  HTTP client makes of a JSON value is a parameter as well.
\<close>

subsection \<open>Models\<close>

record internal_put_request =
  ip_value :: json
  ip_clock :: "(node_id, int) dict"

record internal_versions_response =
  iv_key :: key
  iv_versions :: "version_out list"

record gossip_request =
  gq_sender :: string
  gq_table :: "(node_id, int) dict"

record gossip_response =
  gp_table :: "(node_id, int) dict"

record internal_hint_request =
  ih_target :: string
  ih_value :: json
  ih_clock :: "(node_id, int) dict"

record internal_hint_response =
  ir_status :: string

record pydantic =
  pd_int :: "json \<Rightarrow> int option"
  pd_str :: "json \<Rightarrow> string option"

definition pydantic_ok :: "pydantic \<Rightarrow> bool" where
  "pydantic_ok pd \<longleftrightarrow> (\<forall>n. pd_int pd (JInt n) = Some n) \<and> (\<forall>s. pd_str pd (JStr s) = Some s)"

subsection \<open>Validation\<close>

definition model_field :: "string \<Rightarrow> json \<Rightarrow> json option" where
  "model_field name body = (case body of JObj d \<Rightarrow> map_of d name | _ \<Rightarrow> None)"

fun validated_items :: "pydantic \<Rightarrow> (string, json) dict \<Rightarrow> (string, int) dict option" where
  "validated_items pd [] = Some []"
| "validated_items pd ((k, v) # d) =
     (case pd_int pd v of None \<Rightarrow> None | Some n \<Rightarrow> map_option ((#) (k, n)) (validated_items pd d))"

definition int_dict :: "pydantic \<Rightarrow> json \<Rightarrow> (string, int) dict option" where
  "int_dict pd j = (case j of JObj d \<Rightarrow> validated_items pd d | _ \<Rightarrow> None)"

definition put_body_of :: "pydantic \<Rightarrow> json \<Rightarrow> internal_put_request option" where
  "put_body_of pd body =
     (case (model_field ''value'' body, Option.bind (model_field ''clock'' body) (int_dict pd)) of
        (Some v, Some c) \<Rightarrow> Some \<lparr>ip_value = v, ip_clock = c\<rparr>
      | _ \<Rightarrow> None)"

definition gossip_body_of :: "pydantic \<Rightarrow> json \<Rightarrow> gossip_request option" where
  "gossip_body_of pd body =
     (case (Option.bind (model_field ''sender'' body) (pd_str pd), Option.bind (model_field ''table'' body) (int_dict pd)) of
        (Some s, Some t) \<Rightarrow> Some \<lparr>gq_sender = s, gq_table = t\<rparr>
      | _ \<Rightarrow> None)"

definition hint_body_of :: "pydantic \<Rightarrow> json \<Rightarrow> internal_hint_request option" where
  "hint_body_of pd body =
     (case (Option.bind (model_field ''target'' body) (pd_str pd), model_field ''value'' body,
            Option.bind (model_field ''clock'' body) (int_dict pd)) of
        (Some t, Some v, Some c) \<Rightarrow> Some \<lparr>ih_target = t, ih_value = v, ih_clock = c\<rparr>
      | _ \<Rightarrow> None)"

subsection \<open>The internal routes on text\<close>

datatype wire_request =
    Wire_Put key string
  | Wire_Get key
  | Wire_Delete key
  | Wire_Hint key string
  | Wire_Gossip string real

definition with_body :: "(json \<Rightarrow> 'b option) \<Rightarrow> string \<Rightarrow> ('b \<Rightarrow> response \<times> node) \<Rightarrow> node \<Rightarrow> response \<times> node" where
  "with_body read t handler nd =
     (case loads t of
        Inl e \<Rightarrow> ((422, detail_body ''''), nd)
      | Inr body \<Rightarrow> (case read body of None \<Rightarrow> ((422, detail_body ''''), nd) | Some b \<Rightarrow> handler b))"

fun serve_wire :: "pydantic \<Rightarrow> net \<Rightarrow> wire_request \<Rightarrow> node \<Rightarrow> response \<times> node" where
  "serve_wire pd nt (Wire_Put k t) nd =
     on_route nt k (\<lambda>k'. with_body (put_body_of pd) t (\<lambda>b. put_key_local nd k' (ip_value b) (VectorClock (ip_clock b))) nd) nd"
| "serve_wire pd nt (Wire_Get k) nd = on_route nt k (\<lambda>k'. (get_key_local nd k', nd)) nd"
| "serve_wire pd nt (Wire_Delete k) nd = on_route nt k (delete_key_local nd) nd"
| "serve_wire pd nt (Wire_Hint k t) nd =
     on_route nt k (\<lambda>k'. with_body (hint_body_of pd) t
       (\<lambda>b. put_hint nd k' (ih_target b) (ih_value b) (VectorClock (ih_clock b))) nd) nd"
| "serve_wire pd nt (Wire_Gossip t now) nd =
     with_body (gossip_body_of pd) t (\<lambda>b. gossip_endpoint nd now (gq_table b)) nd"

subsection \<open>The bodies that a node sends\<close>

definition put_body :: "json \<Rightarrow> vclock \<Rightarrow> json" where
  "put_body val clk = JObj [(''value'', val), (''clock'', clock_to_json clk)]"

definition hint_body :: "node_id \<Rightarrow> json \<Rightarrow> vclock \<Rightarrow> json" where
  "hint_body target val clk = JObj [(''target'', JStr target), (''value'', val), (''clock'', clock_to_json clk)]"

definition gossip_body :: "node_id \<Rightarrow> (node_id, int) dict \<Rightarrow> json" where
  "gossip_body sender table = JObj [(''sender'', JStr sender), (''table'', table_json table)]"

fun on_wire :: "(json \<Rightarrow> string) \<Rightarrow> request \<Rightarrow> wire_request" where
  "on_wire enc (PutKey k val clk) = Wire_Put k (enc (put_body val clk))"
| "on_wire enc (GetKey k) = Wire_Get k"
| "on_wire enc (DeleteKey k) = Wire_Delete k"
| "on_wire enc (PutHint k target val clk) = Wire_Hint k (enc (hint_body target val clk))"
| "on_wire enc (PostGossip sender table now) = Wire_Gossip (enc (gossip_body sender table)) now"

subsection \<open>Response bodies\<close>

definition version_out_of :: "version \<Rightarrow> version_out" where
  "version_out_of v = \<lparr>vo_value = ver_value v, vo_clock = counters (ver_clock v)\<rparr>"

definition internal_versions_json :: "internal_versions_response \<Rightarrow> json" where
  "internal_versions_json r =
     JObj [(''key'', JStr (iv_key r)),
       (''versions'', JArr (map (\<lambda>o1. JObj [(''value'', vo_value o1), (''clock'', counters_json (vo_clock o1))]) (iv_versions r)))]"

definition gossip_response_json :: "gossip_response \<Rightarrow> json" where
  "gossip_response_json r = JObj [(''table'', counters_json (gp_table r))]"

definition hint_response_json :: "internal_hint_response \<Rightarrow> json" where
  "hint_response_json r = JObj [(''status'', JStr (ir_status r))]"

text \<open>The answers of \<open>Cluster\<close> are the bodies of these models.\<close>

lemma response_bodies:
  "get_local nd k = Inr vs \<Longrightarrow> vs \<noteq> [] \<Longrightarrow>
     get_key_local nd k = (200, internal_versions_json \<lparr>iv_key = k, iv_versions = map version_out_of vs\<rparr>)"
  "snd (fst (gossip_endpoint nd now table)) = gossip_response_json \<lparr>gp_table = fst (handle_gossip nd now table)\<rparr>"
  "add_hint nd target k (Version val clk) = Inr nd' \<Longrightarrow>
     put_hint nd k target val clk = ((200, hint_response_json \<lparr>ir_status = ''ok''\<rparr>), nd')"
  "put_local nd k (Version val clk) = Inr nd' \<Longrightarrow>
     put_key_local nd k val clk = ((200, key_value_json (key_value_of k (Version val clk))), nd')"
  by (simp_all add: get_key_local_def internal_versions_json_def version_out_of_def siblings_json_def to_dict_def o_def
      clock_to_json_def counters_json_def gossip_endpoint_def gossip_response_json_def table_json_def put_hint_def
      hint_response_json_def put_key_local_def key_value_json_def key_value_of_def Let_def split: prod.splits)

subsection \<open>What arrives is what was sent\<close>

lemma validated_ints:
  assumes "pydantic_ok pd"
  shows "validated_items pd (map (\<lambda>(k, n). (k, JInt n)) d) = Some d"
  using assms by (induction d) (auto simp: pydantic_ok_def)

fun sendable :: "request \<Rightarrow> bool" where
  "sendable (PutKey k val clk) = (json_ok val \<and> clock_ok clk)"
| "sendable (PutHint k target val clk) = (json_ok val \<and> clock_ok clk)"
| "sendable (PostGossip sender table now) = dict_ok table"
| "sendable _ = True"

lemma json_ok_counters: "dict_ok d \<Longrightarrow> json_ok (JObj (map (\<lambda>(k, n). (k, JInt n)) d))"
  by (auto simp: map_fst_pair list_all_iff)

lemma json_ok_bodies:
  "json_ok val \<Longrightarrow> clock_ok clk \<Longrightarrow> json_ok (put_body val clk)"
  "json_ok val \<Longrightarrow> clock_ok clk \<Longrightarrow> json_ok (hint_body target val clk)"
  "dict_ok table \<Longrightarrow> json_ok (gossip_body sender table)"
  using json_ok_counters
  by (simp_all add: put_body_def hint_body_def gossip_body_def clock_to_json_def table_json_def clock_ok_def)

lemma read_bodies:
  assumes "pydantic_ok pd"
  shows "put_body_of pd (put_body val clk) = Some \<lparr>ip_value = val, ip_clock = counters clk\<rparr>"
    and "hint_body_of pd (hint_body target val clk) = Some \<lparr>ih_target = target, ih_value = val, ih_clock = counters clk\<rparr>"
    and "gossip_body_of pd (gossip_body sender table) = Some \<lparr>gq_sender = sender, gq_table = table\<rparr>"
  using assms validated_ints [OF assms]
  by (simp_all add: put_body_of_def put_body_def hint_body_of_def hint_body_def gossip_body_of_def gossip_body_def
      model_field_def int_dict_def clock_to_json_def table_json_def pydantic_ok_def)

text \<open>The typed request that a text stands for.\<close>

fun stands_for :: "wire_request \<Rightarrow> request \<Rightarrow> bool" where
  "stands_for (Wire_Put k t) (PutKey k' val clk) = (k = k')"
| "stands_for (Wire_Get k) (GetKey k') = (k = k')"
| "stands_for (Wire_Delete k) (DeleteKey k') = (k = k')"
| "stands_for (Wire_Hint k t) (PutHint k' target val clk) = (k = k')"
| "stands_for (Wire_Gossip t now) (PostGossip sender table now') = (now = now')"
| "stands_for _ _ = False"

lemma validated_keys: "validated_items pd d = Some e \<Longrightarrow> map fst e = map fst d"
  by (induction pd d arbitrary: e rule: validated_items.induct) (auto split: option.splits)

lemma int_dict_ok: "json_ok j \<Longrightarrow> int_dict pd j = Some e \<Longrightarrow> dict_ok e"
  by (auto simp: int_dict_def validated_keys split: json.splits)

lemma model_field_ok: "json_ok body \<Longrightarrow> model_field name body = Some j \<Longrightarrow> json_ok j"
  by (auto simp: model_field_def list_all_iff dest!: map_of_SomeD split: json.splits)

lemma read_bodies_ok:
  "json_ok body \<Longrightarrow> put_body_of pd body = Some b \<Longrightarrow> json_ok (ip_value b) \<and> dict_ok (ip_clock b)"
  "json_ok body \<Longrightarrow> hint_body_of pd body = Some h \<Longrightarrow> json_ok (ih_value h) \<and> dict_ok (ih_clock h)"
  "json_ok body \<Longrightarrow> gossip_body_of pd body = Some g \<Longrightarrow> dict_ok (gq_table g)"
  by (auto simp: put_body_of_def hint_body_of_def gossip_body_of_def bind_eq_Some_conv split: option.splits
      intro: model_field_ok int_dict_ok)

text \<open>A body that is rejected changes nothing, and one that is accepted acts as a typed request.\<close>

lemma with_body_cases:
  "with_body read t handler nd = ((422, detail_body ''''), nd) \<or>
     (\<exists>body b. json_ok body \<and> read body = Some b \<and> with_body read t handler nd = handler b)"
  by (auto simp: with_body_def split: sum.splits option.splits dest: loads_json_ok)

text \<open>A route with a body refuses the text, or serves a typed request made of the body.\<close>

lemma body_route_cases:
  assumes "serve_wire pd nt w nd = with_body f t h nd"
    and "\<And>body b. json_ok body \<Longrightarrow> f body = Some b \<Longrightarrow> \<exists>req. sendable req \<and> stands_for w req \<and> h b = serve nt req nd"
  shows "serve_wire pd nt w nd = ((422, detail_body ''''), nd) \<or>
     (\<exists>req. sendable req \<and> stands_for w req \<and> serve_wire pd nt w nd = serve nt req nd)"
  using with_body_cases [of f t h nd] assms by metis

lemma serve_wire_cases:
  "serve_wire pd nt w nd = ((422, detail_body ''''), nd) \<or>
     (\<exists>req. sendable req \<and> stands_for w req \<and> serve_wire pd nt w nd = serve nt req nd)"
proof (cases w)
  case (Wire_Put k t)
  show ?thesis
  proof (cases "net_wire nt k")
    case None
    then show ?thesis
      by (intro disjI2 exI [of _ "PutKey k JNull (VectorClock [])"]) (simp add: Wire_Put on_route_def clock_ok_def)
  next
    case (Some k')
    have "\<exists>req. sendable req \<and> stands_for w req \<and> put_key_local nd k' (ip_value b) (VectorClock (ip_clock b)) = serve nt req nd"
      if "json_ok body" "put_body_of pd body = Some b" for body b
      using read_bodies_ok(1) [OF that]
      by (intro exI [of _ "PutKey k (ip_value b) (VectorClock (ip_clock b))"]) (simp add: Wire_Put on_route_def Some clock_ok_def)
    then show ?thesis
      by (intro body_route_cases [where f = "put_body_of pd" and t = t]) (simp_all add: Wire_Put on_route_def Some)
  qed
next
  case (Wire_Hint k t)
  show ?thesis
  proof (cases "net_wire nt k")
    case None
    then show ?thesis
      by (intro disjI2 exI [of _ "PutHint k [] JNull (VectorClock [])"]) (simp add: Wire_Hint on_route_def clock_ok_def)
  next
    case (Some k')
    have "\<exists>req. sendable req \<and> stands_for w req \<and> put_hint nd k' (ih_target b) (ih_value b) (VectorClock (ih_clock b)) = serve nt req nd"
      if "json_ok body" "hint_body_of pd body = Some b" for body b
      using read_bodies_ok(2) [OF that]
      by (intro exI [of _ "PutHint k (ih_target b) (ih_value b) (VectorClock (ih_clock b))"])
        (simp add: Wire_Hint on_route_def Some clock_ok_def)
    then show ?thesis
      by (intro body_route_cases [where f = "hint_body_of pd" and t = t]) (simp_all add: Wire_Hint on_route_def Some)
  qed
next
  case (Wire_Gossip t now)
  have "\<exists>req. sendable req \<and> stands_for w req \<and> gossip_endpoint nd now (gq_table b) = serve nt req nd"
    if "json_ok body" "gossip_body_of pd body = Some b" for body b
    using read_bodies_ok(3) [OF that] by (intro exI [of _ "PostGossip [] (gq_table b) now"]) (simp add: Wire_Gossip)
  then show ?thesis
    by (intro body_route_cases [where f = "gossip_body_of pd" and t = t]) (simp_all add: Wire_Gossip)
next
  case (Wire_Get k)
  then show ?thesis by (intro disjI2 exI [of _ "GetKey k"]) simp
next
  case (Wire_Delete k)
  then show ?thesis by (intro disjI2 exI [of _ "DeleteKey k"]) simp
qed

lemma sendable_actions: "sendable req \<Longrightarrow> a \<in> set (request_actions nt m req) \<Longrightarrow> action_ok a"
  by (cases req) (auto simp: version_ok_def split: option.splits)

text \<open>C16. The typed requests of the model are what travels. A request that \<open>node.py\<close> makes from a
  storable value, turned into text by any faithful JSON encoder, is handled by the internal routes, with
  their parsing and validation, exactly as the typed request.\<close>

theorem wire_roundtrip:
  assumes "pydantic_ok pd" "\<And>j. json_ok j \<Longrightarrow> loads (enc j) = Inr j" "sendable req"
  shows "serve_wire pd nt (on_wire enc req) nd = serve nt req nd"
  using assms(3) json_ok_bodies
  by (cases req) (simp_all add: with_body_def assms(2) read_bodies [OF assms(1)])

text \<open>C17. No text can break a node. Whatever body arrives on an internal route of a well-formed
  cluster, and whatever the validators let through, it is either refused with 422 and changes nothing, or
  it is handled as a typed request of that route with a storable value, a proper clock or a proper
  table; in either case every node is well-formed afterwards.\<close>

theorem any_text_is_safe:
  assumes "cluster_ok c"
  shows "cluster_ok (c(m := snd (serve_wire pd nt w (c m)))) \<and>
    (serve_wire pd nt w (c m) = ((422, detail_body ''''), c m) \<or>
     (\<exists>req. sendable req \<and> stands_for w req \<and> serve_wire pd nt w (c m) = serve nt req (c m)))"
proof -
  have "cluster_ok (c(m := snd (serve_wire pd nt w (c m))))"
    if req: "sendable req" "serve_wire pd nt w (c m) = serve nt req (c m)" for req
  proof -
    have "\<forall>a \<in> set (request_actions nt m req). allowed (range (\<lambda>(i, k). StoreDelete i k)) a"
      using sendable_actions [OF req(1)] by (cases req) (auto simp: allowed_def split: option.splits)
    then have "trace (range (\<lambda>(i, k). StoreDelete i k)) c (run (request_actions nt m req) c)" by (intro trace_run) auto
    then show ?thesis using trace_ok assms req(2) serve_actions [of c m nt req] by metis
  qed
  then show ?thesis using serve_wire_cases [of pd nt w "c m"] assms by auto
qed

subsection \<open>Concrete texts\<close>

definition ex_pydantic :: pydantic where
  "ex_pydantic =
     \<lparr>pd_int = (\<lambda>j. case j of JInt n \<Rightarrow> Some n | JBool b \<Rightarrow> Some (if b then 1 else 0) | _ \<Rightarrow> None),
      pd_str = (\<lambda>j. case j of JStr s \<Rightarrow> Some s | _ \<Rightarrow> None)\<rparr>"

theorem wire_roundtrip_witness:
  "serve_wire ex_pydantic ex_net (on_wire dumps (PutHint ''k'' ''b'' (JInt 7) (VectorClock [(''a'', 1)]))) (ex_cluster 3 ''c'') =
     serve ex_net (PutHint ''k'' ''b'' (JInt 7) (VectorClock [(''a'', 1)])) (ex_cluster 3 ''c'')"
proof -
  have "pydantic_ok ex_pydantic" by (simp add: pydantic_ok_def ex_pydantic_def)
  then show ?thesis by (rule wire_roundtrip) (simp_all add: loads_dumps clock_ok_def)
qed

theorem any_text_is_safe_witness:
  "cluster_ok ((ex_cluster 3)(''b'' := snd (serve_wire ex_pydantic ex_net (Wire_Put ''k'' ''null'') (ex_cluster 3 ''b''))))"
  using any_text_is_safe [OF ex_cluster_ok [of 3], where m = "''b''" and w = "Wire_Put ''k'' ''null''" and pd = ex_pydantic and nt = ex_net]
  by (rule conjunct1)

end
