(* ===== verification/Deployment.thy ===== *)
theory Deployment
  imports Service Consistency
begin

section \<open>A deployed node\<close>

text \<open>
  Ties the configuration to the guarantees of the cluster: the node that \<open>run.py\<close> builds has the
  members and quorums of its configuration, and without the warning of \<open>config.py\<close> its read and write
  quorums overlap, which is what the consistency theorems ask for. The warning misses one case: with N
  at 0 or below, the preference list holds every member.
\<close>

lemma split_platform:
  "\<exists>hints. build_node pf cf dk =
     (node_init (pf_digest pf) (cf_node_id cf) (fst (build_storage_from_config pf cf dk))
        (Some (new_ring (pf_digest pf) (cluster_nodes_from_config cf) (cf_virtual_nodes cf)))
        (Some (peers_dict (internal_peer_url cf) (cluster_nodes_from_config cf) (cf_node_id cf)))
        (cf_n cf) (cf_r cf) (cf_w cf) (Some hints) (pf_clock pf) (cf_gossip_interval cf * cf_gossip_multiplier cf),
      snd (build_hint_storage_from_config pf cf (snd (build_storage_from_config pf cf dk))))"
  by (auto simp: build_node_def Let_def split: prod.splits)

lemma build_node_fields:
  "nd_ring (fst (build_node pf cf dk)) = new_ring (pf_digest pf) (cluster_nodes_from_config cf) (cf_virtual_nodes cf)"
  "nd_n (fst (build_node pf cf dk)) = cf_n cf" "nd_r (fst (build_node pf cf dk)) = cf_r cf"
  "nd_w (fst (build_node pf cf dk)) = cf_w cf" "nd_id (fst (build_node pf cf dk)) = cf_node_id cf"
  using split_platform [of pf cf dk] by (auto simp: node_init_def)

text \<open>Every other member, and only those, is a peer.\<close>

lemma peers_dict_domain: "fst ` set (peers_dict url_of nodes self) = set nodes - {self}"
proof -
  have "fst ` set (foldl (\<lambda>d i. dict_put i (url_of i) d) d0 ms) = fst ` set d0 \<union> set ms" for d0 ms
    by (induction ms arbitrary: d0) (auto simp: dict_keys_put)
  then show ?thesis by (auto simp: peers_dict_def)
qed

lemma has_peers_differs:
  "\<exists>cf. length (cluster_nodes_from_config cf) \<le> 1 \<and>
     peers_dict (internal_peer_url cf) (cluster_nodes_from_config cf) (cf_node_id cf) \<noteq> []"
proof -
  let ?cf = "ex_settings\<lparr>cf_cluster_nodes := ''b''\<rparr>"
  have "cluster_nodes_from_config ?cf = [''b'']"
    by (simp add: cluster_nodes_from_config_def split_list_def strip_def py_space_def)
  then show ?thesis by (intro exI [of _ ?cf]) (simp add: peers_dict_def ex_settings_def)
qed

subsection \<open>Quorums\<close>

definition sane_config :: "config \<Rightarrow> bool" where
  "sane_config cf \<longleftrightarrow> 0 < cf_n cf \<and> 0 < cf_r cf \<and> 0 < cf_w cf \<and> 1 \<le> cf_virtual_nodes cf \<and>
     cluster_nodes_from_config cf \<noteq> []"

lemma deployed_ring:
  assumes "sane_config cf" "collision_free (pf_digest pf) (cf_virtual_nodes cf) (set (cluster_nodes_from_config cf))"
  shows "ring_ok (pf_digest pf) (nd_ring (fst (build_node pf cf dk)))"
    "ring_nodes (nd_ring (fst (build_node pf cf dk))) = set (cluster_nodes_from_config cf)"
  using new_ring_ok [of "cf_virtual_nodes cf", OF _ assms(2)] assms(1) by (simp_all add: build_node_fields sane_config_def)

text \<open>C32. A configuration that draws no warning gives quorums that overlap: on the node built from it, with
  positive N, R and W and at least one member, every key has a preference list of
  \<open>min(N, members)\<close> distinct members, and the thresholds of a read and of a write of that key add up to
  more than its length, which is the condition under which reads see acknowledged writes.\<close>

theorem config_quorums_overlap:
  assumes "sane_config cf" "\<not> quorum_warning cf"
    and "collision_free (pf_digest pf) (cf_virtual_nodes cf) (set (cluster_nodes_from_config cf))"
    and "nd = fst (build_node pf cf dk)"
  shows "\<exists>prefs. preference_list (pf_digest pf) nd k = Inr prefs \<and> distinct prefs \<and>
    set prefs \<subseteq> set (cluster_nodes_from_config cf) \<and>
    length prefs = min (nat (cf_n cf)) (card (set (cluster_nodes_from_config cf))) \<and>
    int (length prefs) < min (nd_r nd) (int (length prefs)) + min (nd_w nd) (int (length prefs))"
proof -
  note ring = deployed_ring [OF assms(1,3), of dk, folded assms(4)]
  have ne: "ring_nodes (nd_ring nd) \<noteq> {}" and n: "1 \<le> cf_n cf" using assms(1) ring(2) by (simp_all add: sane_config_def)
  obtain prefs where prefs: "get_preference_list (pf_digest pf) (nd_ring nd) k (cf_n cf) = Inr prefs" "distinct prefs"
      "set prefs \<subseteq> ring_nodes (nd_ring nd)" "length prefs = min (nat (cf_n cf)) (card (ring_nodes (nd_ring nd)))"
    using ring.prefs_structure [OF ring(1) ne n] by blast
  have "0 < card (ring_nodes (nd_ring nd))" using ne ring(2) by (simp add: card_gt_0_iff)
  then have len: "0 < int (length prefs)" "int (length prefs) \<le> cf_n cf" using prefs(4) n by auto
  have "int (length prefs) < min (cf_r cf) (int (length prefs)) + min (cf_w cf) (int (length prefs))"
    using no_warning_overlap [OF assms(2) len] assms(1) by (auto simp: sane_config_def)
  then show ?thesis
    using prefs ring(2) by (intro exI [of _ prefs]) (simp add: preference_list_def assms(4) build_node_fields)
qed

theorem config_quorums_overlap_witness:
  "\<exists>prefs. preference_list bytes_of (fst (build_node ex_platform ex_settings ex_disk)) ''k'' = Inr prefs \<and> length prefs = 3"
proof -
  have nodes: "cluster_nodes_from_config ex_settings = [''a'', ''b'', ''c'']"
    by (simp add: cluster_nodes_from_config_def ex_settings_def split_list_def strip_def py_space_def)
  have sane: "sane_config ex_settings" unfolding sane_config_def nodes by (simp add: ex_settings_def)
  have quiet: "\<not> quorum_warning ex_settings" by (simp add: quorum_warning_def ex_settings_def)
  have free: "collision_free (pf_digest ex_platform) (cf_virtual_nodes ex_settings) (set (cluster_nodes_from_config ex_settings))"
    unfolding nodes using collision_free_abc by (simp add: ex_settings_def ex_platform_def)
  show ?thesis
    using config_quorums_overlap [OF sane quiet free refl, of ex_disk "''k''"] unfolding nodes
    by (auto simp: ex_settings_def ex_platform_def card_insert_if)
qed

text \<open>N = 0 draws no warning with R = W = 1, but the preference list has every member: three of them here,
  so one read and one write can miss each other.\<close>

lemma zero_n_not_warned:
  "\<not> quorum_warning (ex_settings\<lparr>cf_n := 0, cf_r := 1, cf_w := 1\<rparr>) \<and>
   preference_list bytes_of (ex_node 0 ''a'') ''k'' = Inr [''a'', ''b'', ''c''] \<and>
   \<not> (3 :: int) < min 1 3 + min 1 3"
proof -
  note ok = ex_ring_ok
  have "get_preference_list bytes_of ex_ring ''k'' 0 = get_preference_list bytes_of ex_ring ''k'' 3"
    using get_preference_list_order [OF ok] length_node_order [OF ok(1), of "''k''"] by (simp add: ex_ring_eq)
  then show ?thesis by (simp add: quorum_warning_def preference_list_def ex_prefs)
qed

end
