(* ===== verification/Gossip_Worker.thy ===== *)
theory Gossip_Worker
  imports Prelude
begin

section \<open>The gossip worker\<close>

text \<open>
  Models \<open>src/dynamokv/gossip_worker.py\<close> as a state machine: the worker's event, the handle of the
  thread it believes to run, every thread of \<open>_run\<close> that has not returned, and where the caller of
  \<open>start\<close> and \<open>stop\<close> is. A thread is \<open>Waiting\<close> in \<open>Event.wait\<close> or \<open>In_Round\<close> in \<open>gossip_round\<close>, which
  may raise: the exception is dropped and the thread waits again. \<open>stop\<close> sets the event and then joins
  with a timeout, so it is two steps, and the join ends either because the thread has returned or
  because the time is over. Threads are numbered in the order in which they are created.

  \<open>joined\<close> runs are those in which no join runs into its timeout.
\<close>

datatype phase = Waiting | In_Round

record worker =
  gw_event :: bool
  gw_thread :: "nat option"
  gw_alive :: "nat \<Rightarrow> phase option"
  gw_joining :: bool
  gw_created :: nat
  gw_rounds :: nat

definition worker_init :: worker where
  "worker_init =
     \<lparr>gw_event = False, gw_thread = None, gw_alive = Map.empty, gw_joining = False, gw_created = 0, gw_rounds = 0\<rparr>"

definition worker_start :: "worker \<Rightarrow> worker" where
  "worker_start w =
     (if gw_thread w \<noteq> None then w
      else let t = gw_created w
           in w\<lparr>gw_event := False, gw_thread := Some t, gw_alive := (gw_alive w)(t \<mapsto> Waiting),
                gw_created := t + 1\<rparr>)"

definition stop_begin :: "worker \<Rightarrow> worker" where
  "stop_begin w = w\<lparr>gw_event := True, gw_joining := gw_thread w \<noteq> None\<rparr>"

definition stop_end :: "worker \<Rightarrow> worker" where
  "stop_end w = w\<lparr>gw_thread := None, gw_joining := False\<rparr>"

text \<open>One pass of the loop head: \<open>wait\<close> returns true when the event is set, else the round starts.\<close>

definition loop_head :: "nat \<Rightarrow> worker \<Rightarrow> worker" where
  "loop_head t w =
     (if gw_event w then w\<lparr>gw_alive := (gw_alive w)(t := None)\<rparr>
      else w\<lparr>gw_alive := (gw_alive w)(t \<mapsto> In_Round), gw_rounds := gw_rounds w + 1\<rparr>)"

definition round_end :: "nat \<Rightarrow> worker \<Rightarrow> worker" where
  "round_end t w = w\<lparr>gw_alive := (gw_alive w)(t \<mapsto> Waiting)\<rparr>"

subsection \<open>Steps\<close>

text \<open>The flag of a step says whether a join ran into its timeout.\<close>

inductive worker_step :: "worker \<Rightarrow> bool \<Rightarrow> worker \<Rightarrow> bool" where
  Start: "\<not> gw_joining w \<Longrightarrow> worker_step w False (worker_start w)"
| Stop: "\<not> gw_joining w \<Longrightarrow> worker_step w False (stop_begin w)"
| Joined: "gw_joining w \<Longrightarrow> gw_thread w = Some t \<Longrightarrow> gw_alive w t = None \<Longrightarrow> worker_step w False (stop_end w)"
| Timed_Out: "gw_joining w \<Longrightarrow> gw_thread w = Some t \<Longrightarrow> gw_alive w t \<noteq> None \<Longrightarrow> worker_step w True (stop_end w)"
| Loop_Head: "gw_alive w t = Some Waiting \<Longrightarrow> worker_step w False (loop_head t w)"
| Round_End: "gw_alive w t = Some In_Round \<Longrightarrow> worker_step w False (round_end t w)"

inductive_cases worker_stepE: "worker_step w late w'"

inductive worker_run :: "worker \<Rightarrow> bool \<Rightarrow> bool" where
  Init: "worker_run worker_init False"
| Step: "worker_run w late \<Longrightarrow> worker_step w late' w' \<Longrightarrow> worker_run w' (late \<or> late')"

subsection \<open>The invariant of joined runs\<close>

text \<open>Only the thread of the handle can be alive, and without a handle none is.\<close>

definition worker_inv :: "worker \<Rightarrow> bool" where
  "worker_inv w \<longleftrightarrow>
     (\<forall>t. gw_alive w t \<noteq> None \<longrightarrow> gw_thread w = Some t) \<and>
     (gw_joining w \<longrightarrow> gw_event w \<and> gw_thread w \<noteq> None) \<and>
     (\<forall>t. gw_thread w = Some t \<longrightarrow> t < gw_created w)"

lemma inv_start: "worker_inv w \<Longrightarrow> \<not> gw_joining w \<Longrightarrow> worker_inv (worker_start w)"
  by (cases "gw_thread w") (auto simp: worker_inv_def worker_start_def Let_def)

lemma inv_stop_begin: "worker_inv w \<Longrightarrow> worker_inv (stop_begin w)"
  by (simp add: worker_inv_def stop_begin_def)

lemma inv_stop_end: "worker_inv w \<Longrightarrow> gw_thread w = Some t \<Longrightarrow> gw_alive w t = None \<Longrightarrow> worker_inv (stop_end w)"
  unfolding worker_inv_def stop_end_def by force

lemma inv_loop_head: "worker_inv w \<Longrightarrow> gw_alive w t = Some p \<Longrightarrow> worker_inv (loop_head t w)"
  unfolding worker_inv_def loop_head_def by auto

lemma inv_round_end: "worker_inv w \<Longrightarrow> gw_alive w t = Some p \<Longrightarrow> worker_inv (round_end t w)"
  unfolding worker_inv_def round_end_def by simp

lemma worker_inv_step: "worker_step w late w' \<Longrightarrow> worker_inv w \<Longrightarrow> \<not> late \<Longrightarrow> worker_inv w'"
  by (erule worker_stepE)
    (simp_all add: inv_start inv_stop_begin inv_loop_head inv_round_end, blast intro: inv_stop_end)

lemma worker_run_inv: "worker_run w late \<Longrightarrow> \<not> late \<Longrightarrow> worker_inv w"
proof (induction rule: worker_run.induct)
  case Init
  show ?case by (simp add: worker_inv_def worker_init_def)
next
  case (Step w late late' w')
  then show ?case using worker_inv_step by auto
qed

text \<open>After a timed-out join, \<open>start\<close> clears the event that the old thread has not yet seen.\<close>

definition overlapping :: "worker \<Rightarrow> bool" where
  "overlapping w \<longleftrightarrow> (\<exists>t t'. t \<noteq> t' \<and> gw_alive w t \<noteq> None \<and> gw_alive w t' \<noteq> None)"

lemma restart_after_timeout: "\<exists>w. worker_run w True \<and> overlapping w \<and> \<not> gw_event w"
proof -
  let ?w1 = "worker_start worker_init"
  let ?w2 = "loop_head 0 ?w1"
  let ?w3 = "stop_begin ?w2"
  let ?w4 = "stop_end ?w3"
  let ?w5 = "worker_start ?w4"
  note defs = worker_start_def worker_init_def loop_head_def stop_begin_def stop_end_def
  have "worker_run ?w1 (False \<or> False)" by (rule Step [OF Init]) (rule Start, simp add: defs)
  then have "worker_run ?w2 ((False \<or> False) \<or> False)" by (rule Step) (intro Loop_Head, simp add: defs)
  then have "worker_run ?w3 (((False \<or> False) \<or> False) \<or> False)" by (rule Step) (intro Stop, simp add: defs)
  then have "worker_run ?w4 ((((False \<or> False) \<or> False) \<or> False) \<or> True)"
    by (rule Step) (rule Timed_Out [of _ 0], simp_all add: defs)
  then have "worker_run ?w5 (((((False \<or> False) \<or> False) \<or> False) \<or> True) \<or> False)"
    by (rule Step) (intro Start, simp add: defs)
  moreover have "overlapping ?w5"
    unfolding overlapping_def by (intro exI [of _ 0] exI [of _ "1 :: nat"]) (simp add: defs)
  moreover have "\<not> gw_event ?w5" by (simp add: defs)
  ultimately show ?thesis by auto
qed

text \<open>C33. The worker runs one gossip thread at a time as long as no \<open>stop\<close> gives up waiting: then only the
  thread of the handle is alive, a second \<open>start\<close> changes nothing, and after \<open>stop\<close> has returned no
  thread is left. When a join times out, a following \<open>start\<close> can clear the event before the old
  thread has seen it, and then two threads keep gossiping.\<close>

theorem one_gossip_thread:
  assumes "worker_run w False"
  shows "\<not> overlapping w \<and> (if gw_thread w = None then gw_alive w = Map.empty else worker_start w = w) \<and>
    (\<exists>w'. worker_run w' True \<and> overlapping w' \<and> \<not> gw_event w')"
proof -
  have inv: "worker_inv w" using assms by (auto dest: worker_run_inv)
  then have own: "gw_thread w = Some t" if "gw_alive w t \<noteq> None" for t
    using that by (simp add: worker_inv_def)
  have "\<not> overlapping w"
  proof
    assume "overlapping w"
    then obtain t t' where "t \<noteq> t'" "gw_alive w t \<noteq> None" "gw_alive w t' \<noteq> None"
      by (auto simp: overlapping_def)
    then show False using own [of t] own [of t'] by simp
  qed
  moreover have "gw_alive w = Map.empty" if none: "gw_thread w = None"
  proof
    fix t
    show "gw_alive w t = None" using own [of t] none by (cases "gw_alive w t") simp_all
  qed
  ultimately show ?thesis using restart_after_timeout by (simp add: worker_start_def)
qed

theorem one_gossip_thread_witness:
  "\<not> overlapping (worker_start worker_init) \<and> worker_start (worker_start worker_init) = worker_start worker_init"
proof -
  have "worker_run (worker_start worker_init) (False \<or> False)"
    by (rule Step [OF Init]) (rule Start, simp add: worker_init_def)
  then have "worker_run (worker_start worker_init) False" by simp
  from one_gossip_thread [OF this] show ?thesis by (simp add: worker_start_def worker_init_def)
qed

end
