(* ===== verification/Bench_Stats.thy ===== *)
theory Bench_Stats
  imports Prelude "HOL-Library.Multiset"
begin

section \<open>Benchmark statistics and the measuring loop\<close>

text \<open>
  Models \<open>scripts/bench_stats.py\<close>. Floats are real numbers; \<open>None\<close> stands for NaN. An operation
  either returns or raises, its \<open>i\<close>-th call (warm-up included) having the outcome \<open>outcome i\<close>; the
  readings of \<open>time.perf_counter\<close> are a sequence, consumed in the order of the code. The loop stops by
  itself after at most \<open>max 1 target_n\<close> operations, so it is a total function.
\<close>

subsection \<open>Percentiles\<close>

text \<open>Subscripts of a list: negative ones count from the end.\<close>

definition py_nth :: "'a list \<Rightarrow> int \<Rightarrow> py_error + 'a" where
  "py_nth xs i =
     (let n = int (length xs)
      in if 0 \<le> i \<and> i < n then Inr (xs ! nat i)
         else if - n \<le> i \<and> i < 0 then Inr (xs ! nat (n + i))
         else Inl IndexError)"

definition trunc :: "real \<Rightarrow> int" where
  "trunc x = (if 0 \<le> x then \<lfloor>x\<rfloor> else \<lceil>x\<rceil>)"

definition percentile :: "real list \<Rightarrow> real \<Rightarrow> py_error + real option" where
  "percentile vs pct =
     (if vs = [] then Inr None
      else if length vs = 1 then Inr (Some (vs ! 0))
      else let k = (real (length vs) - 1) * (pct / 100);
               f = \<lfloor>k\<rfloor>;
               c = \<lceil>k\<rceil>
           in if f = c then map_sum id Some (py_nth vs (trunc k))
              else case py_nth vs f of
                     Inl e \<Rightarrow> Inl e
                   | Inr lo \<Rightarrow>
                       (case py_nth vs c of
                          Inl e \<Rightarrow> Inl e
                        | Inr hi \<Rightarrow> Inr (Some (lo + (hi - lo) * (k - of_int f)))))"

record stats =
  st_n :: nat
  st_p50 :: "real option"
  st_p95 :: "real option"
  st_p99 :: "real option"
  st_mean :: "real option"
  st_throughput :: "real option"

definition compute_stats :: "real list \<Rightarrow> real \<Rightarrow> py_error + stats" where
  "compute_stats latencies elapsed =
     (let n = length latencies; s = sort latencies
      in case percentile s 50 of
           Inl e \<Rightarrow> Inl e
         | Inr p50 \<Rightarrow>
             (case percentile s 95 of
                Inl e \<Rightarrow> Inl e
              | Inr p95 \<Rightarrow>
                  (case percentile s 99 of
                     Inl e \<Rightarrow> Inl e
                   | Inr p99 \<Rightarrow> Inr
                       \<lparr>st_n = n, st_p50 = p50, st_p95 = p95, st_p99 = p99,
                        st_mean = (if n \<noteq> 0 then Some (sum_list s / real n) else None),
                        st_throughput = (if elapsed > 0 then Some (real n / elapsed) else None)\<rparr>)))"

subsection \<open>The loop\<close>

record run_stats =
  rs_stats :: stats
  rs_time_budget_hit :: bool
  rs_target_n :: int

fun warmup :: "(nat \<Rightarrow> py_error option) \<Rightarrow> nat \<Rightarrow> nat \<Rightarrow> py_error + nat" where
  "warmup outcome i 0 = Inr i"
| "warmup outcome i (Suc m) = (case outcome i of Some e \<Rightarrow> Inl e | None \<Rightarrow> warmup outcome (i + 1) m)"

text \<open>
  With \<open>j\<close> operations measured, the next readings are \<open>t0\<close>, the one after the operation and the one for
  \<open>elapsed\<close>; reading 0 is \<open>start\<close>.
\<close>

definition reading :: "(nat \<Rightarrow> real) \<Rightarrow> nat \<Rightarrow> nat \<Rightarrow> real" where
  "reading clk j part = clk (1 + 3 * j + part)"

function measure_loop ::
  "(nat \<Rightarrow> py_error option) \<Rightarrow> (nat \<Rightarrow> real) \<Rightarrow> int \<Rightarrow> int \<Rightarrow> real \<Rightarrow> nat \<Rightarrow> real list \<Rightarrow> py_error + real list" where
  "measure_loop outcome clk target floor_n budget i latencies =
     (let j = length latencies
      in case outcome i of
           Some e \<Rightarrow> Inl e
         | None \<Rightarrow>
             let ls = latencies @ [(reading clk j 1 - reading clk j 0) * 1000];
                 elapsed = reading clk j 2 - clk 0
             in if int (length ls) \<ge> target then Inr ls
                else if elapsed \<ge> budget \<and> int (length ls) \<ge> floor_n then Inr ls
                else measure_loop outcome clk target floor_n budget (i + 1) ls)"
  by pat_completeness auto

termination
  by (relation "measure (\<lambda>(outcome, clk, target, floor_n, budget, i, ls). nat (target - int (length ls)))") auto

declare measure_loop.simps [simp del]

definition run_condition ::
  "(nat \<Rightarrow> py_error option) \<Rightarrow> (nat \<Rightarrow> real) \<Rightarrow> int \<Rightarrow> int \<Rightarrow> real \<Rightarrow> int \<Rightarrow> py_error + run_stats" where
  "run_condition outcome clk target floor_n budget warmup_n =
     (case warmup outcome 0 (nat warmup_n) of
        Inl e \<Rightarrow> Inl e
      | Inr i \<Rightarrow>
          (case measure_loop outcome clk target floor_n budget i [] of
             Inl e \<Rightarrow> Inl e
           | Inr latencies \<Rightarrow>
               let elapsed = reading clk (length latencies) 0 - clk 0
               in case compute_stats latencies elapsed of
                    Inl e \<Rightarrow> Inl e
                  | Inr s \<Rightarrow> Inr
                      \<lparr>rs_stats = s, rs_time_budget_hit = (elapsed \<ge> budget \<and> int (st_n s) < target),
                       rs_target_n = target\<rparr>))"

subsection \<open>Percentiles of sorted samples\<close>

definition rank_of :: "real list \<Rightarrow> real \<Rightarrow> real" where
  "rank_of vs pct = (real (length vs) - 1) * (pct / 100)"

lemma rank_bounds:
  assumes "vs \<noteq> []" "0 \<le> pct" "pct \<le> 100"
  shows "0 \<le> rank_of vs pct" "rank_of vs pct \<le> real (length vs) - 1"
    "0 \<le> \<lfloor>rank_of vs pct\<rfloor>" "\<lceil>rank_of vs pct\<rceil> < int (length vs)" "0 \<le> \<lceil>rank_of vs pct\<rceil>"
    "\<lfloor>rank_of vs pct\<rfloor> < int (length vs)"
proof -
  have len: "1 \<le> real (length vs)" using assms(1) by (cases vs) auto
  show lo: "0 \<le> rank_of vs pct" using assms len by (simp add: rank_of_def)
  have "(real (length vs) - 1) * (pct / 100) \<le> (real (length vs) - 1) * 1"
    using assms len by (intro mult_left_mono) auto
  then show hi: "rank_of vs pct \<le> real (length vs) - 1" by (simp add: rank_of_def)
  show "0 \<le> \<lfloor>rank_of vs pct\<rfloor>" using lo by simp
  have "rank_of vs pct \<le> of_int (int (length vs) - 1)" using hi by simp
  then have "\<lceil>rank_of vs pct\<rceil> \<le> int (length vs) - 1" by (simp only: ceiling_le_iff)
  then show "\<lceil>rank_of vs pct\<rceil> < int (length vs)" by simp
  then show "\<lfloor>rank_of vs pct\<rfloor> < int (length vs)" using floor_le_ceiling [of "rank_of vs pct"] by linarith
  show "0 \<le> \<lceil>rank_of vs pct\<rceil>" using lo by (simp add: ceiling_le_iff order_trans [OF _ le_of_int_ceiling] flip: of_int_0_le_iff)
qed

definition interpolated :: "real list \<Rightarrow> real \<Rightarrow> real" where
  "interpolated vs x = vs ! nat \<lfloor>x\<rfloor> + (vs ! nat \<lceil>x\<rceil> - vs ! nat \<lfloor>x\<rfloor>) * (x - of_int \<lfloor>x\<rfloor>)"

lemma py_nth_in: "0 \<le> i \<Longrightarrow> i < int (length xs) \<Longrightarrow> py_nth xs i = Inr (xs ! nat i)"
  by (simp add: py_nth_def Let_def)

lemma percentile_rank:
  "vs \<noteq> [] \<Longrightarrow> length vs \<noteq> 1 \<Longrightarrow> percentile vs pct =
     (let k = rank_of vs pct; f = \<lfloor>k\<rfloor>; c = \<lceil>k\<rceil>
      in if f = c then map_sum id Some (py_nth vs (trunc k))
         else case py_nth vs f of
                Inl e \<Rightarrow> Inl e
              | Inr lo \<Rightarrow>
                  (case py_nth vs c of Inl e \<Rightarrow> Inl e | Inr hi \<Rightarrow> Inr (Some (lo + (hi - lo) * (k - of_int f)))))"
  unfolding percentile_def rank_of_def by simp

lemma percentile_interpolates:
  assumes "vs \<noteq> []" "0 \<le> pct" "pct \<le> 100"
  shows "percentile vs pct = Inr (Some (interpolated vs (rank_of vs pct)))"
proof (cases "length vs = 1")
  case True
  then have "rank_of vs pct = 0" by (simp add: rank_of_def)
  with True show ?thesis using assms(1) by (simp add: percentile_def interpolated_def)
next
  case False
  define k where "k = rank_of vs pct"
  note b = rank_bounds [OF assms, folded k_def]
  have "percentile vs pct = Inr (Some (interpolated vs k))"
  proof (cases "\<lfloor>k\<rfloor> = \<lceil>k\<rceil>")
    case eq: True
    then show ?thesis
      using b(1,6) py_nth_in [OF b(3,6)]
      by (simp add: percentile_rank [OF assms(1) False] k_def [symmetric] Let_def trunc_def interpolated_def)
  next
    case ne: False
    then show ?thesis
      using py_nth_in [OF b(3,6)] py_nth_in [OF b(5,4)]
      by (simp add: percentile_rank [OF assms(1) False] k_def [symmetric] Let_def interpolated_def)
  qed
  then show ?thesis by (simp add: k_def)
qed

lemma interpolated_between:
  assumes "sorted vs" "0 \<le> x" "\<lceil>x\<rceil> < int (length vs)"
  shows "vs ! nat \<lfloor>x\<rfloor> \<le> interpolated vs x" "interpolated vs x \<le> vs ! nat \<lceil>x\<rceil>"
proof -
  have idx: "nat \<lfloor>x\<rfloor> \<le> nat \<lceil>x\<rceil>" "nat \<lceil>x\<rceil> < length vs"
    using assms(2,3) floor_le_ceiling [of x] by (auto simp: nat_less_iff intro: nat_mono)
  have step: "vs ! nat \<lfloor>x\<rfloor> \<le> vs ! nat \<lceil>x\<rceil>" using sorted_nth_mono [OF assms(1) idx] .
  have frac: "0 \<le> x - of_int \<lfloor>x\<rfloor>" "x - of_int \<lfloor>x\<rfloor> \<le> 1" by linarith+
  show "vs ! nat \<lfloor>x\<rfloor> \<le> interpolated vs x" using step frac by (simp add: interpolated_def)
  have "(vs ! nat \<lceil>x\<rceil> - vs ! nat \<lfloor>x\<rfloor>) * (x - of_int \<lfloor>x\<rfloor>) \<le> (vs ! nat \<lceil>x\<rceil> - vs ! nat \<lfloor>x\<rfloor>) * 1"
    using step frac by (intro mult_left_mono) auto
  then show "interpolated vs x \<le> vs ! nat \<lceil>x\<rceil>" by (simp add: interpolated_def)
qed

lemma interpolated_mono:
  assumes "sorted vs" "0 \<le> x" "x \<le> y" "\<lceil>y\<rceil> < int (length vs)"
  shows "interpolated vs x \<le> interpolated vs y"
proof (cases "\<lfloor>x\<rfloor> = \<lfloor>y\<rfloor>")
  case True
  show ?thesis
  proof (cases "x = of_int \<lfloor>x\<rfloor>")
    case x: True
    then have "interpolated vs x = vs ! nat \<lfloor>x\<rfloor>" by (simp add: interpolated_def)
    then show ?thesis using interpolated_between(1) [OF assms(1) _ assms(4)] True assms(2,3) by simp
  next
    case x: False
    then have "of_int \<lfloor>x\<rfloor> < x" using of_int_floor_le [of x] by linarith
    then have "\<lceil>x\<rceil> = \<lfloor>x\<rfloor> + 1" "\<lceil>y\<rceil> = \<lfloor>x\<rfloor> + 1"
      using True assms(3) by (simp_all add: ceiling_eq_iff) linarith+
    then have c: "\<lceil>x\<rceil> = \<lceil>y\<rceil>" by simp
    have "vs ! nat \<lfloor>x\<rfloor> \<le> vs ! nat \<lceil>x\<rceil>"
      using interpolated_between [OF assms(1,2), unfolded c, OF assms(4)] c by simp
    then show ?thesis using True c assms(3) by (simp add: interpolated_def mult_left_mono)
  qed
next
  case False
  then have "\<lfloor>x\<rfloor> < \<lfloor>y\<rfloor>" using assms(3) floor_mono [of x y] by linarith
  then have "\<lceil>x\<rceil> \<le> \<lfloor>y\<rfloor>" by linarith
  then have idx: "nat \<lceil>x\<rceil> \<le> nat \<lfloor>y\<rfloor>" "nat \<lfloor>y\<rfloor> < length vs" "\<lceil>x\<rceil> < int (length vs)"
    using assms(4) floor_le_ceiling [of y] \<open>\<lfloor>x\<rfloor> < \<lfloor>y\<rfloor>\<close> assms(2)
    by (auto simp: nat_less_iff intro: nat_mono) linarith+
  have "interpolated vs x \<le> vs ! nat \<lceil>x\<rceil>" by (rule interpolated_between(2) [OF assms(1,2) idx(3)])
  also have "\<dots> \<le> vs ! nat \<lfloor>y\<rfloor>" by (rule sorted_nth_mono [OF assms(1) idx(1,2)])
  also have "\<dots> \<le> interpolated vs y" using interpolated_between(1) [OF assms(1) _ assms(4)] assms(2,3) by simp
  finally show ?thesis .
qed

subsection \<open>When the loop stops\<close>

text \<open>The test after the \<open>m\<close>-th operation.\<close>

definition enough :: "(nat \<Rightarrow> real) \<Rightarrow> int \<Rightarrow> int \<Rightarrow> real \<Rightarrow> nat \<Rightarrow> bool" where
  "enough clk target floor_n budget m \<longleftrightarrow>
     int m \<ge> target \<or> (reading clk (m - 1) 2 - clk 0 \<ge> budget \<and> int m \<ge> floor_n)"

lemma warmup_ok: "\<forall>j < m. outcome (i + j) = None \<Longrightarrow> warmup outcome i m = Inr (i + m)"
proof (induction m arbitrary: i)
  case (Suc m)
  have "outcome i = None" using Suc.prems [rule_format, of 0] by simp
  moreover have "\<forall>j < m. outcome (i + 1 + j) = None"
    using Suc.prems by (metis Suc_less_eq add.assoc plus_1_eq_Suc)
  ultimately show ?case using Suc.IH [of "i + 1"] by simp
qed simp

lemma measure_loop_stops:
  assumes "length ls < max 1 (nat target)" "\<forall>j < max 1 (nat target) - length ls. outcome (i + j) = None"
    and "\<forall>m. 1 \<le> m \<and> m \<le> length ls \<longrightarrow> \<not> enough clk target floor_n budget m"
  shows "\<exists>ls'. measure_loop outcome clk target floor_n budget i ls = Inr ls' \<and> length ls < length ls' \<and>
    length ls' \<le> max 1 (nat target) \<and> enough clk target floor_n budget (length ls') \<and>
    (\<forall>m. 1 \<le> m \<and> m < length ls' \<longrightarrow> \<not> enough clk target floor_n budget m)"
  using assms
proof (induction outcome clk target floor_n budget i ls rule: measure_loop.induct)
  case (1 outcome clk target floor_n budget i ls)
  define ls1 where "ls1 = ls @ [(reading clk (length ls) 1 - reading clk (length ls) 0) * 1000]"
  have len: "length ls1 = length ls + 1" by (simp add: ls1_def)
  have ok: "outcome i = None" using "1.prems"(1,2) by (metis add.right_neutral zero_less_diff)
  have step: "measure_loop outcome clk target floor_n budget i ls =
      (if enough clk target floor_n budget (length ls1) then Inr ls1
       else measure_loop outcome clk target floor_n budget (i + 1) ls1)"
    using ok by (subst measure_loop.simps) (simp add: ls1_def enough_def Let_def)
  show ?case
  proof (cases "enough clk target floor_n budget (length ls1)")
    case True
    have "\<not> enough clk target floor_n budget m" if "1 \<le> m" "m < length ls1" for m
      using "1.prems"(3) that len by simp
    then show ?thesis
      using step True len "1.prems"(1) by (intro exI [of _ ls1]) auto
  next
    case False
    then have cond: "\<not> target \<le> int (length ls1)"
      "\<not> (budget \<le> reading clk (length ls) 2 - clk 0 \<and> floor_n \<le> int (length ls1))"
      by (simp_all add: enough_def len)
    have less: "length ls1 < max 1 (nat target)" using cond(1) by linarith
    have later: "\<forall>j < max 1 (nat target) - length ls1. outcome (i + 1 + j) = None"
    proof (intro allI impI)
      fix j
      assume "j < max 1 (nat target) - length ls1"
      then have "outcome (i + (j + 1)) = None" using "1.prems"(2) [rule_format, of "j + 1"] len by linarith
      then show "outcome (i + 1 + j) = None" by (simp add: add.commute add.left_commute)
    qed
    have before: "\<forall>m. 1 \<le> m \<and> m \<le> length ls1 \<longrightarrow> \<not> enough clk target floor_n budget m"
      using "1.prems"(3) False len by (auto simp: le_Suc_eq)
    obtain ls' where "measure_loop outcome clk target floor_n budget (i + 1) ls1 = Inr ls'" "length ls1 < length ls'"
        "length ls' \<le> max 1 (nat target)" "enough clk target floor_n budget (length ls')"
        "\<forall>m. 1 \<le> m \<and> m < length ls' \<longrightarrow> \<not> enough clk target floor_n budget m"
      using "1.IH" [OF refl ok ls1_def refl cond less later before] by blast
    then show ?thesis using step False len by (intro exI [of _ ls']) simp
  qed
qed

lemma compute_stats_ok:
  assumes "ls \<noteq> []"
  shows "\<exists>s. compute_stats ls elapsed = Inr s \<and> st_n s = length ls \<and>
    st_p50 s = Some (interpolated (sort ls) (rank_of (sort ls) 50)) \<and>
    st_p95 s = Some (interpolated (sort ls) (rank_of (sort ls) 95)) \<and>
    st_p99 s = Some (interpolated (sort ls) (rank_of (sort ls) 99))"
proof -
  have "sort ls \<noteq> []" using assms by (metis set_empty set_sort)
  then show ?thesis using percentile_interpolates [of "sort ls"] by (simp add: compute_stats_def Let_def)
qed

lemma run_condition_result:
  assumes "\<forall>i < nat warmup_n + max 1 (nat target). outcome i = None"
  shows "\<exists>s. run_condition outcome clk target floor_n budget warmup_n = Inr s \<and>
    1 \<le> st_n (rs_stats s) \<and> st_n (rs_stats s) \<le> max 1 (nat target) \<and>
    enough clk target floor_n budget (st_n (rs_stats s)) \<and>
    (\<forall>m. 1 \<le> m \<and> m < st_n (rs_stats s) \<longrightarrow> \<not> enough clk target floor_n budget m) \<and>
    min floor_n target \<le> int (st_n (rs_stats s))"
proof -
  have warm: "warmup outcome 0 (nat warmup_n) = Inr (nat warmup_n)" using warmup_ok [of "nat warmup_n" outcome 0] assms by simp
  have calls: "\<forall>j < max 1 (nat target) - length []. outcome (nat warmup_n + j) = None" using assms by simp
  have start: "length ([] :: real list) < max 1 (nat target)"
    "\<forall>m. 1 \<le> m \<and> m \<le> length ([] :: real list) \<longrightarrow> \<not> enough clk target floor_n budget m"
    by simp_all
  obtain ls where ls: "measure_loop outcome clk target floor_n budget (nat warmup_n) [] = Inr ls" "0 < length ls"
      "length ls \<le> max 1 (nat target)" "enough clk target floor_n budget (length ls)"
      "\<forall>m. 1 \<le> m \<and> m < length ls \<longrightarrow> \<not> enough clk target floor_n budget m"
    using measure_loop_stops [OF start(1) calls start(2)] unfolding list.size(3) by (elim exE conjE)
  obtain s where s: "compute_stats ls (reading clk (length ls) 0 - clk 0) = Inr s" "st_n s = length ls"
    using compute_stats_ok [of ls] ls(2) by auto
  have "min floor_n target \<le> int (length ls)" using ls(4) by (auto simp: enough_def)
  then show ?thesis
    using warm ls s by (auto simp: run_condition_def Let_def Suc_le_eq)
qed

text \<open>C35. The measuring loop always ends: if no call raises, \<open>run_condition\<close> returns after the warm-up and
  between 1 and \<open>max 1 target_n\<close> measured operations, at the first one after which the target is
  reached or the time budget is used up with at least \<open>floor_n\<close> operations done; so it never measures
  fewer than \<open>floor_n\<close> when the target is at least the floor.\<close>

theorem run_condition_terminates:
  assumes "\<forall>i < nat warmup_n + max 1 (nat target). outcome i = None"
  shows "\<exists>s. run_condition outcome clk target floor_n budget warmup_n = Inr s \<and>
    1 \<le> st_n (rs_stats s) \<and> st_n (rs_stats s) \<le> max 1 (nat target) \<and>
    enough clk target floor_n budget (st_n (rs_stats s)) \<and>
    (\<forall>m. 1 \<le> m \<and> m < st_n (rs_stats s) \<longrightarrow> \<not> enough clk target floor_n budget m) \<and>
    min floor_n target \<le> int (st_n (rs_stats s))"
  using assms by (rule run_condition_result)

theorem run_condition_terminates_witness:
  "\<exists>s. run_condition (\<lambda>_. None) of_nat 4 2 5 1 = Inr s \<and> st_n (rs_stats s) = 2"
proof -
  obtain s where s: "run_condition (\<lambda>_. None) of_nat 4 2 5 1 = Inr s" "1 \<le> st_n (rs_stats s)"
      "enough of_nat 4 2 5 (st_n (rs_stats s))"
      "\<forall>m. 1 \<le> m \<and> m < st_n (rs_stats s) \<longrightarrow> \<not> enough of_nat 4 2 5 m"
    using run_condition_terminates [of 1 4 "\<lambda>_. None" of_nat 2 5] by auto
  have "\<not> enough of_nat 4 2 5 1" "enough of_nat 4 2 5 2" by (simp_all add: enough_def reading_def)
  then have "st_n (rs_stats s) = 2"
    using s(2,3) s(4) [rule_format, of 2]
    by (cases rule: linorder_cases [of "st_n (rs_stats s)" 2]) (auto simp: less_2_cases_iff)
  then show ?thesis using s(1) by blast
qed

text \<open>With a target below the floor the loop stops below the floor.\<close>

lemma floor_not_reached: "\<exists>s. run_condition (\<lambda>_. None) clk 1 50 120 0 = Inr s \<and> st_n (rs_stats s) = 1"
proof -
  have "measure_loop (\<lambda>_. None) clk 1 50 120 0 [] = Inr [(reading clk 0 1 - reading clk 0 0) * 1000]"
    by (subst measure_loop.simps) (simp add: Let_def)
  then show ?thesis by (simp add: run_condition_def compute_stats_def percentile_def Let_def)
qed

text \<open>The reported percentiles are ordered and lie within the sample: the median is at least the
  smallest latency, the 95th percentile is between the median and the 99th, and that one is at most
  the largest. They do not depend on the order of the sample.\<close>

theorem percentiles_ordered:
  assumes "latencies \<noteq> []" "mset shuffled = mset latencies"
  shows "\<exists>s a b c. compute_stats latencies elapsed = Inr s \<and> compute_stats shuffled elapsed = Inr s \<and>
    st_p50 s = Some a \<and> st_p95 s = Some b \<and> st_p99 s = Some c \<and>
    Min (set latencies) \<le> a \<and> a \<le> b \<and> b \<le> c \<and> c \<le> Max (set latencies)"
proof -
  let ?s = "sort latencies"
  have ne: "?s \<noteq> []" using assms(1) by (metis set_empty set_sort)
  have same: "sort shuffled = ?s" "length shuffled = length latencies"
    using assms(2) by (auto intro: properties_for_sort dest: mset_eq_length)
  obtain s where s: "compute_stats latencies elapsed = Inr s"
      "st_p50 s = Some (interpolated ?s (rank_of ?s 50))" "st_p95 s = Some (interpolated ?s (rank_of ?s 95))"
      "st_p99 s = Some (interpolated ?s (rank_of ?s 99))"
    using compute_stats_ok [OF assms(1)] by blast
  have shuffled: "compute_stats shuffled elapsed = Inr s"
    using s(1) unfolding compute_stats_def same Let_def .
  have rank: "rank_of ?s 50 \<le> rank_of ?s 95" "rank_of ?s 95 \<le> rank_of ?s 99"
    using ne by (cases ?s; simp add: rank_of_def mult_left_mono)+
  note b50 = rank_bounds [OF ne, of 50] and b95 = rank_bounds [OF ne, of 95] and b99 = rank_bounds [OF ne, of 99]
  have ends: "Min (set latencies) \<le> ?s ! i" "?s ! i \<le> Max (set latencies)" if "i < length ?s" for i
    using nth_mem [OF that] by simp_all
  have "Min (set latencies) \<le> ?s ! nat \<lfloor>rank_of ?s 50\<rfloor>" using ends b50 by (simp add: nat_less_iff)
  also have "\<dots> \<le> interpolated ?s (rank_of ?s 50)" using interpolated_between(1) b50 by simp
  finally have lo: "Min (set latencies) \<le> interpolated ?s (rank_of ?s 50)" .
  have "interpolated ?s (rank_of ?s 99) \<le> ?s ! nat \<lceil>rank_of ?s 99\<rceil>" using interpolated_between(2) b99 by simp
  also have "\<dots> \<le> Max (set latencies)" using ends b99 by (simp add: nat_less_iff)
  finally have hi: "interpolated ?s (rank_of ?s 99) \<le> Max (set latencies)" .
  have mono: "interpolated ?s (rank_of ?s 50) \<le> interpolated ?s (rank_of ?s 95)"
    "interpolated ?s (rank_of ?s 95) \<le> interpolated ?s (rank_of ?s 99)"
    using interpolated_mono [of ?s "rank_of ?s 50" "rank_of ?s 95"] interpolated_mono [of ?s "rank_of ?s 95" "rank_of ?s 99"]
      rank b50 b95 b99 by simp_all
  show ?thesis using s shuffled lo hi mono by blast
qed

theorem percentiles_ordered_witness:
  "\<exists>s a b c. compute_stats [30, 10, 20 :: real] 1 = Inr s \<and> compute_stats [10, 20, 30] 1 = Inr s \<and>
     st_p50 s = Some a \<and> st_p95 s = Some b \<and> st_p99 s = Some c \<and> 10 \<le> a \<and> a \<le> b \<and> b \<le> c \<and> c \<le> 30"
  using percentiles_ordered [of "[30, 10, 20]" "[10, 20, 30]" 1] by simp

end
