(* ===== verification/Bench.thy ===== *)
theory Bench
  imports Bench_Stats Config Json Effects
begin

section \<open>The benchmark against DynamoDB\<close>

text \<open>
  Models \<open>scripts/bench_config.py\<close>, \<open>dynamodb_bench_conditions.py\<close>, \<open>dynamodb_bench_aws.py\<close> and
  \<open>dynamodb_bench.py\<close>. DynamoDB, the HTTP API under test, Docker and the clocks are outside: every
  request that the benchmark issues is recorded in order, its outcome is a parameter (\<open>None\<close>: it
  returned, \<open>Some e\<close>: it raised), and so are the outcomes of the calls that describe, create and delete the
  table, the clock readings and the random characters. Writing and removing a file is taken to work. What
  is printed and the prose of the report are left out.

  A step of the benchmark is one of \<open>Effects\<close> on the state of the benchmark.
\<close>

subsection \<open>Settings\<close>

record bench_config =
  bc_node_url :: string
  bc_auth_token :: string
  bc_namespace :: string
  bc_aws_region :: string
  bc_table_name :: string
  bc_rcu :: int
  bc_wcu :: int
  bc_value_sizes :: "int list"
  bc_target_unconstrained :: int
  bc_target_10kb :: int
  bc_floor :: int
  bc_time_budget :: real
  bc_warmup_unconstrained :: int
  bc_warmup_10kb :: int
  bc_drain_ops :: int
  bc_aws_max_attempts :: int
  bc_pool_size :: int

definition load_bench_config :: "(string \<Rightarrow> py_error + real) \<Rightarrow> environ \<Rightarrow> py_error + bench_config" where
  "load_bench_config float_of env =
     (and_then (env_int env ''BENCH_TABLE_RCU'' ''25'') (\<lambda>rcu.
      and_then (env_int env ''BENCH_TABLE_WCU'' ''25'') (\<lambda>wcu.
      and_then (env_int env ''BENCH_OPS_TARGET_UNCONSTRAINED'' ''4000'') (\<lambda>target.
      and_then (env_int env ''BENCH_OPS_TARGET_10KB'' ''750'') (\<lambda>target_10kb.
      and_then (env_int env ''BENCH_OPS_FLOOR'' ''50'') (\<lambda>floor_n.
      and_then (float_of (env_str env ''BENCH_TIME_BUDGET_SECONDS'' ''120'')) (\<lambda>budget.
      and_then (env_int env ''BENCH_WARMUP_OPS_UNCONSTRAINED'' ''20'') (\<lambda>warm.
      and_then (env_int env ''BENCH_WARMUP_OPS_10KB'' ''5'') (\<lambda>warm_10kb.
      and_then (env_int env ''BENCH_BURST_CREDIT_DRAIN_OPS'' ''30'') (\<lambda>drain.
      and_then (env_int env ''BENCH_AWS_MAX_ATTEMPTS'' ''1'') (\<lambda>attempts.
      and_then (env_int env ''BENCH_CONNECTION_POOL_SIZE'' ''10'') (\<lambda>pool.
      Inr \<lparr>bc_node_url = env_str env ''BENCH_NODE_URL'' ''https://localhost:8001'',
           bc_auth_token = env_str env ''BENCH_AUTH_TOKEN'' ''tok_demo_admin'',
           bc_namespace = env_str env ''BENCH_NAMESPACE'' ''default'',
           bc_aws_region = env_str env ''AWS_REGION'' ''us-east-1'',
           bc_table_name = env_str env ''DYNAMODB_TABLE_NAME'' ''dynamokv-benchmark'',
           bc_rcu = rcu, bc_wcu = wcu, bc_value_sizes = [100, 1024, 10240],
           bc_target_unconstrained = target, bc_target_10kb = target_10kb, bc_floor = floor_n,
           bc_time_budget = budget, bc_warmup_unconstrained = warm, bc_warmup_10kb = warm_10kb,
           bc_drain_ops = drain, bc_aws_max_attempts = attempts, bc_pool_size = pool\<rparr>))))))))))))"

definition endpoint_host :: "bench_config \<Rightarrow> string" where
  "endpoint_host cfg = ''dynamodb.'' @ bc_aws_region cfg @ ''.amazonaws.com''"

definition op_count_target :: "bench_config \<Rightarrow> int \<Rightarrow> int" where
  "op_count_target cfg size_bytes = (if size_bytes \<ge> 10240 then bc_target_10kb cfg else bc_target_unconstrained cfg)"

definition warmup_ops :: "bench_config \<Rightarrow> int \<Rightarrow> int" where
  "warmup_ops cfg size_bytes = (if size_bytes \<ge> 10240 then bc_warmup_10kb cfg else bc_warmup_unconstrained cfg)"

subsection \<open>Requests and the state of a run\<close>

datatype bench_op =
    Api_Put url string
  | Api_Get url
  | Put_Item string string string
  | Get_Item string string bool

datatype control_call = Create_Table string int int | Delete_Table string

record bench_env =
  be_outcome :: "nat \<Rightarrow> bench_op \<Rightarrow> py_error option"
  be_clock :: "nat \<Rightarrow> nat \<Rightarrow> real"
  be_random :: "nat \<Rightarrow> nat \<Rightarrow> nat"
  be_docker :: "nat \<Rightarrow> py_error option"
  be_describe :: "nat \<Rightarrow> py_error + string"
  be_control :: "nat \<Rightarrow> control_call \<Rightarrow> py_error option"
  be_poll_clock :: "nat \<Rightarrow> real"

record bench_state =
  bn_requests :: "bench_op list"
  bn_conditions :: nat
  bn_override :: "string option"
  bn_docker :: nat
  bn_describes :: nat
  bn_polls :: nat
  bn_control :: "control_call list"
  bn_reports :: "(json \<times> string list) list"

type_synonym 'a step = "(bench_state, 'a) act"

definition issue :: "bench_env \<Rightarrow> bench_op \<Rightarrow> unit step" where
  "issue env op st =
     (let i = length (bn_requests st)
      in (case be_outcome env i op of None \<Rightarrow> Inr () | Some e \<Rightarrow> Inl e, st\<lparr>bn_requests := bn_requests st @ [op]\<rparr>))"

subsection \<open>Conditions\<close>

definition pool_size :: nat where
  "pool_size = 50"

definition alphabet :: string where
  "alphabet = ''abcdefghijklmnopqrstuvwxyzABCDEFGHIJKLMNOPQRSTUVWXYZ0123456789''"

definition random_value :: "(nat \<Rightarrow> nat) \<Rightarrow> int \<Rightarrow> string" where
  "random_value rnd size_bytes = map (\<lambda>j. alphabet ! (rnd j mod length alphabet)) [0..<nat size_bytes]"

definition pool_keys :: "string \<Rightarrow> string list" where
  "pool_keys start = map (\<lambda>i. start @ dec_nat i) [0..<pool_size]"

text \<open>The \<open>i\<close>-th element of \<open>itertools.cycle\<close>.\<close>

definition cycled :: "'a list \<Rightarrow> nat \<Rightarrow> 'a" where
  "cycled xs i = xs ! (i mod length xs)"

definition key_url :: "bench_config \<Rightarrow> string \<Rightarrow> url" where
  "key_url cfg k = bc_node_url cfg @ ''/v1/keys/'' @ k"

text \<open>A request whose value is drawn when it is issued.\<close>

definition value_now :: "bench_env \<Rightarrow> int \<Rightarrow> bench_state \<Rightarrow> string" where
  "value_now env size_bytes st = random_value (be_random env (length (bn_requests st))) size_bytes"

fun issue_puts :: "bench_env \<Rightarrow> int \<Rightarrow> (string \<Rightarrow> string \<Rightarrow> bench_op) \<Rightarrow> string list \<Rightarrow> unit step" where
  "issue_puts env size_bytes put [] st = (Inr (), st)"
| "issue_puts env size_bytes put (k # ks) st =
     seq (issue env (put k (value_now env size_bytes st))) (\<lambda>_. issue_puts env size_bytes put ks) st"

text \<open>
  The run of one condition: the \<open>i\<close>-th call of \<open>op\<close> issues \<open>ops i\<close>. The calls made are the warm-up and
  the measured ones, or those up to the first that raised.
\<close>

definition calls_made :: "(nat \<Rightarrow> py_error option) \<Rightarrow> int \<Rightarrow> int \<Rightarrow> py_error + run_stats \<Rightarrow> nat" where
  "calls_made outcome warm target res =
     (case res of
        Inr s \<Rightarrow> nat warm + st_n (rs_stats s)
      | Inl _ \<Rightarrow> Suc (length (takeWhile (\<lambda>i. outcome i = None) [0..<nat warm + max 1 (nat target)])))"

definition measured :: "bench_config \<Rightarrow> bench_env \<Rightarrow> int \<Rightarrow> (nat \<Rightarrow> bench_op) \<Rightarrow> run_stats step" where
  "measured cfg env size_bytes ops st =
     (let before = length (bn_requests st);
          outcome = (\<lambda>i. be_outcome env (before + i) (ops i));
          target = op_count_target cfg size_bytes;
          warm = warmup_ops cfg size_bytes;
          res = run_condition outcome (be_clock env (bn_conditions st)) target (bc_floor cfg) (bc_time_budget cfg) warm
      in (res, st\<lparr>bn_requests := bn_requests st @ map ops [0..<calls_made outcome warm target res],
                 bn_conditions := bn_conditions st + 1\<rparr>))"

definition our_put_condition :: "bench_config \<Rightarrow> bench_env \<Rightarrow> int \<Rightarrow> run_stats step" where
  "our_put_condition cfg env size_bytes st =
     (let keys = pool_keys (bc_namespace cfg @ '':bench-put-'');
          before = length (bn_requests st);
          op = (\<lambda>i. Api_Put (key_url cfg (cycled keys i)) (random_value (be_random env (before + i)) size_bytes))
      in measured cfg env size_bytes op st)"

definition our_get_condition :: "bench_config \<Rightarrow> bench_env \<Rightarrow> int \<Rightarrow> run_stats step" where
  "our_get_condition cfg env size_bytes =
     (let keys = pool_keys (bc_namespace cfg @ '':bench-get-'');
          op = (\<lambda>i. Api_Get (key_url cfg (cycled keys i)))
      in seq (issue_puts env size_bytes (\<lambda>k v. Api_Put (key_url cfg k) v) keys) (\<lambda>_. measured cfg env size_bytes op))"

definition drain_burst_credit :: "bench_config \<Rightarrow> bench_env \<Rightarrow> string list \<Rightarrow> int \<Rightarrow> unit step" where
  "drain_burst_credit cfg env keys size_bytes =
     issue_puts env size_bytes (Put_Item (bc_table_name cfg)) (map (cycled keys) [0..<nat (bc_drain_ops cfg)])"

definition drain_if_large :: "bench_config \<Rightarrow> bench_env \<Rightarrow> string list \<Rightarrow> int \<Rightarrow> unit step" where
  "drain_if_large cfg env keys size_bytes =
     (if size_bytes \<ge> 10240 then drain_burst_credit cfg env keys size_bytes else return_it ())"

definition dynamodb_put_condition :: "bench_config \<Rightarrow> bench_env \<Rightarrow> int \<Rightarrow> run_stats step" where
  "dynamodb_put_condition cfg env size_bytes =
     (let keys = pool_keys ''bench-put-''
      in seq (drain_if_large cfg env keys size_bytes) (\<lambda>_ st.
           let before = length (bn_requests st);
               op = (\<lambda>i. Put_Item (bc_table_name cfg) (cycled keys i) (random_value (be_random env (before + i)) size_bytes))
           in measured cfg env size_bytes op st))"

definition dynamodb_get_condition :: "bench_config \<Rightarrow> bench_env \<Rightarrow> int \<Rightarrow> bool \<Rightarrow> run_stats step" where
  "dynamodb_get_condition cfg env size_bytes consistent =
     (let keys = pool_keys ''bench-get-'';
          op = (\<lambda>i. Get_Item (bc_table_name cfg) (cycled keys i) consistent)
      in seq (issue_puts env size_bytes (Put_Item (bc_table_name cfg)) keys) (\<lambda>_.
         seq (drain_if_large cfg env keys size_bytes) (\<lambda>_. measured cfg env size_bytes op)))"

subsection \<open>The table\<close>

text \<open>
  \<open>describe_table\<close> gives the status of the table, or raises: \<open>ResourceNotFoundException\<close> when there is
  none, which \<open>table_exists\<close> turns into an answer, or anything else (no credentials, no network, a
  throttled control plane), which it passes on. \<open>create_table\<close> and \<open>delete_table\<close> may raise too.
\<close>

definition describe :: "bench_env \<Rightarrow> string step" where
  "describe env st = (be_describe env (bn_describes st), st\<lparr>bn_describes := bn_describes st + 1\<rparr>)"

definition control :: "bench_env \<Rightarrow> control_call \<Rightarrow> unit step" where
  "control env c st =
     (case be_control env (length (bn_control st)) c of None \<Rightarrow> Inr () | Some e \<Rightarrow> Inl e, st\<lparr>bn_control := bn_control st @ [c]\<rparr>)"

definition table_exists :: "bench_env \<Rightarrow> bool step" where
  "table_exists env =
     try_except (seq (describe env) (\<lambda>_. return_it True))
       (\<lambda>e. if e = ResourceNotFound then Some (return_it False) else None)"

text \<open>
  The polling loop, with fuel: \<open>None\<close> means that the fuel ran out before the loop ended, which
  \<open>wait_returns\<close> below excludes for 31 polls. A poll reads the clock, describes the table and sleeps
  for two seconds.
\<close>

fun wait_loop :: "nat \<Rightarrow> bench_env \<Rightarrow> real \<Rightarrow> bench_state \<Rightarrow> ((py_error + unit) \<times> bench_state) option" where
  "wait_loop 0 env deadline st = None"
| "wait_loop (Suc fuel) env deadline st =
     (let now = be_poll_clock env (bn_polls st); st1 = st\<lparr>bn_polls := bn_polls st + 1\<rparr>
      in if now < deadline then
           (case describe env st1 of
              (Inl e, st2) \<Rightarrow> Some (Inl e, st2)
            | (Inr status, st2) \<Rightarrow>
                if status = ''ACTIVE'' then Some (Inr (), st2) else wait_loop fuel env deadline st2)
         else Some (Inl TimeoutError, st1))"

definition wait_until_active :: "nat \<Rightarrow> bench_env \<Rightarrow> real \<Rightarrow> bench_state \<Rightarrow> ((py_error + unit) \<times> bench_state) option" where
  "wait_until_active fuel env timeout st =
     wait_loop fuel env (be_poll_clock env (bn_polls st) + timeout) (st\<lparr>bn_polls := bn_polls st + 1\<rparr>)"

definition create_table_if_missing ::
  "nat \<Rightarrow> bench_env \<Rightarrow> string \<Rightarrow> int \<Rightarrow> int \<Rightarrow> bench_state \<Rightarrow> ((py_error + bool) \<times> bench_state) option" where
  "create_table_if_missing fuel env table rcu wcu st =
     (case table_exists env st of
        (Inl e, st1) \<Rightarrow> Some (Inl e, st1)
      | (Inr True, st1) \<Rightarrow> Some (Inr False, st1)
      | (Inr False, st1) \<Rightarrow>
          (case control env (Create_Table table rcu wcu) st1 of
             (Inl e, st2) \<Rightarrow> Some (Inl e, st2)
           | (Inr _, st2) \<Rightarrow>
               (case wait_until_active fuel env 60 st2 of
                  None \<Rightarrow> None
                | Some (Inl e, st3) \<Rightarrow> Some (Inl e, st3)
                | Some (Inr _, st3) \<Rightarrow> Some (Inr True, st3))))"

definition teardown_table :: "bench_env \<Rightarrow> string \<Rightarrow> unit step" where
  "teardown_table env table =
     seq (table_exists env) (\<lambda>there. if there then control env (Delete_Table table) else return_it ())"

text \<open>What \<open>get_item\<close> returns of the service's response: the item's value, or nothing.\<close>

definition get_item_result :: "json \<Rightarrow> py_error + json" where
  "get_item_result resp =
     (case resp of
        JObj d \<Rightarrow>
          (case map_of d ''Item'' of
             None \<Rightarrow> Inr JNull
           | Some JNull \<Rightarrow> Inr JNull
           | Some (JObj []) \<Rightarrow> Inr JNull
           | Some (JObj item) \<Rightarrow>
               (case map_of item ''value'' of
                  Some (JObj v) \<Rightarrow> (case map_of v ''S'' of None \<Rightarrow> Inl KeyError | Some s \<Rightarrow> Inr s)
                | None \<Rightarrow> Inl KeyError
                | Some _ \<Rightarrow> Inl TypeError)
           | Some _ \<Rightarrow> Inl TypeError)
      | _ \<Rightarrow> Inl AttributeError)"

subsection \<open>Round-trip times\<close>

record rtt_sample =
  rt_tcp :: real
  rt_tls :: real
  rt_total :: real

text \<open>Three readings of the clock: before, after the connect, after the handshake.\<close>

definition measure_network_rtt :: "real \<Rightarrow> real \<Rightarrow> real \<Rightarrow> rtt_sample" where
  "measure_network_rtt t0 t1 t2 =
     \<lparr>rt_tcp = (t1 - t0) * 1000, rt_tls = (t2 - t1) * 1000, rt_total = (t2 - t0) * 1000\<rparr>"

definition run_network_rtt_probe :: "(nat \<Rightarrow> real) \<Rightarrow> nat \<Rightarrow> real list \<times> real list \<times> real list" where
  "run_network_rtt_probe clk n_samples =
     (let samples = map (\<lambda>i. measure_network_rtt (clk (3 * i)) (clk (3 * i + 1)) (clk (3 * i + 2))) [0..<n_samples]
      in (map rt_tcp samples, map rt_tls samples, map rt_total samples))"

subsection \<open>The whole run\<close>

record bench_row =
  br_system :: string
  br_operation :: string
  br_size :: int
  br_consistency :: string
  br_stats :: run_stats

definition row :: "string \<Rightarrow> string \<Rightarrow> int \<Rightarrow> string \<Rightarrow> run_stats \<Rightarrow> bench_row" where
  "row system operation size_bytes consistency s =
     \<lparr>br_system = system, br_operation = operation, br_size = size_bytes, br_consistency = consistency, br_stats = s\<rparr>"

definition r1_override :: string where
  "r1_override =
     ''services:'' @ [CHR 0x0A] @ ''  node-1:'' @ [CHR 0x0A] @ ''    environment:'' @ [CHR 0x0A] @
     ''      R: '' @ [CHR 0x22] @ ''1'' @ [CHR 0x22, CHR 0x0A]"

definition docker_up :: "bench_env \<Rightarrow> unit step" where
  "docker_up env st =
     (case be_docker env (bn_docker st) of None \<Rightarrow> Inr () | Some e \<Rightarrow> Inl e, st\<lparr>bn_docker := bn_docker st + 1\<rparr>)"

definition apply_r1_override :: "bench_env \<Rightarrow> bool step" where
  "apply_r1_override env st =
     (if bn_override st \<noteq> None then (Inr False, st)
      else seq (docker_up env) (\<lambda>_. return_it True) (st\<lparr>bn_override := Some r1_override\<rparr>))"

definition revert_r1_override :: "bench_env \<Rightarrow> unit step" where
  "revert_r1_override env st = docker_up env (st\<lparr>bn_override := None\<rparr>)"

definition put_rows :: "bench_config \<Rightarrow> bench_env \<Rightarrow> int \<Rightarrow> bench_row list step" where
  "put_rows cfg env size_bytes =
     seq (our_put_condition cfg env size_bytes) (\<lambda>ours.
     seq (dynamodb_put_condition cfg env size_bytes) (\<lambda>ddb.
     return_it
       [row ''ours'' ''PUT'' size_bytes ''W=2, R=2 pre-read reconcile'' ours,
        row ''dynamodb'' ''PutItem'' size_bytes ''default (undocumented durability mechanism)'' ddb]))"

definition get_rows :: "bench_config \<Rightarrow> bench_env \<Rightarrow> int \<Rightarrow> bench_row list step" where
  "get_rows cfg env size_bytes =
     seq (our_get_condition cfg env size_bytes) (\<lambda>ours.
     seq (dynamodb_get_condition cfg env size_bytes True) (\<lambda>ddb.
     return_it
       [row ''ours'' ''GET'' size_bytes ''R=2 (quorum majority, our default)'' ours,
        row ''dynamodb'' ''GetItem'' size_bytes ''ConsistentRead=True'' ddb]))"

definition r1_rows :: "bench_config \<Rightarrow> bench_env \<Rightarrow> int \<Rightarrow> bench_row list step" where
  "r1_rows cfg env size_bytes =
     seq (our_get_condition cfg env size_bytes) (\<lambda>ours.
     return_it [row ''ours'' ''GET'' size_bytes ''R=1 (single replica, temporary override)'' ours])"

definition eventual_rows :: "bench_config \<Rightarrow> bench_env \<Rightarrow> int \<Rightarrow> bench_row list step" where
  "eventual_rows cfg env size_bytes =
     seq (dynamodb_get_condition cfg env size_bytes False) (\<lambda>ddb.
     return_it [row ''dynamodb'' ''GetItem'' size_bytes ''ConsistentRead=False (eventual, default)'' ddb])"

definition run_all :: "bench_config \<Rightarrow> bench_env \<Rightarrow> bench_row list step" where
  "run_all cfg env =
     seq (for_each (bc_value_sizes cfg) (put_rows cfg env)) (\<lambda>puts.
     seq (for_each (bc_value_sizes cfg) (get_rows cfg env)) (\<lambda>gets.
     seq (apply_r1_override env) (\<lambda>applied.
     seq (if applied then try_finally (for_each (bc_value_sizes cfg) (r1_rows cfg env)) (revert_r1_override env)
          else return_it []) (\<lambda>r1.
     seq (for_each (bc_value_sizes cfg) (eventual_rows cfg env)) (\<lambda>eventual.
     return_it (puts @ gets @ r1 @ eventual))))))"

text \<open>The preconditions of a run: every node healthy, and the table there or to be created.\<close>

fun preflight_cluster :: "(py_error + nat) list \<Rightarrow> py_error + unit" where
  "preflight_cluster [] = Inr ()"
| "preflight_cluster (Inr status # hs) = (if status \<noteq> 200 then Inl (SystemExit 1) else preflight_cluster hs)"
| "preflight_cluster (Inl e # hs) = Inl (if e = HTTPError then SystemExit 1 else e)"

definition preflight_aws ::
  "nat \<Rightarrow> bench_config \<Rightarrow> bench_env \<Rightarrow> bool \<Rightarrow> bench_state \<Rightarrow> ((py_error + unit) \<times> bench_state) option" where
  "preflight_aws fuel cfg env create st =
     (case table_exists env st of
        (Inl e, st1) \<Rightarrow> Some (Inl e, st1)
      | (Inr True, st1) \<Rightarrow> Some (Inr (), st1)
      | (Inr False, st1) \<Rightarrow>
          if \<not> create then Some (Inl (SystemExit 1), st1)
          else (case create_table_if_missing fuel env (bc_table_name cfg) (bc_rcu cfg) (bc_wcu cfg) st1 of
                  None \<Rightarrow> None
                | Some (Inl e, st2) \<Rightarrow> Some (Inl e, st2)
                | Some (Inr _, st2) \<Rightarrow> Some (Inr (), st2)))"

text \<open>One row of the report's table; \<open>two\<close> prints a float with two decimals.\<close>

definition fmt :: "(real \<Rightarrow> string) \<Rightarrow> real option \<Rightarrow> string" where
  "fmt two v = (case v of None \<Rightarrow> ''n/a'' | Some x \<Rightarrow> two x)"

definition report_row :: "(real \<Rightarrow> string) \<Rightarrow> bench_row \<Rightarrow> string" where
  "report_row two r =
     (let s = rs_stats (br_stats r)
      in ''| '' @ join_with '' | ''
           [br_system r, br_operation r, dump_int (br_size r), br_consistency r, dec_nat (st_n s), fmt two (st_p50 s),
            fmt two (st_p95 s), fmt two (st_p99 s), fmt two (st_throughput s)] @ '' |'')"

subsection \<open>The override file\<close>

text \<open>A run of the conditions changes nothing but the requests and the number of conditions.\<close>

definition observer :: "(bench_state \<Rightarrow> 'b) \<Rightarrow> bool" where
  "observer f \<longleftrightarrow> (\<forall>st rs n. f (st\<lparr>bn_requests := rs\<rparr>) = f st \<and> f (st\<lparr>bn_conditions := n\<rparr>) = f st)"

definition compose :: "bench_state \<Rightarrow> string option \<times> nat" where
  "compose st = (bn_override st, bn_docker st)"

lemma observers [simp]: "observer compose" "observer bn_control" "observer bn_reports"
  by (simp_all add: observer_def compose_def)

lemma keeps_issue [keeps]: "observer f \<Longrightarrow> keeps f (issue env op)"
  by (simp add: keeps_def observer_def issue_def Let_def split: option.split)

lemma issue_puts_Cons:
  "issue_puts env n put (k # ks) = (\<lambda>st. seq (issue env (put k (value_now env n st))) (\<lambda>_. issue_puts env n put ks) st)"
  by (simp add: fun_eq_iff)

lemma keeps_issue_puts [keeps]: "observer f \<Longrightarrow> keeps f (issue_puts env n put ks)"
proof (induction ks)
  case (Cons k ks)
  show ?case
    using keeps_seq [OF keeps_issue [OF Cons.prems] Cons.IH [OF Cons.prems]] by (simp add: keeps_def)
qed (simp add: keeps_def)

lemma measured_observer: "observer f \<Longrightarrow> f (snd (measured cfg env n ops st)) = f st"
  by (simp add: observer_def measured_def Let_def split: prod.split)

lemma keeps_measured [keeps]: "observer f \<Longrightarrow> keeps f (measured cfg env n ops)"
  by (simp add: keeps_def measured_observer)

lemma keeps_our_put [keeps]: "observer f \<Longrightarrow> keeps f (our_put_condition cfg env n)"
  by (simp add: our_put_condition_def Let_def keeps_def measured_observer)

lemma keeps_our_get [keeps]: "observer f \<Longrightarrow> keeps f (our_get_condition cfg env n)"
  by (simp add: our_get_condition_def Let_def keeps)

lemma keeps_drain [keeps]: "observer f \<Longrightarrow> keeps f (drain_if_large cfg env ks n)"
  by (simp add: drain_if_large_def drain_burst_credit_def keeps)

lemma keeps_dynamodb_put [keeps]: "observer f \<Longrightarrow> keeps f (dynamodb_put_condition cfg env n)"
proof -
  assume "observer f"
  then have "keeps f (\<lambda>st. measured cfg env n (ops st) st)" for ops
    by (simp add: keeps_def measured_observer)
  then show ?thesis using \<open>observer f\<close> by (simp add: dynamodb_put_condition_def Let_def keeps_seq keeps_drain)
qed

lemma keeps_dynamodb_get [keeps]: "observer f \<Longrightarrow> keeps f (dynamodb_get_condition cfg env n b)"
  by (simp add: dynamodb_get_condition_def Let_def keeps)

lemma keeps_rows [keeps]:
  assumes "observer f"
  shows "keeps f (put_rows cfg env n)" "keeps f (get_rows cfg env n)" "keeps f (r1_rows cfg env n)"
    "keeps f (eventual_rows cfg env n)"
  using assms by (simp_all add: put_rows_def get_rows_def r1_rows_def eventual_rows_def keeps)

text \<open>The R=1 phase between applying and reverting the override, then the rest of the run.\<close>

definition r1_phase :: "bench_config \<Rightarrow> bench_env \<Rightarrow> bench_row list step" where
  "r1_phase cfg env =
     seq (apply_r1_override env) (\<lambda>applied.
       if applied then try_finally (for_each (bc_value_sizes cfg) (r1_rows cfg env)) (revert_r1_override env)
       else return_it [])"

lemma run_all_phases:
  "run_all cfg env =
     seq (for_each (bc_value_sizes cfg) (put_rows cfg env)) (\<lambda>puts.
     seq (for_each (bc_value_sizes cfg) (get_rows cfg env)) (\<lambda>gets.
     seq (r1_phase cfg env) (\<lambda>r1.
     seq (for_each (bc_value_sizes cfg) (eventual_rows cfg env)) (\<lambda>eventual.
     return_it (puts @ gets @ r1 @ eventual)))))"
  by (simp add: run_all_def r1_phase_def seq_assoc)

lemma revert_removes: "bn_override (snd (revert_r1_override env st)) = None"
  by (simp add: revert_r1_override_def docker_up_def split: option.split)

lemma r1_phase_restores:
  assumes "bn_override st \<noteq> None \<or> be_docker env (bn_docker st) = None"
  shows "bn_override (snd (r1_phase cfg env st)) = bn_override st"
proof (cases "bn_override st")
  case None
  define st1 where "st1 = st\<lparr>bn_override := Some r1_override, bn_docker := bn_docker st + 1\<rparr>"
  have "apply_r1_override env st = (Inr True, st1)"
    using assms None by (simp add: apply_r1_override_def docker_up_def seq_def return_it_def st1_def)
  moreover obtain r st2 where body: "for_each (bc_value_sizes cfg) (r1_rows cfg env) st1 = (r, st2)" by force
  moreover obtain r' st3 where reverted: "revert_r1_override env st2 = (r', st3)" by force
  ultimately have "snd (r1_phase cfg env st) = st3"
    by (cases r') (simp_all add: r1_phase_def seq_def try_finally_def)
  then show ?thesis using revert_removes [of env st2] None by (simp add: reverted)
next
  case (Some old)
  then show ?thesis by (simp add: r1_phase_def apply_r1_override_def seq_def return_it_def)
qed

lemma keeps_compose: "keeps compose m \<Longrightarrow> m st = (r, st') \<Longrightarrow> bn_override st' = bn_override st \<and> bn_docker st' = bn_docker st"
  using keepsD [of compose m st r st'] by (simp add: compose_def)

text \<open>
  The benchmark leaves \<open>docker-compose.override.yml\<close> as it found it, however the run ends: a file
  that was there is untouched, and the R=1 override of the benchmark is removed again also when a request
  of any phase raises, provided that the \<open>docker compose up\<close> that applies it returns.
\<close>

theorem override_restored:
  assumes "bn_override st \<noteq> None \<or> be_docker env (bn_docker st) = None"
  shows "bn_override (snd (run_all cfg env st)) = bn_override st"
proof -
  let ?sizes = "bc_value_sizes cfg"
  obtain r1 st1 where 1: "for_each ?sizes (put_rows cfg env) st = (r1, st1)" by force
  obtain r2 st2 where 2: "for_each ?sizes (get_rows cfg env) st1 = (r2, st2)" by force
  obtain r3 st3 where 3: "r1_phase cfg env st2 = (r3, st3)" by force
  obtain r4 st4 where 4: "for_each ?sizes (eventual_rows cfg env) st3 = (r4, st4)" by force
  have k1: "bn_override st1 = bn_override st \<and> bn_docker st1 = bn_docker st"
    by (rule keeps_compose [OF keeps_for_each 1]) (simp add: keeps_rows)
  have k2: "bn_override st2 = bn_override st1 \<and> bn_docker st2 = bn_docker st1"
    by (rule keeps_compose [OF keeps_for_each 2]) (simp add: keeps_rows)
  have k3: "bn_override st3 = bn_override st2"
    using r1_phase_restores [of st2 env cfg] assms k1 k2 by (simp add: 3)
  have k4: "bn_override st4 = bn_override st3"
    by (rule conjunct1 [OF keeps_compose [OF keeps_for_each 4]]) (simp add: keeps_rows)
  show ?thesis
    using k1 k2 k3 k4
    by (cases r1; cases r2; cases r3; cases r4) (simp_all add: run_all_phases seq_def 1 2 3 4 return_it_def)
qed

text \<open>The default settings, and a run in which every read of the API under test raises.\<close>

definition ex_bench :: bench_config where
  "ex_bench = projr (load_bench_config (\<lambda>_. Inr 120) [])"

definition ex_bench_env :: bench_env where
  "ex_bench_env =
     \<lparr>be_outcome = (\<lambda>i op. case op of Api_Get u \<Rightarrow> Some HTTPError | _ \<Rightarrow> None), be_clock = (\<lambda>i j. real j),
      be_random = (\<lambda>i j. j), be_docker = (\<lambda>i. None), be_describe = (\<lambda>i. Inr ''ACTIVE''), be_control = (\<lambda>i c. None),
      be_poll_clock = (\<lambda>i. 2 * real i)\<rparr>"

definition ex_bench_state :: bench_state where
  "ex_bench_state =
     \<lparr>bn_requests = [], bn_conditions = 0, bn_override = None, bn_docker = 0, bn_describes = 0, bn_polls = 0, bn_control = [],
      bn_reports = []\<rparr>"

lemma override_restored_witness:
  "bn_override ex_bench_state = None \<and> bn_override (snd (run_all ex_bench ex_bench_env ex_bench_state)) = None"
  using override_restored [of ex_bench_state ex_bench_env ex_bench]
  by (simp add: ex_bench_state_def ex_bench_env_def)

text \<open>
  The \<open>docker compose up\<close> of \<open>apply_r1_override\<close> stands before the \<open>try\<close>: when it raises (it has a
  timeout), the exception leaves \<open>run_all\<close> and the override file stays behind.
\<close>

lemma override_left_behind:
  assumes "for_each (bc_value_sizes cfg) (put_rows cfg env) st = (Inr puts, st1)"
    and "for_each (bc_value_sizes cfg) (get_rows cfg env) st1 = (Inr gets, st2)"
    and "bn_override st2 = None" "be_docker env (bn_docker st2) = Some e"
  shows "fst (run_all cfg env st) = Inl e \<and> bn_override (snd (run_all cfg env st)) = Some r1_override"
  using assms(3,4)
  by (simp add: run_all_def apply_r1_override_def docker_up_def seq_def assms(1,2))

text \<open>
  So a run ends in one of two ways for the override file: as it found it, or, when there was none and
  that \<open>docker compose up\<close> raised, with the exception and the R=1 override left behind.
\<close>

lemma run_all_override:
  assumes "run_all cfg env st = (r, st')"
  shows "bn_override st' = bn_override st \<or>
    bn_override st = None \<and> bn_override st' = Some r1_override \<and> (\<exists>e. be_docker env (bn_docker st) = Some e \<and> r = Inl e)"
proof (cases "bn_override st \<noteq> None \<or> be_docker env (bn_docker st) = None")
  case True
  then show ?thesis using override_restored [OF True, of cfg] assms by simp
next
  case False
  then obtain e where none: "bn_override st = None" and e: "be_docker env (bn_docker st) = Some e" by auto
  let ?sizes = "bc_value_sizes cfg"
  obtain r1 st1 where 1: "for_each ?sizes (put_rows cfg env) st = (r1, st1)" by force
  obtain r2 st2 where 2: "for_each ?sizes (get_rows cfg env) st1 = (r2, st2)" by force
  have k1: "bn_override st1 = bn_override st \<and> bn_docker st1 = bn_docker st"
    by (rule keeps_compose [OF keeps_for_each 1]) (simp add: keeps_rows)
  have k2: "bn_override st2 = bn_override st1 \<and> bn_docker st2 = bn_docker st1"
    by (rule keeps_compose [OF keeps_for_each 2]) (simp add: keeps_rows)
  show ?thesis
  proof (cases "isl r1 \<or> isl r2")
    case True
    then show ?thesis using assms k1 k2 by (cases r1; cases r2) (auto simp: run_all_def seq_def 1 2)
  next
    case False
    then obtain puts gets where "r1 = Inr puts" "r2 = Inr gets" by (cases r1; cases r2) auto
    then show ?thesis
      using override_left_behind [of cfg env st puts st1 gets st2 e] 1 2 k1 k2 none e assms by simp
  qed
qed

subsection \<open>The wait for the table ends\<close>

text \<open>
  When from some poll on the clock has passed the deadline, the loop ends by then. The first reading of
  the clock fixes the deadline and the next one is the first poll; \<open>time.monotonic\<close> does not go back,
  and a poll that does not end the loop sleeps for two seconds.
\<close>

lemma wait_loop_returns:
  assumes "\<And>i. deadline \<le> be_poll_clock env (bn_polls st + n + i)"
  shows "wait_loop (Suc n) env deadline st \<noteq> None"
  using assms
proof (induction n arbitrary: st)
  case 0
  then have "\<not> be_poll_clock env (bn_polls st) < deadline" by (metis add.right_neutral not_less)
  then show ?case by (simp add: Let_def)
next
  case (Suc n)
  have rest: "wait_loop (Suc n) env deadline (st\<lparr>bn_polls := bn_polls st + 1, bn_describes := d\<rparr>) \<noteq> None" for d
    using Suc.prems by (intro Suc.IH) (simp add: add.assoc)
  then show ?case
    by (auto simp: wait_loop.simps(2) [of "Suc n"] Let_def describe_def split: sum.split simp del: wait_loop.simps(2))
qed

lemma wait_loop_more_fuel: "wait_loop n env deadline st = Some r \<Longrightarrow> n \<le> m \<Longrightarrow> wait_loop m env deadline st = Some r"
proof (induction n arbitrary: m st)
  case (Suc n)
  then obtain k where "m = Suc k" "n \<le> k" by (metis Suc_le_D Suc_le_mono)
  then show ?case using Suc by (auto simp: Let_def split: if_splits prod.splits sum.splits)
qed simp

definition polls_sleep :: "bench_env \<Rightarrow> nat \<Rightarrow> bool" where
  "polls_sleep env p \<longleftrightarrow>
     be_poll_clock env p \<le> be_poll_clock env (p + 1) \<and>
     (\<forall>i. be_poll_clock env (p + 1 + i) + 2 \<le> be_poll_clock env (p + 2 + i))"

lemma wait_returns:
  assumes "polls_sleep env (bn_polls st)" "31 \<le> fuel"
  shows "wait_until_active fuel env 60 st \<noteq> None"
proof -
  let ?p = "bn_polls st"
  have later: "be_poll_clock env ?p + 2 * real i \<le> be_poll_clock env (?p + 1 + i)" for i
  proof (induction i)
    case 0
    show ?case using assms(1) by (simp add: polls_sleep_def)
  next
    case (Suc i)
    have "be_poll_clock env (?p + 1 + i) + 2 \<le> be_poll_clock env (?p + 1 + Suc i)"
      using assms(1) by (simp add: polls_sleep_def)
    with Suc show ?case by simp
  qed
  have past: "be_poll_clock env ?p + 60 \<le> be_poll_clock env (?p + 1 + 30 + i)" for i
    using later [of "30 + i"] by (simp add: algebra_simps)
  have "wait_loop (Suc 30) env (be_poll_clock env ?p + 60) (st\<lparr>bn_polls := ?p + 1\<rparr>) \<noteq> None"
    by (rule wait_loop_returns) (use past in simp)
  then obtain r where "wait_loop (Suc 30) env (be_poll_clock env ?p + 60) (st\<lparr>bn_polls := ?p + 1\<rparr>) = Some r" by blast
  from wait_loop_more_fuel [OF this, of fuel] assms(2) show ?thesis by (simp add: wait_until_active_def)
qed

end
