(* ===== verification/Bench_Report.thy ===== *)
theory Bench_Report
  imports Bench Auth
begin

section \<open>The clients, the reports and the command line of the benchmark\<close>

text \<open>
  The rest of \<open>scripts/dynamodb_bench.py\<close>, \<open>dynamodb_bench_conditions.py\<close> and \<open>dynamodb_bench_aws.py\<close>: how the
  two clients are configured and what they send, the two files of the report, and \<open>main\<close>, which runs
  the preflight, the benchmark of \<open>Bench\<close> and the network probe, writes the reports and tears the table
  down. A character outside ASCII is the list of its UTF-8 bytes. What is printed is left out.
\<close>

subsection \<open>The clients\<close>

record http_client =
  hl_verify :: bool
  hl_timeout :: real
  hl_headers :: "(string \<times> string) list"
  hl_max_connections :: int
  hl_max_keepalive :: int

definition our_client :: "bench_config \<Rightarrow> http_client" where
  "our_client cfg =
     \<lparr>hl_verify = False, hl_timeout = 10, hl_headers = [(''authorization'', ''Bearer '' @ bc_auth_token cfg)],
      hl_max_connections = bc_pool_size cfg, hl_max_keepalive = bc_pool_size cfg\<rparr>"

record aws_client =
  aw_service :: string
  aw_region :: string
  aw_max_attempts :: int
  aw_retry_mode :: string
  aw_max_pool :: int

definition build_client :: "bench_config \<Rightarrow> aws_client" where
  "build_client cfg =
     \<lparr>aw_service = ''dynamodb'', aw_region = bc_aws_region cfg, aw_max_attempts = bc_aws_max_attempts cfg,
      aw_retry_mode = ''standard'', aw_max_pool = bc_pool_size cfg\<rparr>"

text \<open>What the functions around the DynamoDB client pass to it.\<close>

definition attribute :: "string \<Rightarrow> json" where
  "attribute s = JObj [(''S'', JStr s)]"

definition put_item_params :: "string \<Rightarrow> string \<Rightarrow> string \<Rightarrow> json" where
  "put_item_params table k val =
     JObj [(''TableName'', JStr table), (''Item'', JObj [(''pk'', attribute k), (''value'', attribute val)])]"

definition get_item_params :: "string \<Rightarrow> string \<Rightarrow> bool \<Rightarrow> json" where
  "get_item_params table k consistent =
     JObj [(''TableName'', JStr table), (''Key'', JObj [(''pk'', attribute k)]), (''ConsistentRead'', JBool consistent)]"

definition delete_item_params :: "string \<Rightarrow> string \<Rightarrow> json" where
  "delete_item_params table k = JObj [(''TableName'', JStr table), (''Key'', JObj [(''pk'', attribute k)])]"

definition create_table_params :: "string \<Rightarrow> int \<Rightarrow> int \<Rightarrow> json" where
  "create_table_params table rcu wcu =
     JObj [(''TableName'', JStr table),
           (''AttributeDefinitions'', JArr [JObj [(''AttributeName'', JStr ''pk''), (''AttributeType'', JStr ''S'')]]),
           (''KeySchema'', JArr [JObj [(''AttributeName'', JStr ''pk''), (''KeyType'', JStr ''HASH'')]]),
           (''BillingMode'', JStr ''PROVISIONED''),
           (''ProvisionedThroughput'', JObj [(''ReadCapacityUnits'', JInt rcu), (''WriteCapacityUnits'', JInt wcu)])]"

text \<open>An item that was put is read back: a service that answers \<open>get_item\<close> with the item of the put.\<close>

lemma get_after_put:
  assumes "put_item_params table k val = JObj params" "map_of params ''Item'' = Some item"
  shows "get_item_result (JObj [(''Item'', item)]) = Inr (JStr val)"
  using assms by (auto simp: put_item_params_def get_item_result_def attribute_def)

subsection \<open>The benchmark as a client of the API\<close>

text \<open>The request that \<open>our_client\<close> sends for an operation on the API, and the key that the route gets.\<close>

definition api_request :: "bench_config \<Rightarrow> string \<Rightarrow> url \<Rightarrow> http_request" where
  "api_request cfg verb u =
     (let path = drop (length (bc_node_url cfg)) u
      in \<lparr>rq_method = verb, rq_path = path, rq_key = Some (drop (length ''/v1/keys/'') path),
          rq_headers = hl_headers (our_client cfg), rq_client = None\<rparr>)"

text \<open>A token that may read and write in the namespace of the benchmark is enough for every request.\<close>

lemma bench_requests_allowed:
  assumes "CHR '':'' \<notin> set (bc_namespace cfg)" "k \<in> set (pool_keys (bc_namespace cfg @ '':'' @ start))"
    and "map_of d (bc_auth_token cfg) = Some e" "(verb, v) \<in> {(''PUT'', ''write''), (''GET'', ''read'')}"
    and "v \<in> verbs_for e (bc_namespace cfg)"
  shows "policy (JObj d) (api_request cfg verb (key_url cfg k)) k \<and> rq_key (api_request cfg verb (key_url cfg k)) = Some k"
proof -
  obtain rest where k: "k = bc_namespace cfg @ '':'' @ rest" using assms(2) by (auto simp: pool_keys_def)
  have "takeWhile (\<lambda>c. c \<noteq> CHR '':'') (bc_namespace cfg) = bc_namespace cfg"
    using assms(1) by (auto simp: takeWhile_eq_all_conv)
  then have ns: "namespace_for_key k = bc_namespace cfg"
    using assms(1) unfolding k namespace_for_key_def by (subst takeWhile_append2) auto
  show ?thesis
    using assms(3-5)
    by (auto simp: policy_def token_entry_def api_request_def our_client_def key_url_def bearer_def ns verb_of_def method_to_verb_def Let_def)
qed

subsection \<open>The reports\<close>

type_synonym rtts = "real list \<times> real list \<times> real list"

text \<open>A float that is not a number is written as \<open>NaN\<close>.\<close>

definition float_json :: "(real \<Rightarrow> string) \<Rightarrow> real option \<Rightarrow> json" where
  "float_json repr v = JFloat (case v of None \<Rightarrow> ''NaN'' | Some x \<Rightarrow> repr x)"

definition row_json :: "(real \<Rightarrow> string) \<Rightarrow> bench_row \<Rightarrow> json" where
  "row_json repr r =
     (let s = rs_stats (br_stats r)
      in JObj [(''system'', JStr (br_system r)), (''operation'', JStr (br_operation r)), (''size_bytes'', JInt (br_size r)),
               (''consistency'', JStr (br_consistency r)), (''n'', JInt (int (st_n s))),
               (''p50_ms'', float_json repr (st_p50 s)), (''p95_ms'', float_json repr (st_p95 s)),
               (''p99_ms'', float_json repr (st_p99 s)), (''mean_ms'', float_json repr (st_mean s)),
               (''throughput_ops_sec'', float_json repr (st_throughput s)),
               (''time_budget_hit'', JBool (rs_time_budget_hit (br_stats r))), (''target_n'', JInt (rs_target_n (br_stats r)))])"

definition rtt_json :: "(real \<Rightarrow> string) \<Rightarrow> rtts \<Rightarrow> json" where
  "rtt_json repr = (\<lambda>(tcp, tls, total).
     let ms = (\<lambda>xs. JArr (map (\<lambda>x. JFloat (repr x)) xs))
     in JObj [(''tcp_connect_ms'', ms tcp), (''tls_handshake_ms'', ms tls), (''total_ms'', ms total)])"

definition results_json :: "(real \<Rightarrow> string) \<Rightarrow> bench_config \<Rightarrow> bench_row list \<Rightarrow> rtts \<Rightarrow> json" where
  "results_json repr cfg results rtt =
     JObj [(''aws_region'', JStr (bc_aws_region cfg)), (''table_name'', JStr (bc_table_name cfg)),
           (''results'', JArr (map (row_json repr) results)), (''network_rtt_ms'', rtt_json repr rtt)]"

definition bench_notes :: "string list" where
  "bench_notes =
     [''Closed-loop measurement: request N+1 is issued only after N's response returns (single outstanding '' @
       ''request per condition). This under-represents tail latency during any slow period (coordinated '' @
       ''omission) -- a stated limitation, not an open-loop-representative result.'',
      ''p99 is a noisy estimate at low N (roughly the k-th highest of n samples) -- treat it as less '' @
       ''trustworthy than p50/p95, especially for the 10KB tier where N is smaller by design.'',
      ''Our system's calls go through the real public HTTPS API with the full stack live: mTLS-signed '' @
       ''internal replica fan-out, AES-256-GCM encryption at rest, a synchronous blocking audit-log file '' @
       ''write on every request (AuditLogMiddleware), and vector-clock reconcile. DynamoDB's PutItem/GetItem '' @
       ''have no equivalent client-visible steps -- replication, encryption at rest, and durability happen '' @
       ''server-side and are not separately timed here.'',
      ''Our PUT is not a pure W=2 operation: Node.put() performs an R-sized quorum READ before writing, to '' @
       ''merge vector clocks, so its cost is 'read-quorum reconcile + write-quorum ack.' DynamoDB's PutItem '' @
       ''has no analogous internal read -- a legitimate structural reason our PUT is slower, not an artifact '' @
       ''of the benchmark.'',
      ''DynamoDB's own write durability mechanism is not publicly documented in quorum terms -- the '' @
       ''comparison leans only on the observable property that a successful PutItem is immediately visible '' @
       ''to a following ConsistentRead=True GetItem, not a specific quorum claim.'',
      ''Value payloads are plain strings on both sides, deliberately excluding our system's '' @
       ''vector-clock/sibling JSON envelope from the value itself. DynamoDB's own attribute-value wire '' @
       ''format ({'' @
       [CHR 0x22] @
       ''pk'' @
       [CHR 0x22] @
       '':{'' @
       [CHR 0x22] @
       ''S'' @
       [CHR 0x22] @
       '':...}}) is its own protocol overhead outside the raw value -- neither side is truly 'just the raw '' @
       ''bytes.'' @
       [CHR 0x27],
      ''This machine is Windows 11 + Docker Desktop, so our own cluster's 'loopback' already crosses a '' @
       ''WSL2/Hyper-V VM boundary -- not bare-metal-zero-overhead either.'',
      ''Network RTT to the DynamoDB endpoint is measured separately (TCP connect + TLS handshake only, no '' @
       ''DynamoDB API call) and reported alongside the operation latencies, so WAN transit time can be '' @
       ''mentally separated from server-side processing time without needing a same-region EC2 instance.'',
      ''Only the 10KB tier is throughput-capped by the free-tier provisioned ceiling: ~2.5 writes/sec (10 '' @
       ''WCU/write of 25 WCU) and ~8.3 ConsistentRead=True / ~16.7 eventual reads/sec (3 / 1.5 RCU per read '' @
       ''of 25 RCU). 100B/1KB tiers round to the 1-unit minimum and are effectively unconstrained at this '' @
       ''benchmark's scale. A throwaway warm-up load is run against the 10KB tier before measuring, to drain '' @
       ''any accumulated burst credit so the reported ceiling reflects steady-state capacity, not a '' @
       ''post-idle burst.'',
      ''AWS SDK retries are disabled (max_attempts=1) to match our own httpx client, which does not '' @
       ''auto-retry on a 503 -- both sides are measured 'first attempt only' so neither system's tail '' @
       ''latency is inflated by SDK backoff sleep.'',
      ''HTTP/1.1 on both sides -- confirmed, not assumed: botocore's DynamoDB default, and our stack has no '' @
       ''HTTP/2 configured anywhere in mtls.py/run.py.'',
      ''The low-level boto3 client (not the resource() API) is used deliberately -- the resource API's '' @
       ''TypeSerializer/TypeDeserializer marshaling layer would add client-side overhead with no equivalent '' @
       ''on our thin-JSON side.'']"

definition em_dash :: string where
  "em_dash = [CHR 0xE2, CHR 0x80, CHR 0x94]"

definition mid_dot :: string where
  "mid_dot = [CHR 0xC2, CHR 0xB7]"

definition bench_headings :: "bench_config \<Rightarrow> string list" where
  "bench_headings cfg =
     [''# Phase 8 Benchmark Report '' @ em_dash @ '' our system vs. real AWS DynamoDB'', '''',
      ''AWS region: `'' @ bc_aws_region cfg @ ''` '' @ mid_dot @ '' Table: `'' @ bc_table_name cfg @ ''` (PROVISIONED '' @
        dump_int (bc_rcu cfg) @ ''/'' @ dump_int (bc_wcu cfg) @ '' RCU/WCU, Always-Free tier)'', '''',
      ''## Network RTT to DynamoDB endpoint (context, not a database operation)'', '''']"

definition table_head :: "string list" where
  "table_head =
     ['''', ''## Results'', '''',
      ''| System | Operation | Size (B) | Consistency | N | p50 (ms) | p95 (ms) | p99 (ms) | Throughput (ops/s) |'',
      ''|---|---|---|---|---|---|---|---|---|'']"

definition bench_report_lines ::
  "(real \<Rightarrow> string) \<Rightarrow> bench_config \<Rightarrow> bench_row list \<Rightarrow> rtts \<Rightarrow> py_error + string list" where
  "bench_report_lines two cfg results = (\<lambda>(tcp, tls, total).
     and_then (percentile (sort tcp) 50) (\<lambda>p_tcp.
     and_then (percentile (sort tls) 50) (\<lambda>p_tls.
     and_then (percentile (sort total) 50) (\<lambda>p_total.
       Inr (bench_headings cfg
         @ [''- TCP connect: p50 '' @ fmt two p_tcp @ ''ms (n='' @ dec_nat (length tcp) @ '')'',
            ''- TLS handshake: p50 '' @ fmt two p_tls @ ''ms'',
            ''- Total (TCP+TLS, no DB call): p50 '' @ fmt two p_total @ ''ms'']
         @ table_head @ map (report_row two) results @ ['''', ''## Methodology notes'']
         @ map (\<lambda>note. ''- '' @ note) bench_notes)))))"

text \<open>The two files: the results as JSON and the lines of the report.\<close>

definition write_bench_reports ::
  "(real \<Rightarrow> string) \<Rightarrow> (real \<Rightarrow> string) \<Rightarrow> bench_config \<Rightarrow> bench_row list \<Rightarrow> rtts \<Rightarrow> py_error + json \<times> string list" where
  "write_bench_reports repr two cfg results rtt =
     and_then (bench_report_lines two cfg results rtt) (\<lambda>ls. Inr (results_json repr cfg results rtt, ls))"

subsection \<open>The command line\<close>

record bench_args =
  ba_create_table :: bool
  ba_teardown :: bool
  ba_rtt_only :: bool

text \<open>
  \<open>main\<close> either prints the times of the probe or runs to its end; the two files that it writes on the way
  go to \<open>bn_reports\<close>.
\<close>

datatype bench_output = Rtt_Only rtts | Finished

text \<open>The probe takes 30 samples; the first whose connection fails ends it.\<close>

definition run_network_rtt ::
  "bench_config \<Rightarrow> (string \<Rightarrow> nat \<Rightarrow> py_error option) \<Rightarrow> (nat \<Rightarrow> real) \<Rightarrow> py_error + rtts" where
  "run_network_rtt cfg fails clk =
     (case List.map_filter (fails (endpoint_host cfg)) [0..<30] of
        e # _ \<Rightarrow> Inl e
      | [] \<Rightarrow> Inr (run_network_rtt_probe clk 30))"

definition write_reports :: "(real \<Rightarrow> string) \<Rightarrow> (real \<Rightarrow> string) \<Rightarrow> bench_config \<Rightarrow> bench_row list \<Rightarrow> rtts \<Rightarrow> unit step" where
  "write_reports repr two cfg results ms =
     seq (lift_it (write_bench_reports repr two cfg results ms)) (\<lambda>written st.
       (Inr (), st\<lparr>bn_reports := bn_reports st @ [written]\<rparr>))"

text \<open>The benchmark proper, after the preflights.\<close>

definition bench_steps ::
  "bench_config \<Rightarrow> bench_env \<Rightarrow> bool \<Rightarrow> py_error + rtts \<Rightarrow> (real \<Rightarrow> string) \<Rightarrow> (real \<Rightarrow> string) \<Rightarrow> bench_output step" where
  "bench_steps cfg env teardown rtt repr two =
     seq (run_all cfg env) (\<lambda>results.
     seq (lift_it rtt) (\<lambda>times.
     seq (write_reports repr two cfg results times) (\<lambda>_.
     seq (if teardown then teardown_table env (bc_table_name cfg) else return_it ()) (\<lambda>_.
       return_it Finished))))"

definition bench_main ::
  "nat \<Rightarrow> bench_config \<Rightarrow> bench_env \<Rightarrow> bench_args \<Rightarrow> (py_error + nat) list \<Rightarrow> py_error + rtts \<Rightarrow> (real \<Rightarrow> string) \<Rightarrow>
   (real \<Rightarrow> string) \<Rightarrow> bench_state \<Rightarrow> ((py_error + bench_output) \<times> bench_state) option" where
  "bench_main fuel cfg env args healths rtt repr two st =
     (if ba_rtt_only args then Some (map_sum id Rtt_Only rtt, st)
      else case preflight_cluster healths of
             Inl e \<Rightarrow> Some (Inl e, st)
           | Inr _ \<Rightarrow>
               (case preflight_aws fuel cfg env (ba_create_table args) st of
                  None \<Rightarrow> None
                | Some (Inl e, st1) \<Rightarrow> Some (Inl e, st1)
                | Some (Inr _, st1) \<Rightarrow> Some (bench_steps cfg env (ba_teardown args) rtt repr two st1)))"

subsection \<open>What a run reports\<close>

definition label :: "bench_row \<Rightarrow> string \<times> string \<times> int \<times> string" where
  "label r = (br_system r, br_operation r, br_size r, br_consistency r)"

text \<open>The conditions in the order of the report; the R=1 ones only when there was no override file.\<close>

definition conditions :: "int list \<Rightarrow> bool \<Rightarrow> (string \<times> string \<times> int \<times> string) list" where
  "conditions sizes override =
     concat (map (\<lambda>n. [(''ours'', ''PUT'', n, ''W=2, R=2 pre-read reconcile''),
                        (''dynamodb'', ''PutItem'', n, ''default (undocumented durability mechanism)'')]) sizes)
     @ concat (map (\<lambda>n. [(''ours'', ''GET'', n, ''R=2 (quorum majority, our default)''),
                          (''dynamodb'', ''GetItem'', n, ''ConsistentRead=True'')]) sizes)
     @ (if override then [] else map (\<lambda>n. (''ours'', ''GET'', n, ''R=1 (single replica, temporary override)'')) sizes)
     @ map (\<lambda>n. (''dynamodb'', ''GetItem'', n, ''ConsistentRead=False (eventual, default)'')) sizes"

lemma for_each_map:
  assumes "\<And>x st ys st'. g x st = (Inr ys, st') \<Longrightarrow> map f ys = h x"
  shows "for_each xs g st = (Inr ys, st') \<Longrightarrow> map f ys = concat (map h xs)"
proof (induction xs arbitrary: st ys)
  case (Cons x xs)
  then obtain zs st1 ws where "g x st = (Inr zs, st1)" "for_each xs g st1 = (Inr ws, st')" "ys = zs @ ws"
    by (auto simp: seq_def return_it_def split: prod.splits sum.splits)
  with Cons.IH [of st1 ws] assms show ?case by simp
qed (simp add: return_it_def)

lemma row_labels:
  "put_rows cfg env n st = (Inr ys, st') \<Longrightarrow> map label ys =
     [(''ours'', ''PUT'', n, ''W=2, R=2 pre-read reconcile''),
      (''dynamodb'', ''PutItem'', n, ''default (undocumented durability mechanism)'')]"
  "get_rows cfg env n st = (Inr ys, st') \<Longrightarrow> map label ys =
     [(''ours'', ''GET'', n, ''R=2 (quorum majority, our default)''), (''dynamodb'', ''GetItem'', n, ''ConsistentRead=True'')]"
  "r1_rows cfg env n st = (Inr ys, st') \<Longrightarrow> map label ys = [(''ours'', ''GET'', n, ''R=1 (single replica, temporary override)'')]"
  "eventual_rows cfg env n st = (Inr ys, st') \<Longrightarrow> map label ys =
     [(''dynamodb'', ''GetItem'', n, ''ConsistentRead=False (eventual, default)'')]"
  by (auto simp: put_rows_def get_rows_def r1_rows_def eventual_rows_def seq_def return_it_def label_def row_def
      split: prod.splits sum.splits)

lemma r1_phase_labels:
  assumes "r1_phase cfg env st = (Inr ys, st')"
  shows "map label ys = (if bn_override st \<noteq> None then [] else
    map (\<lambda>n. (''ours'', ''GET'', n, ''R=1 (single replica, temporary override)'')) (bc_value_sizes cfg))"
proof (cases "bn_override st")
  case None
  then obtain st1 st2 where body: "for_each (bc_value_sizes cfg) (r1_rows cfg env) st1 = (Inr ys, st2)"
    using assms
    by (auto simp: r1_phase_def apply_r1_override_def seq_def return_it_def try_finally_def split: prod.splits sum.splits)
  then show ?thesis using for_each_map [OF row_labels(3) body] None by simp
qed (use assms in \<open>simp add: r1_phase_def apply_r1_override_def seq_def return_it_def\<close>)

lemma run_all_labels:
  assumes "run_all cfg env st = (Inr rows, st')"
  shows "map label rows = conditions (bc_value_sizes cfg) (bn_override st \<noteq> None)"
proof -
  let ?sizes = "bc_value_sizes cfg"
  obtain puts st1 gets st2 r1 st3 ev where
      1: "for_each ?sizes (put_rows cfg env) st = (Inr puts, st1)" and 2: "for_each ?sizes (get_rows cfg env) st1 = (Inr gets, st2)" and
      3: "r1_phase cfg env st2 = (Inr r1, st3)" and 4: "for_each ?sizes (eventual_rows cfg env) st3 = (Inr ev, st')" and
      rows: "rows = puts @ gets @ r1 @ ev"
    using assms unfolding run_all_phases by (auto simp: seq_def return_it_def split: prod.splits sum.splits)
  have "bn_override st1 = bn_override st" by (rule conjunct1 [OF keeps_compose [OF keeps_for_each 1]]) (simp add: keeps_rows)
  moreover have "bn_override st2 = bn_override st1" by (rule conjunct1 [OF keeps_compose [OF keeps_for_each 2]]) (simp add: keeps_rows)
  ultimately show ?thesis
    using for_each_map [OF row_labels(1) 1] for_each_map [OF row_labels(2) 2] r1_phase_labels [OF 3] for_each_map [OF row_labels(4) 4]
    by (simp add: rows conditions_def)
qed

lemma rtt_percentile: "\<exists>p. percentile (sort xs) 50 = Inr p"
proof (cases "xs = []")
  case False
  then have "sort xs \<noteq> []" by (metis length_0_conv length_sort)
  from percentile_interpolates [OF this, of 50] show ?thesis by auto
qed (simp add: percentile_def)

text \<open>The reports of any results and times can be written, and hold a line for every row.\<close>

lemma reports_written:
  "\<exists>js ls. write_bench_reports repr two cfg results rtt = Inr (js, ls) \<and> js = results_json repr cfg results rtt \<and>
     set (map (report_row two) results) \<subseteq> set ls"
proof -
  obtain tcp tls total where rtt: "rtt = (tcp, tls, total)" by (cases rtt)
  obtain p1 p2 p3 where "percentile (sort tcp) 50 = Inr p1" "percentile (sort tls) 50 = Inr p2" "percentile (sort total) 50 = Inr p3"
    using rtt_percentile by metis
  then show ?thesis by (auto simp: write_bench_reports_def bench_report_lines_def rtt)
qed

subsection \<open>What a run may do to the table\<close>

lemma run_all_control: "keeps bn_control (run_all cfg env)" "keeps bn_reports (run_all cfg env)"
proof -
  have up: "keeps f (docker_up env)" if "\<And>st n. f (st\<lparr>bn_docker := n\<rparr>) = f st" for f :: "bench_state \<Rightarrow> 'b"
    using that by (simp add: keeps_def docker_up_def split: option.split)
  have apply_it: "keeps f (apply_r1_override env)"
    if "\<And>st n. f (st\<lparr>bn_docker := n\<rparr>) = f st" "\<And>st x. f (st\<lparr>bn_override := x\<rparr>) = f st" for f :: "bench_state \<Rightarrow> 'b"
    using keepsD [OF up [OF that(1)]] that(2)
    by (auto simp: keeps_def apply_r1_override_def seq_def return_it_def split: prod.splits sum.splits)
  have revert: "keeps f (revert_r1_override env)"
    if "\<And>st n. f (st\<lparr>bn_docker := n\<rparr>) = f st" "\<And>st x. f (st\<lparr>bn_override := x\<rparr>) = f st" for f :: "bench_state \<Rightarrow> 'b"
    using up [OF that(1)] that(2) by (simp add: keeps_def revert_r1_override_def)
  show "keeps bn_control (run_all cfg env)" "keeps bn_reports (run_all cfg env)"
    by (auto simp: run_all_def intro!: keeps keeps_rows apply_it revert)
qed

text \<open>What describing the table leaves alone.\<close>

definition ledger :: "bench_state \<Rightarrow> (string option \<times> nat) \<times> (json \<times> string list) list" where
  "ledger st = (compose st, bn_reports st)"

lemma table_exists_result:
  "table_exists env st =
     (case be_describe env (bn_describes st) of
        Inr _ \<Rightarrow> Inr True
      | Inl e \<Rightarrow> if e = ResourceNotFound then Inr False else Inl e, st\<lparr>bn_describes := bn_describes st + 1\<rparr>)"
  by (simp add: table_exists_def try_except_def seq_def describe_def return_it_def split: sum.split)

lemma wait_loop_control:
  "wait_loop fuel env deadline st = Some (r, st') \<Longrightarrow> bn_control st' = bn_control st \<and> ledger st' = ledger st"
  by (induction fuel arbitrary: st)
     (auto simp: Let_def describe_def ledger_def compose_def split: if_splits sum.splits)

text \<open>The preflight of the table returns, and creates the table at most once: when it was told to and there was none.\<close>

lemma preflight_aws_control:
  assumes "preflight_aws fuel cfg env create st = Some (r, st')"
  shows "ledger st' = ledger st \<and>
    (bn_control st' = bn_control st \<or>
     create \<and> be_describe env (bn_describes st) = Inl ResourceNotFound \<and>
     bn_control st' = bn_control st @ [Create_Table (bc_table_name cfg) (bc_rcu cfg) (bc_wcu cfg)])"
  using assms
  by (auto simp: preflight_aws_def create_table_if_missing_def table_exists_result control_def wait_until_active_def ledger_def compose_def
      split: if_splits option.splits sum.splits prod.splits bool.splits dest!: wait_loop_control)

lemma preflight_aws_returns:
  assumes "polls_sleep env (bn_polls st)" "31 \<le> fuel"
  shows "\<exists>r st'. preflight_aws fuel cfg env create st = Some (r, st')"
proof -
  have "wait_until_active fuel env 60 (st\<lparr>bn_describes := d, bn_control := c\<rparr>) \<noteq> None" for d c
    using wait_returns [of env "st\<lparr>bn_describes := d, bn_control := c\<rparr>"] assms by simp
  then show ?thesis
    by (auto simp: preflight_aws_def create_table_if_missing_def table_exists_result control_def
        split: sum.split option.split prod.split simp del: not_None_eq)
qed

text \<open>The deletion, told to or not.\<close>

lemma teardown_control:
  assumes "(if teardown then teardown_table env table else return_it ()) st = (r, st')"
  shows "ledger st' = ledger st \<and>
    (bn_control st' = bn_control st \<or> teardown \<and> bn_control st' = bn_control st @ [Delete_Table table])"
  using assms
  by (auto simp: teardown_table_def table_exists_result control_def seq_def return_it_def ledger_def compose_def
      split: if_splits sum.splits)

text \<open>The steps after the preflights: no reports when something raises before them, and a deletion only after them.\<close>

lemma bench_steps_result:
  assumes "bench_steps cfg env teardown rtt repr two st = (r, st')"
  shows "\<exists>ds ws. bn_control st' = bn_control st @ ds \<and> bn_reports st' = bn_reports st @ ws \<and>
    (ds = [] \<or> teardown \<and> ws \<noteq> [] \<and> ds = [Delete_Table (bc_table_name cfg)]) \<and>
    (ws = [] \<or> (\<exists>rows times ls. rtt = Inr times \<and> map label rows = conditions (bc_value_sizes cfg) (bn_override st \<noteq> None) \<and>
       set (map (report_row two) rows) \<subseteq> set ls \<and> ws = [(results_json repr cfg rows times, ls)])) \<and>
    (r = Inr Finished \<longrightarrow> ws \<noteq> []) \<and> (\<nexists>x. r = Inr (Rtt_Only x)) \<and>
    (bn_override st' = bn_override st \<or>
     bn_override st = None \<and> bn_override st' = Some r1_override \<and> (\<exists>e. be_docker env (bn_docker st) = Some e \<and> r = Inl e))"
proof -
  obtain res st1 where run: "run_all cfg env st = (res, st1)" by force
  have st1: "bn_control st1 = bn_control st" "bn_reports st1 = bn_reports st"
    using keepsD [OF run_all_control(1) run] keepsD [OF run_all_control(2) run] by simp_all
  note left = run_all_override [OF run]
  show ?thesis
  proof (cases "isl res \<or> isl rtt")
    case True
    then show ?thesis using assms st1 left
      by (cases res; cases rtt) (auto simp: bench_steps_def seq_def lift_it_def raise_it_def run)
  next
    case False
    then obtain rows times where ok: "res = Inr rows" "rtt = Inr times" by (cases res; cases rtt) auto
    obtain js ls where w: "write_bench_reports repr two cfg rows times = Inr (js, ls)" "js = results_json repr cfg rows times"
        "set (map (report_row two) rows) \<subseteq> set ls"
      using reports_written by blast
    have labels: "map label rows = conditions (bc_value_sizes cfg) (bn_override st \<noteq> None)"
      using run_all_labels run ok(1) by blast
    define st2 where "st2 = st1\<lparr>bn_reports := bn_reports st1 @ [(js, ls)]\<rparr>"
    obtain r3 st3 where down: "(if teardown then teardown_table env (bc_table_name cfg) else return_it ()) st2 = (r3, st3)" by force
    have "r = map_sum id (\<lambda>_. Finished) r3 \<and> st' = st3"
      using assms down
      by (cases r3) (auto simp: bench_steps_def write_reports_def seq_def lift_it_def run ok w(1) return_it_def st2_def)
    moreover have "bn_override st1 = bn_override st" using left ok by simp
    ultimately show ?thesis
      using teardown_control [OF down] st1 labels ok(2) w(2,3)
      by (cases r3) (auto simp: st2_def ledger_def compose_def)
  qed
qed

subsection \<open>A run without failures\<close>

definition succeeds :: "('w, 'a) act \<Rightarrow> bool" where
  "succeeds m \<longleftrightarrow> (\<forall>st. \<exists>x st'. m st = (Inr x, st'))"

lemma succeeds_simps [simp]: "succeeds (return_it x)" "succeeds (lift_it (Inr x))"
  by (simp_all add: succeeds_def return_it_def lift_it_def)

lemma succeeds_seq: "succeeds m \<Longrightarrow> (\<And>x. succeeds (g x)) \<Longrightarrow> succeeds (seq m g)"
  unfolding succeeds_def seq_def by (metis (mono_tags, lifting) old.prod.case old.sum.simps(6))

lemma succeeds_for_each: "(\<And>x. x \<in> set xs \<Longrightarrow> succeeds (g x)) \<Longrightarrow> succeeds (for_each xs g)"
  by (induction xs) (simp_all add: succeeds_seq)

lemma succeeds_finally: "succeeds m \<Longrightarrow> succeeds c \<Longrightarrow> succeeds (try_finally m c)"
  unfolding succeeds_def try_finally_def by (metis (mono_tags, lifting) old.prod.case old.sum.simps(6))

definition no_failures :: "bench_env \<Rightarrow> bool" where
  "no_failures env \<longleftrightarrow> (\<forall>i op. be_outcome env i op = None) \<and> (\<forall>i. be_docker env i = None) \<and>
     (\<forall>i c. be_control env i c = None) \<and> (\<forall>i e. be_describe env i = Inl e \<longrightarrow> e = ResourceNotFound)"

lemma succeeds_issue_puts: "no_failures env \<Longrightarrow> succeeds (issue_puts env n put ks)"
proof (induction ks)
  case (Cons k ks)
  then show ?case by (auto simp: succeeds_def seq_def issue_def Let_def no_failures_def)
qed (simp add: succeeds_def)

lemma measured_succeeds: "no_failures env \<Longrightarrow> \<exists>s st'. measured cfg env n ops st = (Inr s, st')"
proof -
  assume "no_failures env"
  then have "\<forall>i. be_outcome env (length (bn_requests st) + i) (ops i) = None" by (simp add: no_failures_def)
  then obtain s where "run_condition (\<lambda>i. be_outcome env (length (bn_requests st) + i) (ops i)) (be_clock env (bn_conditions st))
      (op_count_target cfg n) (bc_floor cfg) (bc_time_budget cfg) (warmup_ops cfg n) = Inr s"
    using run_condition_result [where outcome = "\<lambda>i. be_outcome env (length (bn_requests st) + i) (ops i)"] by metis
  then show ?thesis by (simp add: measured_def Let_def)
qed

lemma succeeds_conditions:
  assumes "no_failures env"
  shows "succeeds (our_put_condition cfg env n)" "succeeds (our_get_condition cfg env n)"
    "succeeds (dynamodb_put_condition cfg env n)" "succeeds (dynamodb_get_condition cfg env n b)"
proof -
  note puts = succeeds_issue_puts [OF assms]
  have m: "succeeds (\<lambda>st. measured cfg env n (ops st) st)" for ops
    using measured_succeeds [OF assms] by (simp add: succeeds_def)
  have drain: "succeeds (drain_if_large cfg env ks n)" for ks
    by (simp add: drain_if_large_def drain_burst_credit_def puts)
  show "succeeds (our_put_condition cfg env n)"
    using measured_succeeds [OF assms] by (simp add: succeeds_def our_put_condition_def Let_def)
  show "succeeds (our_get_condition cfg env n)" using m by (simp add: our_get_condition_def Let_def succeeds_seq puts)
  show "succeeds (dynamodb_put_condition cfg env n)" using m by (simp add: dynamodb_put_condition_def Let_def succeeds_seq drain)
  show "succeeds (dynamodb_get_condition cfg env n b)"
    using m by (simp add: dynamodb_get_condition_def Let_def succeeds_seq puts drain)
qed

lemma run_all_succeeds:
  assumes "no_failures env"
  shows "succeeds (run_all cfg env)"
proof -
  note conds = succeeds_conditions [OF assms]
  have "succeeds (put_rows cfg env n)" "succeeds (get_rows cfg env n)" "succeeds (r1_rows cfg env n)" "succeeds (eventual_rows cfg env n)" for n
    by (simp_all add: put_rows_def get_rows_def r1_rows_def eventual_rows_def succeeds_seq conds)
  moreover have "succeeds (apply_r1_override env)" "succeeds (revert_r1_override env)"
    using assms by (auto simp: succeeds_def apply_r1_override_def revert_r1_override_def docker_up_def seq_def return_it_def no_failures_def)
  ultimately show ?thesis
    by (auto simp: run_all_def intro!: succeeds_seq succeeds_for_each succeeds_finally)
qed

lemma bench_steps_succeed:
  assumes "no_failures env"
  shows "succeeds (bench_steps cfg env teardown (Inr ms) repr two)"
proof -
  have "succeeds (write_reports repr two cfg rows ms)" for rows
  proof -
    obtain w where "write_bench_reports repr two cfg rows ms = Inr w" using reports_written by blast
    then show ?thesis by (simp add: succeeds_def write_reports_def)
  qed
  moreover have "succeeds (teardown_table env table)" for table
    using assms
    by (auto simp: succeeds_def teardown_table_def table_exists_result seq_def control_def return_it_def no_failures_def
        split: sum.split)
  ultimately show ?thesis
    unfolding bench_steps_def
    by (auto intro!: succeeds_seq run_all_succeeds assms split: prod.split)
qed

text \<open>C34. A run of the benchmark ends: the wait for the table gives up within 31 polls, because each sleeps for
  two seconds. However it ends, a failing control call included, it calls \<open>create_table\<close> only when it was told
  to and there was no table, and \<open>delete_table\<close> only when it was told to and the reports have been written.
  Reports that are written hold one row for every condition in order, with the R=1 rows exactly when there was
  no override file. The override file is left as it was found, except when there was none and the
  \<open>docker compose up\<close> that applies the R=1 override raises: then that exception ends the run and the override
  stays behind. When the preflights pass, nothing fails and more than the probe is asked for, the run finishes,
  and a finished run has written its reports.\<close>

theorem benchmark_run:
  assumes "polls_sleep env (bn_polls st)" "31 \<le> fuel"
  shows "\<exists>r st' cs ds ws. bench_main fuel cfg env args healths rtt repr two st = Some (r, st') \<and>
    bn_control st' = bn_control st @ cs @ ds \<and> bn_reports st' = bn_reports st @ ws \<and>
    (cs = [] \<or> ba_create_table args \<and> be_describe env (bn_describes st) = Inl ResourceNotFound \<and>
       cs = [Create_Table (bc_table_name cfg) (bc_rcu cfg) (bc_wcu cfg)]) \<and>
    (ds = [] \<or> ba_teardown args \<and> ws \<noteq> [] \<and> ds = [Delete_Table (bc_table_name cfg)]) \<and>
    (ws = [] \<or> (\<exists>rows times ls. rtt = Inr times \<and> map label rows = conditions (bc_value_sizes cfg) (bn_override st \<noteq> None) \<and>
       set (map (report_row two) rows) \<subseteq> set ls \<and> ws = [(results_json repr cfg rows times, ls)])) \<and>
    (r = Inr Finished \<longrightarrow> ws \<noteq> []) \<and>
    (bn_override st' = bn_override st \<or>
     bn_override st = None \<and> bn_override st' = Some r1_override \<and> (\<exists>e. be_docker env (bn_docker st) = Some e \<and> r = Inl e)) \<and>
    (no_failures env \<and> \<not> isl rtt \<and> \<not> ba_rtt_only args \<and> preflight_cluster healths = Inr () \<and>
       (\<exists>st1. preflight_aws fuel cfg env (ba_create_table args) st = Some (Inr (), st1)) \<longrightarrow>
       r = Inr Finished)"
proof (cases "ba_rtt_only args \<or> isl (preflight_cluster healths)")
  case True
  then show ?thesis
    by (cases rtt; cases "preflight_cluster healths") (auto simp: bench_main_def)
next
  case False
  then have steps_main: "bench_main fuel cfg env args healths rtt repr two st =
      (case preflight_aws fuel cfg env (ba_create_table args) st of
         None \<Rightarrow> None
       | Some (Inl e, st1) \<Rightarrow> Some (Inl e, st1)
       | Some (Inr _, st1) \<Rightarrow> Some (bench_steps cfg env (ba_teardown args) rtt repr two st1))"
    by (cases "preflight_cluster healths") (simp_all add: bench_main_def)
  obtain p st1 where pre: "preflight_aws fuel cfg env (ba_create_table args) st = Some (p, st1)"
    using preflight_aws_returns [OF assms] by blast
  have c: "bn_override st1 = bn_override st" "bn_docker st1 = bn_docker st" "bn_reports st1 = bn_reports st"
    using preflight_aws_control [OF pre] by (simp_all add: ledger_def compose_def)
  obtain cs where cs: "bn_control st1 = bn_control st @ cs"
      "cs = [] \<or> ba_create_table args \<and> be_describe env (bn_describes st) = Inl ResourceNotFound \<and>
         cs = [Create_Table (bc_table_name cfg) (bc_rcu cfg) (bc_wcu cfg)]"
    using preflight_aws_control [OF pre] by (metis append_Nil2)
  show ?thesis
  proof (cases p)
    case (Inl e)
    then have "bench_main fuel cfg env args healths rtt repr two st = Some (Inl e, st1)" by (simp add: steps_main pre)
    then show ?thesis using cs c pre Inl by auto
  next
    case (Inr u)
    obtain r st' where steps: "bench_steps cfg env (ba_teardown args) rtt repr two st1 = (r, st')" by force
    then have run: "bench_main fuel cfg env args healths rtt repr two st = Some (r, st')" by (simp add: steps_main pre Inr)
    have live: "r = Inr Finished" if fine: "no_failures env" "\<not> isl rtt"
    proof -
      obtain times where "rtt = Inr times" using fine by (cases rtt) auto
      then obtain out where "r = Inr out"
        using bench_steps_succeed [of env cfg "ba_teardown args" times repr two] fine steps by (auto simp: succeeds_def) (metis Pair_inject)
      then show ?thesis using bench_steps_result [OF steps] by (cases out) auto
    qed
    obtain ds ws where ended: "bn_control st' = bn_control st1 @ ds" "bn_reports st' = bn_reports st1 @ ws"
        "ds = [] \<or> ba_teardown args \<and> ws \<noteq> [] \<and> ds = [Delete_Table (bc_table_name cfg)]"
        "ws = [] \<or> (\<exists>rows times ls. rtt = Inr times \<and> map label rows = conditions (bc_value_sizes cfg) (bn_override st1 \<noteq> None) \<and>
           set (map (report_row two) rows) \<subseteq> set ls \<and> ws = [(results_json repr cfg rows times, ls)])"
        "r = Inr Finished \<longrightarrow> ws \<noteq> []"
        "bn_override st' = bn_override st1 \<or> bn_override st1 = None \<and> bn_override st' = Some r1_override \<and>
           (\<exists>e. be_docker env (bn_docker st1) = Some e \<and> r = Inl e)"
      using bench_steps_result [OF steps] by blast
    show ?thesis
      by (rule exI [of _ r], rule exI [of _ st'], rule exI [of _ cs], rule exI [of _ ds], rule exI [of _ ws], intro conjI)
         (use run ended cs c live in simp_all)
  qed
qed

text \<open>
  A table that is not there yet and becomes active at the first poll, and no failures: the run ends with
  its reports, the table created and deleted, and no override file.
\<close>

definition ex_main_env :: bench_env where
  "ex_main_env = ex_bench_env\<lparr>be_outcome := (\<lambda>i op. None),
     be_describe := (\<lambda>i. if i < 2 then Inl ResourceNotFound else Inr ''ACTIVE'')\<rparr>"

definition ex_args :: bench_args where
  "ex_args = \<lparr>ba_create_table = True, ba_teardown = True, ba_rtt_only = False\<rparr>"

theorem benchmark_run_witness:
  "\<exists>st js ls. bench_main 31 ex_bench ex_main_env ex_args [Inr 200, Inr 200, Inr 200] (Inr ([1], [2], [3])) (\<lambda>x. ''1.0'')
     (\<lambda>x. ''1.00'') ex_bench_state = Some (Inr Finished, st) \<and> bn_reports st = [(js, ls)] \<and> bn_override st = None"
proof -
  have pre: "\<exists>st1. preflight_aws 31 ex_bench ex_main_env True ex_bench_state = Some (Inr (), st1)"
    by (simp add: preflight_aws_def create_table_if_missing_def table_exists_result control_def describe_def wait_until_active_def
        Let_def ex_main_env_def ex_bench_env_def ex_bench_state_def eval_nat_numeral)
  have start: "be_docker ex_main_env 0 = None" "bn_override ex_bench_state = None" "bn_docker ex_bench_state = 0"
      "bn_reports ex_bench_state = []"
    and fine: "no_failures ex_main_env" and sleeps: "polls_sleep ex_main_env (bn_polls ex_bench_state)"
    by (auto simp: ex_main_env_def ex_bench_env_def ex_bench_state_def no_failures_def polls_sleep_def split: if_splits)
  have "preflight_cluster [Inr 200, Inr 200, Inr 200] = Inr ()" "\<not> ba_rtt_only ex_args" "ba_create_table ex_args"
    by (simp_all add: ex_args_def)
  then show ?thesis
    using benchmark_run [OF sleeps order_refl, of ex_bench ex_args "[Inr 200, Inr 200, Inr 200]" "Inr ([1], [2], [3])"
        "\<lambda>x. ''1.0''" "\<lambda>x. ''1.00''"] fine pre start
    by fastforce
qed

end
