(* ===== verification/Restart.thy ===== *)
theory Restart
  imports Deployment
begin

section \<open>Restarts\<close>

text \<open>
  What a node keeps when its process ends and \<open>run.py\<close> builds the node again on the same disk. The
  databases are files: SQLite commits every statement of \<open>sqlite.py\<close>, so at any moment the file holds the
  rows of the model's table, and \<open>halt\<close> puts them where \<open>build_node\<close> finds them. The key of the node is
  another file. The gossip table is memory only: a node starts again with its own entry, at counter 0.

  The first part shows that versions and hints outlive any number of restarts, so that the guarantees of
  acknowledged writes do. The second part shows what the new counter does to the cluster: the peers
  ignore the node until its counter has passed the one from before the restart.
\<close>

subsection \<open>Stopping and starting\<close>

fun database_in :: "storage \<Rightarrow> sqlite_storage option" where
  "database_in (Memory s) = None"
| "database_in (Sqlite s) = Some s"
| "database_in (Encrypted inner a u i) = database_in inner"

definition saved :: "storage \<Rightarrow> disk \<Rightarrow> disk" where
  "saved s dk =
     (case database_in s of
        None \<Rightarrow> dk
      | Some db \<Rightarrow> dk\<lparr>dk_dbs := dict_put (ss_db_path db) db (dk_dbs dk)\<rparr>)"

definition halt :: "node \<Rightarrow> disk \<Rightarrow> disk" where
  "halt nd dk = saved (nd_hints nd) (saved (nd_storage nd) dk)"

definition restart :: "platform \<Rightarrow> config \<Rightarrow> disk \<Rightarrow> node \<Rightarrow> node \<times> disk" where
  "restart pf cf dk nd = build_node pf cf (halt nd dk)"

subsection \<open>Nodes on their disks\<close>

text \<open>An encrypted store whose database has a path.\<close>

definition opened :: "aesgcm \<Rightarrow> string \<Rightarrow> storage \<Rightarrow> bool" where
  "opened a p s \<longleftrightarrow> (\<exists>db u i. s = Encrypted (Sqlite db) a u i \<and> ss_db_path db = p)"

lemma opened_put: "opened a p s \<Longrightarrow> opened a p (st_put s k v)"
  by (auto simp: opened_def sqlite_put_def)

lemma opened_delete: "opened a p s \<Longrightarrow> opened a p (snd (st_delete s k))"
  by (auto simp: opened_def sqlite_delete_def Let_def)

lemma opened_hints:
  "opened a p s \<Longrightarrow> hs_add s t k v = Inr s' \<Longrightarrow> opened a p s'"
  "opened a p s \<Longrightarrow> hs_clear_key s t k = Inr s' \<Longrightarrow> opened a p s'"
  by (auto simp: hs_add_def hs_clear_key_def hs_save_def Let_def opened_put opened_delete
      split: sum.splits option.splits json.splits if_splits)

text \<open>The configuration that a node gets from its settings.\<close>

definition configured :: "(string \<Rightarrow> bytes) \<Rightarrow> config \<Rightarrow> node_id \<times> hash_ring \<times> (node_id, url) dict \<times> int \<times> int \<times> int \<times> real" where
  "configured D cf =
     (cf_node_id cf, new_ring D (cluster_nodes_from_config cf) (cf_virtual_nodes cf),
      peers_dict (internal_peer_url cf) (cluster_nodes_from_config cf) (cf_node_id cf), cf_n cf, cf_r cf, cf_w cf,
      cf_gossip_interval cf * cf_gossip_multiplier cf)"

text \<open>A node that runs on its disk with the settings: its stores are the two databases under its key.\<close>

definition deployed :: "platform \<Rightarrow> config \<Rightarrow> disk \<Rightarrow> node \<Rightarrow> bool" where
  "deployed pf cf dk nd \<longleftrightarrow>
     cf_storage_backend cf \<noteq> ''memory'' \<and> config_of nd = configured (pf_digest pf) cf \<and>
     (\<exists>key. map_of (dk_keys dk) (node_encryption_key_path cf) = Some key \<and>
       opened (pf_aes pf key) (cf_db_path cf) (nd_storage nd) \<and>
       opened (pf_aes pf key) (cf_db_path cf @ ''.hints'') (nd_hints nd))"

definition same_machine :: "platform \<Rightarrow> platform \<Rightarrow> bool" where
  "same_machine pf pf' \<longleftrightarrow> pf_aes pf' = pf_aes pf \<and> pf_digest pf' = pf_digest pf"

lemma deployed_same: "same_machine pf pf' \<Longrightarrow> deployed pf' cf dk nd \<longleftrightarrow> deployed pf cf dk nd"
  by (simp add: deployed_def same_machine_def)

lemma local_opened:
  assumes "opened a p (nd_storage nd) \<and> opened b q (nd_hints nd)"
  shows "put_local nd k v = Inr nd' \<Longrightarrow> opened a p (nd_storage nd') \<and> opened b q (nd_hints nd')"
    "opened a p (nd_storage (snd (delete_local nd k))) \<and> opened b q (nd_hints (snd (delete_local nd k)))"
    "add_hint nd t k v = Inr nd' \<Longrightarrow> opened a p (nd_storage nd') \<and> opened b q (nd_hints nd')"
    "clear_hint nd t k = Inr nd' \<Longrightarrow> opened a p (nd_storage nd') \<and> opened b q (nd_hints nd')"
    "opened a p (nd_storage (put_local_write nd k existing v)) \<and> opened b q (nd_hints (put_local_write nd k existing v))"
  using assms by (auto simp: put_local_def put_local_write_def Let_def delete_local_def case_prod_unfold add_hint_def clear_hint_def
      map_sum_Inr_iff opened_put opened_delete dest: opened_hints split: sum.splits)

lemma opened_perform:
  assumes "opened a p (nd_storage (c j)) \<and> opened b q (nd_hints (c j))"
  shows "opened a p (nd_storage (perform act c j)) \<and> opened b q (nd_hints (perform act c j))"
proof (cases act)
  case (GossipTick i now)
  then show ?thesis using assms by (auto split: sum.split)
qed (use assms local_opened [OF assms] in \<open>auto simp: handle_gossip_def Let_def split: sum.split\<close>)

lemma deployed_perform: "deployed pf cf dk (c j) \<Longrightarrow> deployed pf cf dk (perform act c j)"
  unfolding deployed_def perform_config using opened_perform [where c = c and j = j and act = act] by blast

text \<open>What a node built on an empty disk, and a node built again, looks like.\<close>

lemma config_of_build: "config_of (fst (build_node pf cf dk)) = configured (pf_digest pf) cf"
  using split_platform [of pf cf dk] by (auto simp: config_of_def configured_def node_init_def)

lemma config_of_restart: "config_of (fst (restart pf cf dk nd)) = configured (pf_digest pf) cf"
  by (simp add: restart_def config_of_build)

lemma gossip_of_restart: "nd_gossip (fst (restart pf cf dk nd)) = gossip_init (cf_node_id cf) (pf_clock pf)"
  using split_platform [of pf cf "halt nd dk"] by (auto simp: restart_def node_init_def)

lemma encrypted_db_key:
  "map_of (dk_keys dk) (node_encryption_key_path cf) = Some key \<Longrightarrow>
     encrypted_db pf cf p dk =
       (Encrypted (Sqlite (open_db p dk)) (pf_aes pf key) (pf_nonces pf p) 0,
        dk\<lparr>dk_dbs := dict_put p (open_db p dk) (dk_dbs dk)\<rparr>)"
  by (simp add: encrypted_db_def load_or_create_encryption_key_def Let_def)

lemma encrypted_db_fresh:
  "map_of (dk_keys dk) (node_encryption_key_path cf) = None \<Longrightarrow>
     encrypted_db pf cf p dk =
       (Encrypted (Sqlite (open_db p dk)) (pf_aes pf (pf_fresh_key pf)) (pf_nonces pf p) 0,
        dk\<lparr>dk_keys := dict_put (node_encryption_key_path cf) (pf_fresh_key pf) (dk_keys dk),
          dk_dbs := dict_put p (open_db p dk) (dk_dbs dk)\<rparr>)"
  by (simp add: encrypted_db_def load_or_create_encryption_key_def Let_def)

lemma hints_path: "p @ ''.hints'' \<noteq> p"
  by simp

text \<open>Opening a database again changes nothing that can be read from it.\<close>

definition reopened :: "storage \<Rightarrow> storage \<Rightarrow> bool" where
  "reopened s s' \<longleftrightarrow> (\<exists>db a u i u' i'. s = Encrypted (Sqlite db) a u i \<and> s' = Encrypted (Sqlite db) a u' i')"

lemma reopened_same:
  assumes "reopened s s'"
  shows "st_get s' = st_get s" "storage_map s' = storage_map s" "storage_ok s' \<longleftrightarrow> storage_ok s"
    "hs_pending s' t k = hs_pending s t k"
proof -
  show get: "st_get s' = st_get s" and "storage_map s' = storage_map s" "storage_ok s' \<longleftrightarrow> storage_ok s"
    using assms by (auto simp: reopened_def fun_eq_iff)
  show "hs_pending s' t k = hs_pending s t k" by (simp add: hs_pending_def hs_pending_for_def hs_load_def get)
qed

lemma restart_stores:
  assumes "deployed pf cf dk nd" "same_machine pf pf'" "restart pf' cf dk nd = (nd', dk')"
  shows "reopened (nd_storage nd) (nd_storage nd')" "reopened (nd_hints nd) (nd_hints nd')" "deployed pf cf dk' nd'"
proof -
  obtain key where cf: "cf_storage_backend cf \<noteq> ''memory''" and key: "map_of (dk_keys dk) (node_encryption_key_path cf) = Some key"
      and stores: "opened (pf_aes pf key) (cf_db_path cf) (nd_storage nd)"
        "opened (pf_aes pf key) (cf_db_path cf @ ''.hints'') (nd_hints nd)"
    using assms(1) by (auto simp: deployed_def)
  obtain db u i hdb hu hi where s: "nd_storage nd = Encrypted (Sqlite db) (pf_aes pf key) u i" "ss_db_path db = cf_db_path cf"
      and h: "nd_hints nd = Encrypted (Sqlite hdb) (pf_aes pf key) hu hi" "ss_db_path hdb = cf_db_path cf @ ''.hints''"
    using stores by (auto simp: opened_def)
  let ?dk = "halt nd dk"
  have keys: "dk_keys ?dk = dk_keys dk" and dbs: "open_db (cf_db_path cf) ?dk = db" "open_db (cf_db_path cf @ ''.hints'') ?dk = hdb"
    by (simp_all add: halt_def saved_def s h open_db_def dict_get_def)
  let ?dk1 = "?dk\<lparr>dk_dbs := dict_put (cf_db_path cf) db (dk_dbs ?dk)\<rparr>"
  have 1: "build_storage_from_config pf' cf ?dk = (Encrypted (Sqlite db) (pf_aes pf' key) (pf_nonces pf' (cf_db_path cf)) 0, ?dk1)"
    using cf key by (simp add: build_storage_from_config_def encrypted_db_key keys dbs)
  have 2: "build_hint_storage_from_config pf' cf ?dk1 =
      (Encrypted (Sqlite hdb) (pf_aes pf' key) (pf_nonces pf' (cf_db_path cf @ ''.hints'')) 0,
       ?dk1\<lparr>dk_dbs := dict_put (cf_db_path cf @ ''.hints'') hdb (dk_dbs ?dk1)\<rparr>)"
    using cf key dbs by (simp add: build_hint_storage_from_config_def encrypted_db_key keys open_db_def dict_get_def)
  have nd': "nd_storage nd' = Encrypted (Sqlite db) (pf_aes pf key) (pf_nonces pf' (cf_db_path cf)) 0"
      "nd_hints nd' = Encrypted (Sqlite hdb) (pf_aes pf key) (pf_nonces pf' (cf_db_path cf @ ''.hints'')) 0"
      "dk_keys dk' = dk_keys dk"
    using assms(2,3) by (auto simp: restart_def build_node_def Let_def 1 2 node_init_def same_machine_def keys)
  show "reopened (nd_storage nd) (nd_storage nd')" "reopened (nd_hints nd) (nd_hints nd')"
    by (auto simp: reopened_def s h nd')
  have "config_of nd' = configured (pf_digest pf) cf"
    using config_of_restart [of pf' cf dk nd] assms(2,3) by (simp add: same_machine_def)
  then show "deployed pf cf dk' nd'" using cf key s(2) h(2) by (auto simp: deployed_def opened_def nd')
qed

text \<open>A restart keeps versions, hints and the configuration; only the gossip table is new.\<close>

lemma restart_laws:
  assumes "deployed pf cf dk nd" "same_machine pf pf'" "restart pf' cf dk nd = (nd', dk')"
  shows "siblings nd' k = siblings nd k" "hinted nd' t k = hinted nd t k" "config_of nd' = config_of nd"
    "deployed pf cf dk' nd'" "node_ok nd \<Longrightarrow> node_ok nd'"
proof -
  note stores = restart_stores [OF assms] and same = reopened_same [OF restart_stores(1) [OF assms]]
    and hsame = reopened_same [OF restart_stores(2) [OF assms]]
  show "siblings nd' k = siblings nd k" by (simp add: siblings_def get_local_def same)
  show "hinted nd' t k = hinted nd t k" by (simp add: hinted_def hsame)
  show "deployed pf cf dk' nd'" using stores(3) .
  with assms(1) show "config_of nd' = config_of nd" by (simp add: deployed_def)
  have "gossip_ok (nd_gossip nd')" using gossip_of_restart [of pf' cf dk nd] assms(3) by (simp add: gossip_ok_init)
  then show "node_ok nd'" if "node_ok nd" using that by (simp add: node_ok_def same hsame hint_ok_def)
qed

text \<open>With the in-memory backend a restart forgets everything, as its docstring says.\<close>

lemma memory_restart_forgets:
  assumes "cf_storage_backend cf = ''memory''"
  shows "siblings (fst (restart pf cf dk nd)) k = [] \<and> hinted (fst (restart pf cf dk nd)) t k = []"
  using assms by (simp add: restart_def build_node_def Let_def build_storage_from_config_def build_hint_storage_from_config_def
      node_init_def siblings_def get_local_def memory_get_def memory_new_def hinted_def hs_pending_new [unfolded memory_new_def])

text \<open>The first start, on a disk without databases.\<close>

lemma first_start:
  assumes "cf_storage_backend cf \<noteq> ''memory''" "dk_dbs dk = []" "dk_keys dk = []"
    and "aes_correct (pf_aes pf (pf_fresh_key pf))" "build_node pf cf dk = (nd, dk')"
  shows "deployed pf cf dk' nd" "node_ok nd" "siblings nd k = []" "hinted nd t k = []" "nd_gossip nd = gossip_init (cf_node_id cf) (pf_clock pf)"
proof -
  let ?a = "pf_aes pf (pf_fresh_key pf)" and ?p = "cf_db_path cf"
  have 1: "build_storage_from_config pf cf dk = (Encrypted (Sqlite (sqlite_new ?p)) ?a (pf_nonces pf ?p) 0,
      dk\<lparr>dk_keys := [(node_encryption_key_path cf, pf_fresh_key pf)], dk_dbs := [(?p, sqlite_new ?p)]\<rparr>)"
    using assms(1-3) by (simp add: build_storage_from_config_def encrypted_db_fresh open_db_def dict_get_def)
  have nd: "nd_storage nd = Encrypted (Sqlite (sqlite_new ?p)) ?a (pf_nonces pf ?p) 0"
      "nd_hints nd = Encrypted (Sqlite (sqlite_new (?p @ ''.hints''))) ?a (pf_nonces pf (?p @ ''.hints'')) 0"
      "nd_gossip nd = gossip_init (cf_node_id cf) (pf_clock pf)"
      "dk_keys dk' = [(node_encryption_key_path cf, pf_fresh_key pf)]"
    using assms(1,5) by (auto simp: build_node_def Let_def 1 build_hint_storage_from_config_def encrypted_db_key open_db_def
        dict_get_def node_init_def)
  have empty: "storage_map (Encrypted (Sqlite (sqlite_new q)) ?a u i) j = None" "storage_ok (Encrypted (Sqlite (sqlite_new q)) ?a u i)"
    for q u i j using assms(4) by (simp_all add: sqlite_map_def sqlite_new_def sqlite_ok_def)
  show "nd_gossip nd = gossip_init (cf_node_id cf) (pf_clock pf)" by (rule nd(3))
  show "deployed pf cf dk' nd" using config_of_build [of pf cf dk] assms(1,5)
    by (auto simp: deployed_def opened_def nd sqlite_new_def)
  have rows: "\<exists>vs. siblings_ok vs \<and> None = data_row vs" "\<exists>d. pend_ok d \<and> None = row_of d"
    by (rule exI [of _ "[]"], simp add: data_row_def) (rule exI [of _ "[]"], simp add: row_of_def pend_ok_def)
  show ok: "node_ok nd"
    unfolding node_ok_def hint_ok_def nd using rows by (simp add: empty gossip_ok_init del: storage_map.simps storage_ok.simps)
  show "siblings nd k = []" using storage_map_siblings [OF ok, of k] unfolding nd(1) empty by (simp add: data_row_def split: if_splits)
  have "None = row_of []" by (simp add: row_of_def)
  then show "hinted nd t k = []"
    unfolding hinted_def nd(2) using hs_pending_row [OF empty(2), of "?p @ ''.hints''" _ _ t "[]" k] by (simp add: empty dict_get_def del: storage_map.simps)
qed

subsection \<open>Lifetimes\<close>

text \<open>
  What happens to a cluster and its disks over time: allowed actions, of any operations in any order, and
  restarts of any node at any moment between two of them. A restarted node gets new nonces and a new clock.
\<close>

inductive lifetime ::
  "platform \<Rightarrow> (node_id \<Rightarrow> config) \<Rightarrow> action set \<Rightarrow> cluster \<Rightarrow> (node_id \<Rightarrow> disk) \<Rightarrow> cluster \<Rightarrow> (node_id \<Rightarrow> disk) \<Rightarrow> bool"
  for pf cfs A c0 dks0 where
  up: "lifetime pf cfs A c0 dks0 c0 dks0"
| acts: "lifetime pf cfs A c0 dks0 c dks \<Longrightarrow> allowed A a \<Longrightarrow> lifetime pf cfs A c0 dks0 (perform a c) dks"
| restarts: "lifetime pf cfs A c0 dks0 c dks \<Longrightarrow> same_machine pf pf' \<Longrightarrow>
    restart pf' (cfs i) (dks i) (c i) = (nd, dk) \<Longrightarrow> lifetime pf cfs A c0 dks0 (c(i := nd)) (dks(i := dk))"

lemma lifetime_trace:
  assumes "trace A c c'" "lifetime pf cfs A c0 dks0 c dks"
  shows "lifetime pf cfs A c0 dks0 c' dks"
  using assms by (induction rule: trace_induct) (auto intro: lifetime.acts)

lemma restart_all:
  assumes "same_machine pf pf'"
  shows "lifetime pf cfs A c0 dks0 c dks \<Longrightarrow> \<exists>c' dks'. lifetime pf cfs A c0 dks0 c' dks' \<and>
    (\<forall>i. nd_gossip (c' i) = (if i \<in> set ms then gossip_init (cf_node_id (cfs i)) (pf_clock pf') else nd_gossip (c i)))"
proof (induction ms arbitrary: c dks)
  case (Cons m ms)
  obtain nd dk where r: "restart pf' (cfs m) (dks m) (c m) = (nd, dk)" by force
  have "nd_gossip nd = gossip_init (cf_node_id (cfs m)) (pf_clock pf')" using gossip_of_restart [of pf' "cfs m" "dks m" "c m"] r by simp
  then show ?case using Cons.IH [OF lifetime.restarts [OF Cons.prems assms r]] by auto
qed auto

text \<open>Every node stays well formed, configured and on its disk; nothing that was held gets lost unless
  an action deletes it.\<close>

lemma lifetime_keeps:
  assumes "lifetime pf cfs A c0 dks0 c dks" "cluster_ok c0" "\<forall>i. deployed pf (cfs i) (dks0 i) (c0 i)"
  shows "cluster_ok c \<and> (\<forall>i. deployed pf (cfs i) (dks i) (c i)) \<and> (\<forall>i. config_of (c i) = config_of (c0 i)) \<and>
    (\<forall>i k v. kept A i k \<longrightarrow> versions.covered (siblings (c0 i) k) v \<longrightarrow> versions.covered (siblings (c i) k) v) \<and>
    (\<forall>i t k v. HintClear i t k \<notin> A \<longrightarrow> versions.covered (hinted (c0 i) t k) v \<longrightarrow> versions.covered (hinted (c i) t k) v)"
  using assms(1)
proof induction
  case up
  then show ?case using assms(2,3) by simp
next
  case (acts c dks a)
  then have ok: "cluster_ok c" "action_ok a" by (simp_all add: allowed_def)
  note t = trace_perform [where Q = "allowed A" and c = c, OF acts.hyps(2)]
  show ?case using acts.IH perform_ok [OF ok] deployed_perform [where c = c and act = a] trace_covered [OF t ok(1)] trace_hinted [OF t ok(1)]
    by simp
next
  case (restarts c dks pf' i nd dk)
  have d: "deployed pf (cfs i) (dks i) (c i)" and ok: "cluster_ok c" using restarts.IH by blast+
  note laws = restart_laws [OF d restarts.hyps(2,3)]
  have "cluster_ok (c(i := nd))" using laws(5) cluster_okD [OF ok] cluster_ok_upd [OF ok] by blast
  moreover have "siblings ((c(i := nd)) j) k = siblings (c j) k" "hinted ((c(i := nd)) j) t k = hinted (c j) t k"
    "config_of ((c(i := nd)) j) = config_of (c j)" "deployed pf (cfs j) ((dks(i := dk)) j) ((c(i := nd)) j)" for j t k
    using restarts.IH laws(1-4) by simp_all
  ultimately show ?case using restarts.IH by presburger
qed

text \<open>C9. Acknowledged writes survive restarts. On nodes that run on their disks, after put returned a
  version, let any operations go on that do not delete the key and among which no \<open>put_local\<close> of it is
  overtaken by another write of the row, and let any nodes be restarted, any number of times and all of
  them if need be. A read of the key at any coordinator with the same
  preference list, with R + W above the number of replicas, still returns a version whose clock is at or
  above the write's, a conflict with such a version, or 503. Every hint that was pending after the
  write still is, itself or superseded, provided that no flush cleared the hints of its target for its key at
  its holder; and every node has its configuration.\<close>

theorem acknowledged_write_survives_restarts:
  assumes "put_key D nt self k val ins c = (Inr v, rest, c1)" "preference_list D (c self) k = Inr prefs"
    and "cluster_ok c" "wired nt c self k" "json_ok val" "put_inputs_ok A prefs ins"
    and "\<forall>i. kept A i k" "distinct prefs"
    and "\<forall>i. deployed pf (cfs i) (dks i) (c i)" "lifetime pf cfs A c1 dks c2 dks2"
    and "preference_list D (c self') k = Inr prefs" "wired nt c self' k"
    and "others_ok A futures" "completes prefs futures"
    and "int (length prefs) < min (nd_r (c self')) (int (length prefs)) + min (nd_w (c self)) (int (length prefs))"
  shows "(case fst (get_key D nt self' k futures c2) of
      Inr u \<Rightarrow> dominates_or_equal (ver_clock u) (ver_clock v)
    | Inl (Conflict vs) \<Rightarrow> \<exists>u \<in> set vs. dominates_or_equal (ver_clock u) (ver_clock v)
    | Inl (Raised e) \<Rightarrow> e = HTTPException 503) \<and>
    (\<forall>i t k' w. HintClear i t k' \<notin> A \<longrightarrow> w \<in> set (hs_pending (nd_hints (c1 i)) t k') \<longrightarrow>
      (\<exists>u \<in> set (hs_pending (nd_hints (c2 i)) t k'). dominates_or_equal (ver_clock u) (ver_clock w))) \<and>
    (\<forall>i. config_of (c2 i) = config_of (c i))"
proof -
  let ?th = "min (nd_r (c2 self')) (int (length prefs))"
  obtain ms where ms: "distinct ms" "set ms \<subseteq> set prefs" "min (nd_w (c self)) (int (length prefs)) \<le> int (length ms)"
      "\<forall>m \<in> set ms. versions.covered (siblings (c1 m) k) v"
    using write_acked_on [OF assms(1-7)] by blast
  note t1 = put_key_phases(1) [OF assms(1-6)]
  have ok1: "cluster_ok c1" using trace_ok [OF t1 assms(3)] .
  have "lifetime pf cfs A c dks c1 dks" using t1 lifetime.up by (rule lifetime_trace)
  then have "\<forall>i. deployed pf (cfs i) (dks i) (c1 i)" using lifetime_keeps assms(3,9) by blast
  note kept = lifetime_keeps [OF assms(10) ok1 this]
  have config: "config_of (c2 i) = config_of (c i)" for i using kept trace_config [OF t1] by simp
  have fields: "nd_ring (c2 i) = nd_ring (c i)" "nd_n (c2 i) = nd_n (c i)" "nd_r (c2 i) = nd_r (c i)"
    "nd_peers (c2 i) = nd_peers (c i)" for i using config [of i] by (auto simp: config_of_def)
  have prefs: "preference_list D (c2 self') k = Inr prefs" using assms(11) fields by (simp add: preference_list_def)
  have wired: "wired nt c2 self' k" using assms(12) fields by (simp add: wired_def)
  have held: "\<forall>m \<in> set ms. versions.covered (siblings (c2 m) k) v" using kept assms(7) ms(4) by blast
  obtain rd c3 where rd: "merged_read nt self' ?th k futures c2 = (rd, c3)" by (metis surj_pair)
  note get = get_key_merged [OF prefs rd]
  have "case fst (get_key D nt self' k futures c2) of
      Inr u \<Rightarrow> dominates_or_equal (ver_clock u) (ver_clock v)
    | Inl (Conflict vs) \<Rightarrow> \<exists>u \<in> set vs. dominates_or_equal (ver_clock u) (ver_clock v)
    | Inl (Raised e) \<Rightarrow> e = HTTPException 503"
  proof (cases rd)
    case (Inl e)
    then have "e = HTTPException 503" using rd by (auto simp: merged_read_def split: prod.splits if_splits)
    then show ?thesis using get Inl by simp
  next
    case (Inr merged)
    have lt: "int (length prefs) < ?th + int (length ms)" using assms(15) ms(3) fields by simp
    have "cluster_ok c2" using kept by blast
    from read_sees [OF rd [unfolded Inr] this wired assms(13,14,7) ms(1,2) held assms(8) lt]
    have "\<exists>u \<in> set merged. ver_clock v \<le> ver_clock u" by (simp add: versions.covered_def)
    then show ?thesis using get Inr by (cases merged) auto
  qed
  moreover have "\<exists>u \<in> set (hs_pending (nd_hints (c2 i)) t k'). dominates_or_equal (ver_clock u) (ver_clock w)"
    if "HintClear i t k' \<notin> A" "w \<in> set (hs_pending (nd_hints (c1 i)) t k')" for i t k' w
    using kept that unfolding versions.covered_def hinted_def by (metis order_refl dominates_or_equal_iff)
  ultimately show ?thesis using config by blast
qed

subsection \<open>An example\<close>

text \<open>The three nodes as \<open>run.py\<close> starts them on empty disks, and a network that finds them at their names.\<close>

definition ex_cfs :: "node_id \<Rightarrow> config" where
  "ex_cfs i = ex_settings\<lparr>cf_node_id := i, cf_db_path := ''data/'' @ i @ ''.db''\<rparr>"

definition booted :: cluster where
  "booted i = fst (build_node ex_platform (ex_cfs i) ex_disk)"

definition booted_disks :: "node_id \<Rightarrow> disk" where
  "booted_disks i = snd (build_node ex_platform (ex_cfs i) ex_disk)"

definition booted_net :: net where
  "booted_net =
     \<lparr>net_host = (\<lambda>u. if take 8 u = ''https://'' then Some (takeWhile (\<lambda>ch. ch \<noteq> CHR '':'') (drop 8 u)) else None),
      net_wire = Some\<rparr>"

lemma peers_dict_lookup:
  "map_of (peers_dict url_of nodes self) m = (if m \<in> set nodes \<and> m \<noteq> self then Some (url_of m) else None)"
proof -
  have "map_of (foldl (\<lambda>d i. dict_put i (url_of i) d) d0 ms) m = (if m \<in> set ms then Some (url_of m) else map_of d0 m)" for d0 ms
    by (induction ms arbitrary: d0) auto
  then show ?thesis by (simp add: peers_dict_def)
qed

lemma ex_cfs_nodes: "cluster_nodes_from_config (ex_cfs i) = [''a'', ''b'', ''c'']" "cf_node_id (ex_cfs i) = i"
  by (simp_all add: cluster_nodes_from_config_def ex_cfs_def ex_settings_def split_list_def strip_def py_space_def)

lemma booted_fields:
  "nd_ring (booted i) = ex_ring" "nd_n (booted i) = 3" "nd_r (booted i) = 2" "nd_w (booted i) = 2" "nd_timeout (booted i) = 6"
  "map_of (nd_peers (booted i)) m = (if m \<in> {''a'', ''b'', ''c''} - {i} then Some (internal_peer_url (ex_cfs i) m) else None)"
proof -
  have config: "config_of (booted i) = configured bytes_of (ex_cfs i)"
    by (simp add: booted_def config_of_build ex_platform_def)
  show "nd_ring (booted i) = ex_ring" "nd_n (booted i) = 3" "nd_r (booted i) = 2" "nd_w (booted i) = 2" "nd_timeout (booted i) = 6"
    using config by (simp_all add: config_of_def configured_def ex_cfs_nodes) (simp_all add: ex_cfs_def ex_settings_def ex_ring_def)
  show "map_of (nd_peers (booted i)) m = (if m \<in> {''a'', ''b'', ''c''} - {i} then Some (internal_peer_url (ex_cfs i) m) else None)"
    using config by (auto simp: config_of_def configured_def ex_cfs_nodes peers_dict_lookup)
qed

lemma booted_start:
  "deployed ex_platform (ex_cfs i) (booted_disks i) (booted i)" "cluster_ok booted" "nd_gossip (booted i) = gossip_init i 0"
proof -
  have cf: "cf_storage_backend (ex_cfs j) \<noteq> ''memory''" "dk_dbs ex_disk = []" "dk_keys ex_disk = []"
    "aes_correct (pf_aes ex_platform (pf_fresh_key ex_platform))" for j
    by (simp_all add: ex_cfs_def ex_settings_def ex_disk_def ex_platform_def tag_cipher_ok)
  have build: "build_node ex_platform (ex_cfs j) ex_disk = (booted j, booted_disks j)" for j
    by (simp add: booted_def booted_disks_def)
  note start = first_start [OF cf build]
  show "deployed ex_platform (ex_cfs i) (booted_disks i) (booted i)" "cluster_ok booted" "nd_gossip (booted i) = gossip_init i 0"
    using start by (simp_all add: cluster_ok_def ex_cfs_def ex_platform_def)
qed

lemma booted_wired: "wired booted_net booted self k"
  by (auto simp: wired_def booted_fields booted_net_def internal_peer_url_def split: if_splits)

lemma booted_prefs: "preference_list bytes_of (booted i) ''k'' = Inr [''a'', ''b'', ''c'']"
  by (simp add: preference_list_def booted_fields ex_prefs)

text \<open>A write at \<open>a\<close>, then all three nodes are restarted, then a read at \<open>b\<close>.\<close>

theorem acknowledged_write_survives_restarts_witness:
  "\<exists>v rest c1 c2 dks2. put_key bytes_of booted_net ''a'' ''k'' (JInt 1) (ex_put [''a'', ''b'', ''c'']) booted = (Inr v, rest, c1) \<and>
     lifetime ex_platform ex_cfs {} c1 booted_disks c2 dks2 \<and>
     (\<forall>i \<in> {''a'', ''b'', ''c''}. nd_gossip (c2 i) = gossip_init i 5) \<and>
     (case fst (get_key bytes_of booted_net ''b'' ''k'' [(''b'', Delivered, []), (''c'', Delivered, [])] c2) of
        Inr u \<Rightarrow> dominates_or_equal (ver_clock u) (ver_clock v)
      | Inl (Conflict vs) \<Rightarrow> \<exists>u \<in> set vs. dominates_or_equal (ver_clock u) (ver_clock v)
      | Inl (Raised e) \<Rightarrow> e = HTTPException 503)"
proof -
  let ?prefs = "[''a'', ''b'', ''c'']" and ?pf = "ex_platform\<lparr>pf_clock := 5\<rparr>"
  let ?fut = "[(''b'', Delivered, []), (''c'', Delivered, [])]"
  obtain v rest c1 where put: "put_key bytes_of booted_net ''a'' ''k'' (JInt 1) (ex_put ?prefs) booted = (Inr v, rest, c1)"
    using undisturbed_put_acks [where x = "JInt 1", OF booted_start(2) booted_wired [of "''a''"] _ booted_prefs _ _ _ booted_start(3)] ex_ring_ok
    by (auto simp: booted_fields)
  have same: "same_machine ex_platform ?pf" by (simp add: same_machine_def)
  obtain c2 d2 where life: "lifetime ex_platform ex_cfs {} c1 booted_disks c2 d2"
      and new: "\<forall>i. nd_gossip (c2 i) = (if i \<in> set ?prefs then gossip_init (cf_node_id (ex_cfs i)) (pf_clock ?pf) else nd_gossip (c1 i))"
    using restart_all [OF same lifetime.up] by blast
  have gossip: "\<forall>i \<in> {''a'', ''b'', ''c''}. nd_gossip (c2 i) = gossip_init i 5" using new by (simp add: ex_cfs_nodes)
  have inputs: "put_inputs_ok {} ?prefs (ex_put ?prefs)" by (rule ex_put_ok) simp
  have fut: "others_ok {} ?fut" "completes ?prefs ?fut" by (simp_all add: completes_def)
  have "\<forall>i. deployed ex_platform (ex_cfs i) (booted_disks i) (booted i)" using booted_start(1) by blast
  from acknowledged_write_survives_restarts [OF put booted_prefs booted_start(2) booted_wired _ inputs _ _ this life booted_prefs booted_wired fut]
  show ?thesis using put life gossip by (intro exI conjI) (auto simp: booted_fields)
qed

end
