(* ===== verification/Intrusion.thy ===== *)
theory Intrusion
  imports Adversary Restart
begin

section \<open>Spoofed identities on the internal port\<close>

text \<open>
  The pieces of Python of scenario 2 of \<open>scripts/adversarial_scenarios.py\<close> on a cluster: node-2 posts
  a gossip table under its own and under a made-up name, then stores a hint for a node that does not
  exist, and a process in node-1's container opens the hint database at its path and looks for the hint: it
  finds what the node has stored there, since every statement is committed, and nothing when the node keeps
  its hints in memory. The internal routes use neither the sender of a gossip
  message nor check the target of a hint, so both attacks go through on every well-formed node.
\<close>

definition spoof_gossip_program :: "net \<Rightarrow> real \<Rightarrow> real \<Rightarrow> cluster \<Rightarrow> (string, json) dict option \<times> cluster" where
  "spoof_gossip_program nt now1 now2 c =
     (case serve nt (PostGossip ''node-2'' [(''node-2'', 1)] now1) (c ''node-1'') of
        ((honest, _), nd1) \<Rightarrow>
          (case serve nt (PostGossip ''totally-fabricated-identity'' [(''node-2'', 2)] now2) nd1 of
             ((spoofed, _), nd2) \<Rightarrow>
               (Some [(''honest_status'', JInt (int honest)), (''spoofed_status'', JInt (int spoofed))],
                c(''node-1'' := nd2))))"

definition spoof_key :: key where
  "spoof_key = ''spoof-probe-key''"

definition spoof_hint_program :: "net \<Rightarrow> node_id \<Rightarrow> cluster \<Rightarrow> (string, json) dict option \<times> cluster" where
  "spoof_hint_program nt target c =
     (case serve nt (PutHint spoof_key target (JStr ''x'') (VectorClock [(''node-2'', 1)])) (c ''node-1'') of
        ((status, _), nd) \<Rightarrow> (Some [(''status'', JInt (int status))], c(''node-1'' := nd)))"

definition hint_file :: string where
  "hint_file = ''data/node-1.db.hints''"

definition key_file :: string where
  "key_file = ''data/node-1.key''"

text \<open>The disk is the one that node-1 and the piece of Python share.\<close>

definition check_hint_program :: "platform \<Rightarrow> node_id \<Rightarrow> disk \<Rightarrow> (string, json) dict option" where
  "check_hint_program pf target dk =
     (case load_or_create_encryption_key (pf_fresh_key pf) key_file (dk_keys dk) of
        (key, keys) \<Rightarrow>
          (case hs_pending_for (Encrypted (Sqlite (open_db hint_file dk)) (pf_aes pf key) (pf_nonces pf hint_file) 0) target of
             Inl e \<Rightarrow> None
           | Inr pending \<Rightarrow> Some [(''hint_stored_under_fake_target'', JBool (spoof_key \<in> set (map fst pending)))]))"

text \<open>The paths are those of the settings of node-1.\<close>

lemma node_1_paths:
  "cf_db_path cf = ''data/node-1.db'' \<Longrightarrow> cf_node_id cf = ''node-1'' \<Longrightarrow>
     cf_db_path cf @ ''.hints'' = hint_file \<and> node_encryption_key_path cf = key_file"
  by (simp add: hint_file_def key_file_def node_encryption_key_path_def beside_db_def path_str_def path_join_def
      path_parent_def path_of_def path_root_def)

text \<open>The name of a gossip sender is not used.\<close>

lemma gossip_sender_unused: "serve nt (PostGossip s table now) nd = serve nt (PostGossip s' table now) nd"
  by simp

lemma spoof_gossip_accepted:
  "fst (spoof_gossip_program nt now1 now2 c) = Some [(''honest_status'', JInt 200), (''spoofed_status'', JInt 200)]"
  by (simp add: spoof_gossip_program_def gossip_endpoint_def handle_gossip_def Let_def)

lemma pending_keys: "hs_pending s t k \<noteq> [] \<Longrightarrow> \<exists>d. hs_pending_for s t = Inr d \<and> k \<in> set (map fst d)"
  by (cases "hs_pending_for s t")
     (auto simp: hs_pending_def dict_get_def map_of_eq_None_iff split: option.splits dest: map_of_SomeD intro: rev_image_eqI)

lemma spoof_hint_stored:
  assumes "hint_ok (nd_hints (c ''node-1''))" "net_wire nt spoof_key = Some spoof_key"
  shows "\<exists>h d. spoof_hint_program nt target c = (Some [(''status'', JInt 200)], c(''node-1'' := (c ''node-1'')\<lparr>nd_hints := h\<rparr>)) \<and>
    (\<forall>a p. opened a p (nd_hints (c ''node-1'')) \<longrightarrow> opened a p h) \<and>
    hs_pending_for h target = Inr d \<and> spoof_key \<in> set (map fst d)"
proof -
  let ?v = "Version (JStr ''x'') (VectorClock [(''node-2'', 1)])"
  have v: "version_ok ?v" by (simp add: version_ok_def clock_ok_def)
  obtain h where h: "hs_add (nd_hints (c ''node-1'')) target spoof_key ?v = Inr h" "hs_pending h target spoof_key \<noteq> []"
    using hints.add_law [OF assms(1) v, of target spoof_key] by auto
  obtain d where "hs_pending_for h target = Inr d" "spoof_key \<in> set (map fst d)"
    using pending_keys [OF h(2)] by blast
  moreover have "\<forall>a p. opened a p (nd_hints (c ''node-1'')) \<longrightarrow> opened a p h" using opened_hints(1) [OF _ h(1)] by blast
  moreover have "spoof_hint_program nt target c = (Some [(''status'', JInt 200)], c(''node-1'' := (c ''node-1'')\<lparr>nd_hints := h\<rparr>))"
    by (simp add: spoof_hint_program_def on_route_def assms(2) put_hint_def add_hint_def h(1) Let_def)
  ultimately show ?thesis by blast
qed

text \<open>What the other process reads from the file is what the node has stored.\<close>

lemma check_hint_reads_store:
  assumes "map_of (dk_keys dk) key_file = Some key" "opened (pf_aes pf key) hint_file (nd_hints nd)"
    and "hs_pending_for (nd_hints nd) target = Inr d"
  shows "check_hint_program pf target (halt nd dk) = Some [(''hint_stored_under_fake_target'', JBool (spoof_key \<in> set (map fst d)))]"
proof -
  obtain db u i where h: "nd_hints nd = Encrypted (Sqlite db) (pf_aes pf key) u i" "ss_db_path db = hint_file"
    using assms(2) by (auto simp: opened_def)
  have opened: "open_db hint_file (halt nd dk) = db" "dk_keys (halt nd dk) = dk_keys dk"
    by (simp_all add: halt_def saved_def h open_db_def dict_get_def split: option.split)
  have "reopened (nd_hints nd) (Encrypted (Sqlite db) (pf_aes pf key) (pf_nonces pf hint_file) 0)"
    by (simp add: reopened_def h)
  from reopened_same(1) [OF this]
  have "hs_pending_for (Encrypted (Sqlite db) (pf_aes pf key) (pf_nonces pf hint_file) 0) target = Inr d"
    using assms(3) by (simp add: hs_pending_for_def hs_load_def)
  then show ?thesis by (simp add: check_hint_program_def load_or_create_encryption_key_def opened assms(1))
qed

lemma parse_spoofed:
  "parse_output (printed tb (Some [(''honest_status'', JInt 200), (''spoofed_status'', JInt 200)])) =
     Inr [(''honest_status'', JInt 200), (''spoofed_status'', JInt 200), (''_returncode'', JInt 0)]"
  "parse_output (printed tb (Some [(''status'', JInt 200)])) = Inr [(''status'', JInt 200), (''_returncode'', JInt 0)]"
  "parse_output (printed tb (Some [(''hint_stored_under_fake_target'', JBool True)])) =
     Inr [(''hint_stored_under_fake_target'', JBool True), (''_returncode'', JInt 0)]"
  by (subst parse_printed; simp)+

text \<open>
  C27. The internal port takes any identity from whoever holds a node's certificate: on every well-formed
  cluster whose node-1 runs on its disk with a database and the settings of the testbed, scenario 2 gets the
  same answer for a gossip message under a made-up name as under the true one, and finds the hint that it
  sent for a node outside the cluster in node-1's hint database; both attacks are reported as not
  prevented.
\<close>

theorem spoofed_identities_accepted:
  assumes "cluster_ok c" "net_wire nt spoof_key = Some spoof_key"
    and "deployed pf cf dk (c ''node-1'')" "cf_db_path cf = ''data/node-1.db''" "cf_node_id cf = ''node-1''"
    and "spoof_gossip_program nt now1 now2 c = (out1, c1)" "spoof_hint_program nt fake_target c1 = (out2, c2)"
    and "lb_exec lab ''node-2'' Spoof_Gossip 20 w = (Inr (printed tb out1), w1)"
    and "lb_exec lab ''node-2'' (Spoof_Hint fake_target) 20 w1 = (Inr (printed tb out2), w2)"
    and "lb_exec lab ''node-1'' (Check_Hint fake_target) 20 w2 =
      (Inr (printed tb (check_hint_program pf fake_target (halt (c2 ''node-1'') dk))), w3)"
  shows "\<exists>r1 r2. scenario_2 lab cx w = (Inr [r1, r2], w3) \<and> \<not> rs_prevented r1 \<and> \<not> rs_prevented r2"
proof -
  have out1: "out1 = Some [(''honest_status'', JInt 200), (''spoofed_status'', JInt 200)]"
    using spoof_gossip_accepted [of nt now1 now2 c] assms(6) by simp
  have same: "nd_hints (c1 ''node-1'') = nd_hints (c ''node-1'')"
    using assms(6) by (auto simp: spoof_gossip_program_def gossip_endpoint_def handle_gossip_def Let_def)
  have ok: "hint_ok (nd_hints (c1 ''node-1''))" using node_ok_parts(2) [OF cluster_okD [OF assms(1)]] same by simp
  obtain h d where put: "spoof_hint_program nt fake_target c1 =
        (Some [(''status'', JInt 200)], c1(''node-1'' := (c1 ''node-1'')\<lparr>nd_hints := h\<rparr>))"
      and h: "\<forall>a p. opened a p (nd_hints (c1 ''node-1'')) \<longrightarrow> opened a p h" "hs_pending_for h fake_target = Inr d"
        "spoof_key \<in> set (map fst d)"
    using spoof_hint_stored [where c = c1 and target = fake_target, OF ok assms(2)] by blast
  have stored: "out2 = Some [(''status'', JInt 200)]" "nd_hints (c2 ''node-1'') = h"
      "\<forall>a p. opened a p (nd_hints (c ''node-1'')) \<longrightarrow> opened a p h" "hs_pending_for h fake_target = Inr d" "spoof_key \<in> set (map fst d)"
    using put h assms(7) same by auto
  note paths = node_1_paths [OF assms(4,5)]
  obtain key where key: "map_of (dk_keys dk) key_file = Some key" and "opened (pf_aes pf key) hint_file (nd_hints (c ''node-1''))"
    using assms(3) paths by (auto simp: deployed_def)
  then have "opened (pf_aes pf key) hint_file (nd_hints (c2 ''node-1''))" using stored(2,3) by simp
  from check_hint_reads_store [OF key this, of fake_target d] stored(2,4,5)
  have check: "check_hint_program pf fake_target (halt (c2 ''node-1'') dk) = Some [(''hint_stored_under_fake_target'', JBool True)]"
    by simp
  have 1: "exec_snippet lab ''node-2'' Spoof_Gossip 20 w =
      (Inr [(''honest_status'', JInt 200), (''spoofed_status'', JInt 200), (''_returncode'', JInt 0)], w1)"
    using exec_printed [OF assms(8)] by (simp add: out1 parse_spoofed)
  have 2: "exec_snippet lab ''node-2'' (Spoof_Hint fake_target) 20 w1 = (Inr [(''status'', JInt 200), (''_returncode'', JInt 0)], w2)"
    using exec_printed [OF assms(9)] by (simp add: stored(1) parse_spoofed)
  have 3: "exec_snippet lab ''node-1'' (Check_Hint fake_target) 20 w2 =
      (Inr [(''hint_stored_under_fake_target'', JBool True), (''_returncode'', JInt 0)], w3)"
    using exec_printed [OF assms(10)] by (simp add: check parse_spoofed)
  show ?thesis
    by (simp add: scenario_2_def seq_def 1 2 3 return_it_def verdict_def got_def Let_def)
qed

text \<open>With the in-memory backend the same attack succeeds, but the scenario opens a file that the node does
  not use, finds no hint in it and reports the attack as prevented.\<close>

lemma memory_hints_not_found:
  assumes "database_in (nd_hints nd) = None" "database_in (nd_storage nd) = None" "dk_dbs dk = []"
  shows "check_hint_program pf target (halt nd dk) = Some [(''hint_stored_under_fake_target'', JBool False)]"
  using assms
  by (simp add: check_hint_program_def halt_def saved_def hs_pending_for_def hs_load_def open_db_def dict_get_def
      sqlite_new_def sqlite_get_def split: prod.split)

text \<open>A laboratory on the three nodes as \<open>run.py\<close> starts them on empty disks: the state is the cluster.\<close>

definition spoof_cfs :: "node_id \<Rightarrow> config" where
  "spoof_cfs i = (ex_cfs i)\<lparr>cf_cluster_nodes := ''node-1,node-2,node-3''\<rparr>"

definition spoof_cluster :: cluster where
  "spoof_cluster i = fst (build_node ex_platform (spoof_cfs i) ex_disk)"

definition spoof_disk :: disk where
  "spoof_disk = snd (build_node ex_platform (spoof_cfs ''node-1'') ex_disk)"

lemma spoof_start:
  "cluster_ok spoof_cluster" "deployed ex_platform (spoof_cfs ''node-1'') spoof_disk (spoof_cluster ''node-1'')"
proof -
  have cf: "cf_storage_backend (spoof_cfs j) \<noteq> ''memory''" "dk_dbs ex_disk = []" "dk_keys ex_disk = []"
    "aes_correct (pf_aes ex_platform (pf_fresh_key ex_platform))" for j
    by (simp_all add: spoof_cfs_def ex_cfs_def ex_settings_def ex_disk_def ex_platform_def tag_cipher_ok)
  have build: "build_node ex_platform (spoof_cfs j) ex_disk = (spoof_cluster j, snd (build_node ex_platform (spoof_cfs j) ex_disk))" for j
    by (simp add: spoof_cluster_def)
  note start = first_start [OF cf build]
  show "cluster_ok spoof_cluster" "deployed ex_platform (spoof_cfs ''node-1'') spoof_disk (spoof_cluster ''node-1'')"
    using start(1,2) by (simp_all add: cluster_ok_def spoof_disk_def)
qed

definition spoof_lab :: "cluster lab" where
  "spoof_lab =
     \<lparr>lb_exec = (\<lambda>node_id code timeout c.
        case code of
          Spoof_Gossip \<Rightarrow> apfst (\<lambda>out. Inr (printed [] out)) (spoof_gossip_program ex_net 1 2 c)
        | Spoof_Hint target \<Rightarrow> apfst (\<lambda>out. Inr (printed [] out)) (spoof_hint_program ex_net target c)
        | Check_Hint target \<Rightarrow> (Inr (printed [] (check_hint_program ex_platform target (halt (c ''node-1'') spoof_disk))), c)
        | _ \<Rightarrow> (Inl TimeoutExpired, c)),
      lb_http = (\<lambda>call c. (Inr 200, c)), lb_override = (\<lambda>c. None), lb_set_override = (\<lambda>t c. c),
      lb_up = (\<lambda>c. (Inr (), c)), lb_clock = (\<lambda>c. (0, c)), lb_sleep = (\<lambda>s c. c),
      lb_repr = (\<lambda>x. ''0.0''), lb_two = (\<lambda>x. ''0.00'')\<rparr>"

lemma spoofed_identities_accepted_witness:
  "\<exists>r1 r2 c. scenario_2 spoof_lab ex_ctx spoof_cluster = (Inr [r1, r2], c) \<and> \<not> rs_prevented r1 \<and> \<not> rs_prevented r2"
proof -
  obtain out1 c1 where 1: "spoof_gossip_program ex_net 1 2 spoof_cluster = (out1, c1)" by force
  obtain out2 c2 where 2: "spoof_hint_program ex_net fake_target c1 = (out2, c2)" by force
  have wire: "net_wire ex_net spoof_key = Some spoof_key" by (simp add: ex_net_def)
  have cf: "cf_db_path (spoof_cfs ''node-1'') = ''data/node-1.db''" "cf_node_id (spoof_cfs ''node-1'') = ''node-1''"
    by (simp_all add: spoof_cfs_def ex_cfs_def)
  show ?thesis
    using spoofed_identities_accepted [OF spoof_start(1) wire spoof_start(2) cf 1 2, of spoof_lab spoof_cluster "[]" c1 c2 c2 ex_ctx]
    by (simp add: spoof_lab_def 1 2) blast
qed

end
