(* ===== verification/Certs.thy ===== *)
theory Certs
  imports Service
begin

section \<open>Certificates and mutual TLS\<close>

text \<open>
  Models \<open>scripts/gen_certs.py\<close> and \<open>src/dynamokv/mtls.py\<close>. A key pair is a number, a certificate the
  record of what the script gives to the builder and the key that signs it, and the directory
  \<open>certs/\<close> a dictionary from file names to keys and certificates. The keys that are generated, the
  serial numbers and the clock are arguments. Writing a file is one step, so that a script that is
  interrupted leaves the files of a beginning of \<open>written\<close>.

  \<open>client_accepted\<close> and \<open>server_accepted\<close> state what the module \<open>ssl\<close> checks of the other side's
  certificate in the two modes that \<open>run.py\<close> uses: the signature of the trusted CA, the validity, that
  the peer has the private key, and for a client the name of the server. The main theorem is that the
  generated files make every pair of nodes accept each other, and that nobody else gets into the
  internal port.
\<close>

subsection \<open>Keys, certificates and files\<close>

type_synonym rsa_key = nat

datatype key_usage = Digital_Signature | Key_Cert_Sign | Crl_Sign

record cert =
  ct_subject :: string
  ct_issuer :: string
  ct_public :: rsa_key
  ct_serial :: nat
  ct_from :: real
  ct_until :: real
  ct_names :: "string list"
  ct_ca :: bool
  ct_usage :: "key_usage list option"
  ct_signer :: rsa_key

datatype pem = Key_Pem rsa_key | Cert_Pem cert

type_synonym cert_files = "(string, pem) dict"

record generator =
  gn_key :: "nat \<Rightarrow> rsa_key"
  gn_serial :: "nat \<Rightarrow> nat"
  gn_now :: "nat \<Rightarrow> real"

definition cert_nodes :: "node_id list" where
  "cert_nodes = [''node-1'', ''node-2'', ''node-3'']"

text \<open>\<open>timedelta(days=3650)\<close> in seconds.\<close>

definition validity :: real where
  "validity = 3650 * 24 * 60 * 60"

definition make_ca :: "generator \<Rightarrow> rsa_key \<times> cert" where
  "make_ca g =
     (let k = gn_key g 0; name = ''dynamokv-cluster-ca''; now = gn_now g 0
      in (k, \<lparr>ct_subject = name, ct_issuer = name, ct_public = k, ct_serial = gn_serial g 0, ct_from = now,
              ct_until = now + validity, ct_names = [], ct_ca = True,
              ct_usage = Some [Digital_Signature, Key_Cert_Sign, Crl_Sign], ct_signer = k\<rparr>))"

definition make_node_cert :: "generator \<Rightarrow> nat \<Rightarrow> node_id \<Rightarrow> rsa_key \<Rightarrow> cert \<Rightarrow> rsa_key \<times> cert" where
  "make_node_cert g i node_id ca_key ca_cert =
     (let k = gn_key g i; now = gn_now g i
      in (k, \<lparr>ct_subject = node_id, ct_issuer = ct_subject ca_cert, ct_public = k, ct_serial = gn_serial g i,
              ct_from = now, ct_until = now + validity, ct_names = [node_id, ''localhost''], ct_ca = False,
              ct_usage = None, ct_signer = ca_key\<rparr>))"

definition node_file :: "node_id \<Rightarrow> string \<Rightarrow> string" where
  "node_file node_id ext = node_id @ ''/'' @ node_id @ ext"

text \<open>The files that the script writes, in their order; the \<open>i\<close>-th node takes the key \<open>i + 1\<close>.\<close>

definition node_writes :: "generator \<Rightarrow> rsa_key \<Rightarrow> cert \<Rightarrow> nat \<times> node_id \<Rightarrow> (string \<times> pem) list" where
  "node_writes g ca_key ca_cert = (\<lambda>(i, node_id).
     case make_node_cert g (i + 1) node_id ca_key ca_cert of
       (k, crt) \<Rightarrow> [(node_file node_id ''.key'', Key_Pem k), (node_file node_id ''.crt'', Cert_Pem crt)])"

definition written :: "generator \<Rightarrow> (string \<times> pem) list" where
  "written g =
     (case make_ca g of
        (ca_key, ca_cert) \<Rightarrow>
          [(''ca.key'', Key_Pem ca_key), (''ca.crt'', Cert_Pem ca_cert)]
          @ concat (map (node_writes g ca_key ca_cert) (enumerate 0 cert_nodes)))"

definition write_files :: "(string \<times> pem) list \<Rightarrow> cert_files \<Rightarrow> cert_files" where
  "write_files ws files = fold (\<lambda>(name, content). dict_put name content) ws files"

definition gen_certs_main :: "generator \<Rightarrow> cert_files \<Rightarrow> cert_files" where
  "gen_certs_main g files =
     (if map_of files ''ca.crt'' \<noteq> None then files else write_files (written g) files)"

subsection \<open>TLS contexts\<close>

record tls_context =
  tc_ca :: cert
  tc_client :: "(cert \<times> rsa_key) option"

definition read_cert :: "cert_files \<Rightarrow> string \<Rightarrow> py_error + cert" where
  "read_cert files name =
     (case map_of files name of
        None \<Rightarrow> Inl FileNotFoundError
      | Some (Cert_Pem c) \<Rightarrow> Inr c
      | Some (Key_Pem _) \<Rightarrow> Inl SSLError)"

definition read_key :: "cert_files \<Rightarrow> string \<Rightarrow> py_error + rsa_key" where
  "read_key files name =
     (case map_of files name of
        None \<Rightarrow> Inl FileNotFoundError
      | Some (Key_Pem k) \<Rightarrow> Inr k
      | Some (Cert_Pem _) \<Rightarrow> Inl SSLError)"

text \<open>\<open>load_cert_chain\<close> refuses a key that does not belong to the certificate.\<close>

definition load_cert_chain :: "cert_files \<Rightarrow> string \<Rightarrow> string \<Rightarrow> py_error + cert \<times> rsa_key" where
  "load_cert_chain files cert_path key_path =
     and_then (read_cert files cert_path) (\<lambda>c.
     and_then (read_key files key_path) (\<lambda>k.
       if k = ct_public c then Inr (c, k) else Inl SSLError))"

definition build_no_client_cert_context :: "cert_files \<Rightarrow> string \<Rightarrow> py_error + tls_context" where
  "build_no_client_cert_context files ca_path =
     and_then (read_cert files ca_path) (\<lambda>ca. Inr \<lparr>tc_ca = ca, tc_client = None\<rparr>)"

definition build_mtls_client_context :: "cert_files \<Rightarrow> string \<Rightarrow> string \<Rightarrow> string \<Rightarrow> py_error + tls_context" where
  "build_mtls_client_context files cert_path key_path ca_path =
     and_then (read_cert files ca_path) (\<lambda>ca.
     and_then (load_cert_chain files cert_path key_path) (\<lambda>ck. Inr \<lparr>tc_ca = ca, tc_client = Some ck\<rparr>))"

text \<open>
  What \<open>ssl\<close> checks of a certificate that a peer with a private key presents: the chain to the trusted CA
  and the validity of both, and the key usages where a certificate names any: the CA's must allow it to
  sign certificates, the peer's to sign the handshake.
\<close>

definition may_use :: "cert \<Rightarrow> key_usage \<Rightarrow> bool" where
  "may_use c u \<longleftrightarrow> (case ct_usage c of None \<Rightarrow> True | Some us \<Rightarrow> u \<in> set us)"

definition verified :: "cert \<Rightarrow> real \<Rightarrow> cert \<times> rsa_key \<Rightarrow> bool" where
  "verified ca now = (\<lambda>(c, k).
     ct_ca ca \<and> may_use ca Key_Cert_Sign \<and> may_use c Digital_Signature \<and> ct_issuer c = ct_subject ca \<and> ct_signer c = ct_public ca \<and> k = ct_public c \<and>
     ct_from c \<le> now \<and> now \<le> ct_until c \<and> ct_from ca \<le> now \<and> now \<le> ct_until ca)"

definition client_accepted :: "client_cert \<Rightarrow> cert \<Rightarrow> real \<Rightarrow> (cert \<times> rsa_key) option \<Rightarrow> bool" where
  "client_accepted mode ca now presented =
     (case mode of
        Cert_Required \<Rightarrow> (case presented of None \<Rightarrow> False | Some ck \<Rightarrow> verified ca now ck)
      | _ \<Rightarrow> True)"

definition server_accepted :: "tls_context \<Rightarrow> real \<Rightarrow> string \<Rightarrow> cert \<times> rsa_key \<Rightarrow> bool" where
  "server_accepted ctx now host ck \<longleftrightarrow> verified (tc_ca ctx) now ck \<and> host \<in> set (ct_names (fst ck))"

subsection \<open>The generated files\<close>

definition ca_of :: "generator \<Rightarrow> cert" where
  "ca_of g = snd (make_ca g)"

lemma make_ca_eq: "make_ca g = (gn_key g 0, ca_of g)"
  by (simp add: ca_of_def make_ca_def Let_def)

text \<open>The number of the key that a node takes.\<close>

definition node_index :: "node_id \<Rightarrow> nat" where
  "node_index n = (if n = ''node-1'' then 1 else if n = ''node-2'' then 2 else 3)"

definition chain_of :: "generator \<Rightarrow> node_id \<Rightarrow> cert \<times> rsa_key" where
  "chain_of g n = prod.swap (make_node_cert g (node_index n) n (gn_key g 0) (ca_of g))"

lemma written_eq:
  "written g =
     [(''ca.key'', Key_Pem (gn_key g 0)), (''ca.crt'', Cert_Pem (ca_of g)),
      (''node-1/node-1.key'', Key_Pem (snd (chain_of g ''node-1''))), (''node-1/node-1.crt'', Cert_Pem (fst (chain_of g ''node-1''))),
      (''node-2/node-2.key'', Key_Pem (snd (chain_of g ''node-2''))), (''node-2/node-2.crt'', Cert_Pem (fst (chain_of g ''node-2''))),
      (''node-3/node-3.key'', Key_Pem (snd (chain_of g ''node-3''))), (''node-3/node-3.crt'', Cert_Pem (fst (chain_of g ''node-3'')))]"
  by (simp add: written_def make_ca_eq cert_nodes_def node_writes_def node_file_def chain_of_def node_index_def
      make_node_cert_def Let_def eval_nat_numeral)

lemma generated_lookup:
  assumes "map_of files ''ca.crt'' = None"
  shows "map_of (gen_certs_main g files) ''ca.crt'' = Some (Cert_Pem (ca_of g))"
    and "n \<in> set cert_nodes \<Longrightarrow> map_of (gen_certs_main g files) (node_file n ''.crt'') = Some (Cert_Pem (fst (chain_of g n)))"
    and "n \<in> set cert_nodes \<Longrightarrow> map_of (gen_certs_main g files) (node_file n ''.key'') = Some (Key_Pem (snd (chain_of g n)))"
  using assms
  by (auto simp: gen_certs_main_def write_files_def written_eq cert_nodes_def node_file_def update_conv')

lemma chain_of_fields:
  "ct_public (fst (chain_of g n)) = snd (chain_of g n)" "ct_signer (fst (chain_of g n)) = gn_key g 0"
  "ct_issuer (fst (chain_of g n)) = ct_subject (ca_of g)" "ct_from (fst (chain_of g n)) = gn_now g (node_index n)"
  "ct_until (fst (chain_of g n)) = gn_now g (node_index n) + validity" "n \<in> set (ct_names (fst (chain_of g n)))"
  by (simp_all add: chain_of_def make_node_cert_def Let_def)

lemma ca_of_fields:
  "ct_ca (ca_of g)" "ct_public (ca_of g) = gn_key g 0" "ct_from (ca_of g) = gn_now g 0"
  "ct_until (ca_of g) = gn_now g 0 + validity"
  by (simp_all add: ca_of_def make_ca_def Let_def)

text \<open>\<open>fresh_enough g now\<close>: the certificates of the CA and the nodes are valid at \<open>now\<close>.\<close>

definition fresh_enough :: "generator \<Rightarrow> real \<Rightarrow> bool" where
  "fresh_enough g now \<longleftrightarrow> (\<forall>i \<in> {0, 1, 2, 3}. gn_now g i \<le> now \<and> now \<le> gn_now g i + validity)"

lemma usages_fit [simp]: "may_use (ca_of g) Key_Cert_Sign" "may_use (fst (chain_of g n)) Digital_Signature"
  by (simp_all add: may_use_def ca_of_def make_ca_def chain_of_def make_node_cert_def Let_def)

lemma chain_verified: "fresh_enough g now \<Longrightarrow> verified (ca_of g) now (chain_of g n)"
  by (auto simp: verified_def case_prod_beta chain_of_fields ca_of_fields fresh_enough_def node_index_def)

text \<open>
  C22. The generated certificates give mutual TLS: after one run of \<open>gen_certs.py\<close> every node can build
  its client context, every other node's internal server accepts its certificate and is accepted under
  its own name, and the internal server accepts nobody without a certificate that the cluster's CA key
  signed and its private key. Running the script again changes nothing.
\<close>

theorem generated_certs_mutual_tls:
  assumes "map_of files ''ca.crt'' = None" "i \<in> set cert_nodes" "j \<in> set cert_nodes" "fresh_enough g now"
  defines "certs \<equiv> gen_certs_main g files"
  shows "\<exists>ctx srv.
    build_mtls_client_context certs (node_file i ''.crt'') (node_file i ''.key'') ''ca.crt'' = Inr ctx \<and>
    load_cert_chain certs (node_file j ''.crt'') (node_file j ''.key'') = Inr srv \<and>
    server_accepted ctx now j srv \<and> client_accepted Cert_Required (tc_ca ctx) now (tc_client ctx) \<and>
    (\<forall>presented. client_accepted Cert_Required (tc_ca ctx) now presented \<longrightarrow>
      (\<exists>c k. presented = Some (c, k) \<and> ct_signer c = gn_key g 0 \<and> k = ct_public c)) \<and>
    gen_certs_main g' certs = certs"
proof -
  note files = generated_lookup [where g = g, OF assms(1), folded certs_def]
  have chain: "load_cert_chain certs (node_file n ''.crt'') (node_file n ''.key'') = Inr (chain_of g n)" if "n \<in> set cert_nodes" for n
    using files(2,3) [OF that] by (simp add: load_cert_chain_def read_cert_def read_key_def and_then_def chain_of_fields)
  let ?ctx = "\<lparr>tc_ca = ca_of g, tc_client = Some (chain_of g i)\<rparr>"
  have "build_mtls_client_context certs (node_file i ''.crt'') (node_file i ''.key'') ''ca.crt'' = Inr ?ctx"
    using files(1) chain [OF assms(2)] by (simp add: build_mtls_client_context_def read_cert_def and_then_def)
  moreover have "server_accepted ?ctx now j (chain_of g j)"
    by (simp add: server_accepted_def chain_verified [OF assms(4)] chain_of_fields)
  moreover have "client_accepted Cert_Required (ca_of g) now (Some (chain_of g i))"
    by (simp add: client_accepted_def chain_verified [OF assms(4)])
  moreover have "\<exists>c k. presented = Some (c, k) \<and> ct_signer c = gn_key g 0 \<and> k = ct_public c"
    if "client_accepted Cert_Required (ca_of g) now presented" for presented
    using that by (auto simp: client_accepted_def verified_def ca_of_fields split: option.splits)
  moreover have "gen_certs_main g' certs = certs" using files(1) by (simp add: gen_certs_main_def)
  ultimately show ?thesis using chain [OF assms(3)] by (intro exI [of _ ?ctx] exI [of _ "chain_of g j"]) simp
qed

definition ex_generator :: generator where
  "ex_generator = \<lparr>gn_key = (\<lambda>i. i + 10), gn_serial = (\<lambda>i. i), gn_now = (\<lambda>i. 0)\<rparr>"

lemma generated_certs_mutual_tls_witness:
  "\<exists>ctx srv. build_mtls_client_context (gen_certs_main ex_generator []) ''node-1/node-1.crt'' ''node-1/node-1.key'' ''ca.crt'' = Inr ctx \<and>
     load_cert_chain (gen_certs_main ex_generator []) ''node-2/node-2.crt'' ''node-2/node-2.key'' = Inr srv \<and>
     server_accepted ctx 5 ''node-2'' srv \<and> \<not> client_accepted Cert_Required (tc_ca ctx) 5 None"
  using generated_certs_mutual_tls [of "[]" "''node-1''" "''node-2''" ex_generator 5 ex_generator]
  by (auto simp: cert_nodes_def node_file_def fresh_enough_def ex_generator_def validity_def client_accepted_def)

text \<open>
  A run that is interrupted after the CA's certificate leaves the nodes without certificates, and running
  the script again does not complete it, since it only looks for \<open>ca.crt\<close>.
\<close>

lemma interrupted_run_stays_incomplete:
  assumes "left = write_files (take 2 (written g)) []"
  shows "gen_certs_main g' left = left \<and>
    build_mtls_client_context left (node_file ''node-1'' ''.crt'') (node_file ''node-1'' ''.key'') ''ca.crt'' = Inl FileNotFoundError"
  by (simp add: assms written_eq write_files_def gen_certs_main_def build_mtls_client_context_def load_cert_chain_def
      read_cert_def and_then_def node_file_def)

subsection \<open>The internal routes stand behind the certificate\<close>

text \<open>
  C23. Of the servers that \<open>run.py\<close> starts, only one that requires a client certificate serves the
  internal routes: with the generated files, a client that reaches them without a certificate signed by
  the cluster's CA key is not accepted, whatever it presents. The server with the public routes checks
  tokens instead.
\<close>

theorem internal_routes_need_certificate:
  assumes "run_main pf cf dk = Inr (nd, servers, dk')" "sv \<in> set servers" "sv_app sv = Some a"
  shows "(Internal_Router \<in> snd ` set (ap_routers a) \<longrightarrow>
      sv_client_cert sv = Cert_Required \<and> sv_port sv = cf_internal_port cf \<and>
      (\<forall>presented. client_accepted (sv_client_cert sv) (ca_of g) now presented \<longrightarrow>
        (\<exists>c k. presented = Some (c, k) \<and> ct_signer c = gn_key g 0 \<and> k = ct_public c))) \<and>
    (Public \<in> snd ` set (ap_routers a) \<longrightarrow> ap_tokens a \<noteq> None)"
proof -
  have sv: "sv_client_cert sv = Cert_Required \<and> sv_port sv = cf_internal_port cf" if "Internal_Router \<in> snd ` set (ap_routers a)"
    using assms that
    by (auto simp: run_main_def Let_def and_then_def create_public_app_def add_audit_middleware_def add_request_log_middleware_def
        add_metrics_middleware_def add_dashboard_def include_router_def add_middleware_def app_new_def
        split: prod.splits sum.splits if_splits)
  have tokens: "ap_tokens a \<noteq> None" if "Public \<in> snd ` set (ap_routers a)"
    using assms that
    by (auto simp: run_main_def Let_def and_then_def create_public_app_def create_internal_app_def add_audit_middleware_def
        add_request_log_middleware_def add_metrics_middleware_def add_dashboard_def include_router_def add_middleware_def app_new_def
        split: prod.splits sum.splits if_splits)
  have "\<exists>c k. presented = Some (c, k) \<and> ct_signer c = gn_key g 0 \<and> k = ct_public c"
    if "client_accepted Cert_Required (ca_of g) now presented" for presented
    using that by (auto simp: client_accepted_def verified_def ca_of_fields split: option.splits)
  then show ?thesis using sv tokens by auto
qed

lemma internal_routes_need_certificate_witness:
  "\<exists>nd servers dk sv a. run_main ex_platform ex_settings ex_disk = Inr (nd, servers, dk) \<and> sv \<in> set servers \<and>
     sv_app sv = Some a \<and> Internal_Router \<in> snd ` set (ap_routers a) \<and>
     \<not> client_accepted (sv_client_cert sv) (ca_of ex_generator) 5 None"
proof -
  obtain nd dk where node: "build_node ex_platform ex_settings ex_disk = (nd, dk)" by force
  define a where "a = create_internal_app (nd_id nd)
    (if 1 < length (cluster_nodes_from_config ex_settings) then Some (cf_gossip_interval ex_settings) else None)
    (Some (default_internal_audit_log_path ex_settings))"
  define sv where "sv = \<lparr>sv_port = cf_internal_port ex_settings, sv_client_cert = Cert_Required, sv_app = Some a\<rparr>"
  have no_file: "cf_auth_tokens_file ex_settings = []" by (simp add: ex_settings_def)
  obtain servers where run: "run_main ex_platform ex_settings ex_disk = Inr (nd, servers, dk)" "sv \<in> set servers"
    by (simp add: run_main_def node Let_def load_auth_tokens_def and_then_def sv_def a_def no_file)
  have app: "sv_app sv = Some a" by (simp add: sv_def)
  have inner: "Internal_Router \<in> snd ` set (ap_routers a)"
    by (simp add: a_def create_internal_app_def add_audit_middleware_def add_request_log_middleware_def
        add_metrics_middleware_def include_router_def add_middleware_def app_new_def Let_def)
  have "\<not> client_accepted (sv_client_cert sv) (ca_of ex_generator) 5 None"
    using internal_routes_need_certificate [OF run app, of ex_generator 5] inner by auto
  then show ?thesis using run app inner by blast
qed

end
