(* ===== verification/Join.thy ===== *)
theory Join
  imports Adversary Certs
begin

section \<open>Joining the cluster without a node's certificate\<close>

text \<open>
  The two pieces of Python of scenario 1 of \<open>scripts/adversarial_scenarios.py\<close>: a TLS client that trusts the
  cluster's CA connects to the internal port of node-2, without a certificate or with one that it signed
  itself, asks for a key and reports whether anything came back. What \<open>ssl\<close> checks is stated by
  \<open>server_accepted\<close> and \<open>client_accepted\<close> of \<open>Certs\<close>.

  With TLS 1.3 the refusal of a client reaches it after the handshake: its \<open>recv\<close> raises or finds the
  connection closed. The connection and what happens on it are the record \<open>wire_tls\<close>.
\<close>

subsection \<open>The connection\<close>

text \<open>\<open>wt_reach\<close>: what \<open>create_connection\<close> raises, if it does; \<open>wt_refused\<close>: what a refused client's
  \<open>recv\<close> raises, or \<open>None\<close> when it gets no data; \<open>wt_reply\<close>: the same for a client that was let in, with
  the number of bytes that it got.\<close>

record wire_tls =
  wt_reach :: "py_error option"
  wt_server :: "cert \<times> rsa_key"
  wt_server_ca :: cert
  wt_mode :: client_cert
  wt_refused :: "py_error option"
  wt_reply :: "py_error + nat"

definition probe_bytes :: "wire_tls \<Rightarrow> tls_context \<Rightarrow> real \<Rightarrow> py_error + nat" where
  "probe_bytes wt cx now =
     (case wt_reach wt of
        Some e \<Rightarrow> Inl e
      | None \<Rightarrow>
          if \<not> server_accepted cx now ''node-2'' (wt_server wt) then Inl SSLError
          else if client_accepted (wt_mode wt) (wt_server_ca wt) now (tc_client cx) then wt_reply wt
          else (case wt_refused wt of Some e \<Rightarrow> Inl e | None \<Rightarrow> Inr 0))"

definition join_report :: "(py_error \<Rightarrow> string) \<Rightarrow> py_error + nat \<Rightarrow> (string, json) dict" where
  "join_report type_name r =
     (case r of
        Inr n \<Rightarrow> [(''connected'', JBool True), (''got_response'', JBool (n > 0))]
      | Inl e \<Rightarrow> [(''connected'', JBool False), (''error'', JStr (type_name e))])"

subsection \<open>The programs\<close>

text \<open>The context is made outside the \<open>try\<close>: a file that is missing ends the program without output.\<close>

definition no_cert_program ::
  "(py_error \<Rightarrow> string) \<Rightarrow> cert_files \<Rightarrow> wire_tls \<Rightarrow> real \<Rightarrow> (string, json) dict option" where
  "no_cert_program type_name files wt now =
     (case build_no_client_cert_context files ''ca.crt'' of
        Inl e \<Rightarrow> None
      | Inr cx \<Rightarrow> Some (join_report type_name (probe_bytes wt cx now)))"

definition rogue_cert :: "rsa_key \<Rightarrow> nat \<Rightarrow> real \<Rightarrow> cert" where
  "rogue_cert k serial now =
     \<lparr>ct_subject = ''rogue-node'', ct_issuer = ''rogue-node'', ct_public = k, ct_serial = serial, ct_from = now,
      ct_until = now + 24 * 60 * 60, ct_names = [], ct_ca = False, ct_usage = None, ct_signer = k\<rparr>"

definition rogue_cert_program ::
  "(py_error \<Rightarrow> string) \<Rightarrow> cert_files \<Rightarrow> wire_tls \<Rightarrow> rsa_key \<Rightarrow> nat \<Rightarrow> real \<Rightarrow> (string, json) dict option" where
  "rogue_cert_program type_name files wt k serial now =
     (let d = [(''rogue.key'', Key_Pem k), (''rogue.crt'', Cert_Pem (rogue_cert k serial now))]
      in case and_then (build_no_client_cert_context files ''ca.crt'') (\<lambda>cx.
             and_then (load_cert_chain d ''rogue.crt'' ''rogue.key'') (\<lambda>ck. Inr (cx\<lparr>tc_client := Some ck\<rparr>))) of
           Inl e \<Rightarrow> None
         | Inr cx \<Rightarrow> Some (join_report type_name (probe_bytes wt cx now)))"

lemma generated_context:
  assumes "map_of files ''ca.crt'' = None"
  shows "build_no_client_cert_context (gen_certs_main g files) ''ca.crt'' = Inr \<lparr>tc_ca = ca_of g, tc_client = None\<rparr>"
  using generated_lookup(1) [OF assms, of g] by (simp add: build_no_client_cert_context_def read_cert_def and_then_def)

lemma rogue_not_verified: "\<not> verified (ca_of g) now (rogue_cert k serial t, k')"
  by (simp add: verified_def rogue_cert_def ca_of_def make_ca_def Let_def)

text \<open>A client that the server does not accept never reports a response.\<close>

definition kept_out :: "(string, json) dict \<Rightarrow> bool" where
  "kept_out out \<longleftrightarrow> \<not> got out ''connected'' \<or> \<not> got out ''got_response''"

lemma refused_kept_out:
  assumes "\<not> client_accepted (wt_mode wt) (wt_server_ca wt) now (tc_client cx)"
  shows "kept_out (join_report type_name (probe_bytes wt cx now))" "json_ok (JObj (join_report type_name (probe_bytes wt cx now)))"
  using assms by (auto simp: kept_out_def join_report_def probe_bytes_def got_def split: option.splits sum.splits)

lemma join_programs_kept_out:
  assumes "map_of files ''ca.crt'' = None" "wt_mode wt = Cert_Required" "wt_server_ca wt = ca_of g"
  shows "\<exists>d. no_cert_program type_name (gen_certs_main g files) wt now = Some d \<and> kept_out d \<and> json_ok (JObj d)"
    and "\<exists>d. rogue_cert_program type_name (gen_certs_main g files) wt k serial now = Some d \<and> kept_out d \<and> json_ok (JObj d)"
proof -
  note cx = generated_context [OF assms(1), of g]
  show "\<exists>d. no_cert_program type_name (gen_certs_main g files) wt now = Some d \<and> kept_out d \<and> json_ok (JObj d)"
    unfolding no_cert_program_def cx
    by (simp add: refused_kept_out client_accepted_def assms(2) del: json_ok.simps)
  have "load_cert_chain [(''rogue.key'', Key_Pem k), (''rogue.crt'', Cert_Pem (rogue_cert k serial now))] ''rogue.crt'' ''rogue.key'' =
      Inr (rogue_cert k serial now, k)"
    by (simp add: load_cert_chain_def read_cert_def read_key_def and_then_def rogue_cert_def)
  then show "\<exists>d. rogue_cert_program type_name (gen_certs_main g files) wt k serial now = Some d \<and> kept_out d \<and> json_ok (JObj d)"
    unfolding rogue_cert_program_def cx Let_def
    by (simp add: and_then_def refused_kept_out client_accepted_def assms(2,3) rogue_not_verified del: json_ok.simps)
qed

subsection \<open>The verdicts of scenario 1\<close>

lemma scenario_1_verdict:
  assumes "exec_snippet lab ''node-1'' No_Cert 20 w = (Inr o1, w1)" "exec_snippet lab ''node-1'' Rogue_Cert 20 w1 = (Inr o2, w2)"
  shows "\<exists>r1 r2. scenario_1 lab cx w = (Inr [r1, r2], w2) \<and> (rs_prevented r1 \<longleftrightarrow> kept_out o1) \<and> (rs_prevented r2 \<longleftrightarrow> kept_out o2)"
  using assms by (simp add: scenario_1_def seq_def return_it_def verdict_def Let_def kept_out_def)

lemma exec_kept_out:
  assumes "lb_exec lab node_id code timeout w = (Inr (printed tb (Some d)), w')" "json_ok (JObj d)" "kept_out d"
  shows "\<exists>d'. exec_snippet lab node_id code timeout w = (Inr d', w') \<and> kept_out d'"
  using exec_printed [OF assms(1) parse_printed [OF assms(2)]] assms(3) by (auto simp: kept_out_def got_def)

text \<open>C24. Nobody joins the cluster without a certificate of its CA. With the files of \<open>gen_certs.py\<close> and a
  server that requires client certificates, scenario 1 reports both attempts as prevented, whatever the
  network does; a client with the certificate of a node, on a connection that works, gets its answer.\<close>

theorem unauthorized_join_prevented:
  assumes "map_of files ''ca.crt'' = None" "wt_mode wt = Cert_Required" "wt_server_ca wt = ca_of g"
  defines "certs \<equiv> gen_certs_main g files"
  assumes "lb_exec lab ''node-1'' No_Cert 20 w = (Inr (printed tb (no_cert_program type_name certs wt now)), w1)"
    and "lb_exec lab ''node-1'' Rogue_Cert 20 w1 = (Inr (printed tb (rogue_cert_program type_name certs wt k serial now)), w2)"
  shows "(\<exists>r1 r2. scenario_1 lab cx w = (Inr [r1, r2], w2) \<and> rs_prevented r1 \<and> rs_prevented r2) \<and>
    (fresh_enough g now \<and> wt_reach wt = None \<and> wt_server wt = chain_of g ''node-2'' \<and> wt_reply wt = Inr n \<and> 0 < n \<longrightarrow>
      \<not> kept_out (join_report type_name
        (probe_bytes wt \<lparr>tc_ca = ca_of g, tc_client = Some (chain_of g ''node-1'')\<rparr> now)))"
proof
  obtain d1 d2 where d: "no_cert_program type_name certs wt now = Some d1" "kept_out d1" "json_ok (JObj d1)"
      "rogue_cert_program type_name certs wt k serial now = Some d2" "kept_out d2" "json_ok (JObj d2)"
    using join_programs_kept_out [OF assms(1-3)] unfolding certs_def by metis
  obtain o1 where o1: "exec_snippet lab ''node-1'' No_Cert 20 w = (Inr o1, w1)" "kept_out o1"
    using exec_kept_out [OF assms(5) [unfolded d(1)] d(3,2)] by blast
  obtain o2 where o2: "exec_snippet lab ''node-1'' Rogue_Cert 20 w1 = (Inr o2, w2)" "kept_out o2"
    using exec_kept_out [OF assms(6) [unfolded d(4)] d(6,5)] by blast
  show "\<exists>r1 r2. scenario_1 lab cx w = (Inr [r1, r2], w2) \<and> rs_prevented r1 \<and> rs_prevented r2"
    using scenario_1_verdict [OF o1(1) o2(1), of cx] o1(2) o2(2) by blast
next
  show "fresh_enough g now \<and> wt_reach wt = None \<and> wt_server wt = chain_of g ''node-2'' \<and> wt_reply wt = Inr n \<and> 0 < n \<longrightarrow>
      \<not> kept_out (join_report type_name (probe_bytes wt \<lparr>tc_ca = ca_of g, tc_client = Some (chain_of g ''node-1'')\<rparr> now))"
    by (auto simp: probe_bytes_def server_accepted_def client_accepted_def chain_verified chain_of_fields assms(2,3)
        join_report_def kept_out_def got_def)
qed

definition join_wire :: wire_tls where
  "join_wire =
     \<lparr>wt_reach = None, wt_server = chain_of ex_generator ''node-2'', wt_server_ca = ca_of ex_generator, wt_mode = Cert_Required,
      wt_refused = Some SSLError, wt_reply = Inr 200\<rparr>"

definition join_lab :: "unit lab" where
  "join_lab = (printing_lab (printed [] None))
     \<lparr>lb_exec := (\<lambda>node_id code timeout w.
        (Inr (printed [] (case code of
           No_Cert \<Rightarrow> no_cert_program (\<lambda>e. ''SSLError'') (gen_certs_main ex_generator []) join_wire 5
         | _ \<Rightarrow> rogue_cert_program (\<lambda>e. ''SSLError'') (gen_certs_main ex_generator []) join_wire 99 1 5)), w))\<rparr>"

theorem unauthorized_join_prevented_witness:
  "(\<exists>r1 r2. scenario_1 join_lab ex_ctx () = (Inr [r1, r2], ()) \<and> rs_prevented r1 \<and> rs_prevented r2) \<and>
   \<not> kept_out (join_report (\<lambda>e. ''SSLError'')
     (probe_bytes join_wire \<lparr>tc_ca = ca_of ex_generator, tc_client = Some (chain_of ex_generator ''node-1'')\<rparr> 5))"
proof -
  have fresh: "fresh_enough ex_generator 5" by (auto simp: fresh_enough_def ex_generator_def validity_def)
  have wire: "wt_mode join_wire = Cert_Required" "wt_server_ca join_wire = ca_of ex_generator" "wt_reach join_wire = None"
      "wt_server join_wire = chain_of ex_generator ''node-2''" "wt_reply join_wire = Inr 200"
    by (simp_all add: join_wire_def)
  show ?thesis
    using unauthorized_join_prevented [of "[]" join_wire ex_generator join_lab "()" "[]" "\<lambda>e. ''SSLError''" 5 "()" 99 1 "()" ex_ctx 200]
      fresh wire
    by (simp add: join_lab_def)
qed

text \<open>
  The verdict is that no response was reported: a piece of Python that could not run at all, in a container
  without the certificates or without the libraries, or a server that is down, counts as prevented too.
\<close>

lemma scenario_1_vacuous:
  assumes "\<And>code u. \<exists>o'. exec_snippet lab ''node-1'' code 20 u = (Inr o', u) \<and> map_of o' ''connected'' = None"
  shows "\<exists>r1 r2. scenario_1 lab cx w = (Inr [r1, r2], w) \<and> rs_prevented r1 \<and> rs_prevented r2"
proof -
  obtain o1 o2 where "exec_snippet lab ''node-1'' No_Cert 20 w = (Inr o1, w)" "map_of o1 ''connected'' = None"
      "exec_snippet lab ''node-1'' Rogue_Cert 20 w = (Inr o2, w)" "map_of o2 ''connected'' = None"
    using assms by metis
  with scenario_1_verdict [of lab w o1 w o2 w cx] show ?thesis by (auto simp: kept_out_def got_def)
qed

end
