(* ===== verification/Relay.thy ===== *)
theory Relay
  imports Adversary Api
begin

section \<open>A relay that freezes a counter\<close>

text \<open>
  The pieces of Python of scenario 3 of \<open>scripts/adversarial_scenarios.py\<close> on a cluster: node-2 posts a
  gossip table with the counter 1 for node-3 to node-1, again and again, between two checks of the health
  of node-3 and two timed writes at node-1.

  A table with a counter that is not higher than the recorded one changes nothing, so the relayed messages
  are inert: what node-1 believes about node-3 is what the other messages make it believe.
\<close>

subsection \<open>The programs\<close>

definition frozen_table :: "(node_id, int) dict" where
  "frozen_table = [(''node-3'', 1)]"

definition post_gossip :: "net \<Rightarrow> node_id \<times> (node_id, int) dict \<times> real \<Rightarrow> cluster \<Rightarrow> cluster" where
  "post_gossip nt = (\<lambda>(sender, table, now) c.
     c(''node-1'' := snd (serve nt (PostGossip sender table now) (c ''node-1''))))"

text \<open>An exception of the post is swallowed: \<open>delivered\<close> says whether node-1 got the request.\<close>

definition relay_program :: "net \<Rightarrow> bool \<Rightarrow> real \<Rightarrow> cluster \<Rightarrow> (string, json) dict option \<times> cluster" where
  "relay_program nt delivered now c =
     (Some [(''sent'', JBool True)], if delivered then post_gossip nt (''node-2'', frozen_table, now) c else c)"

text \<open>The health check of node-3, which raises when node-3 cannot be reached.\<close>

definition health_program :: "bool \<Rightarrow> world \<Rightarrow> (string, json) dict option" where
  "health_program up w =
     (if up then
        let resp = (200, health_json (healthz ''node-3'' w)) in Some [(''status'', JInt (int (fst resp)))]
      else None)"

text \<open>The write that is timed; its answer is not looked at.\<close>

definition timed_put :: "key \<Rightarrow> string \<Rightarrow> http_call" where
  "timed_put k tok =
     \<lparr>hc_method = ''PUT'', hc_url = ''https://localhost:8000/v1/keys/'' @ k,
      hc_authorization = Some (''Bearer '' @ tok), hc_body = Some (JObj [(''value'', JStr ''probe'')])\<rparr>"

subsection \<open>The relayed messages are inert\<close>

text \<open>Node-1 has a counter of at least 1 for node-3: it has heard of node-3 since node-3 started.\<close>

definition heard_of_node_3 :: "gossip_state \<Rightarrow> bool" where
  "heard_of_node_3 g \<longleftrightarrow> gs_node_id g \<noteq> ''node-3'' \<and> (\<exists>n. counter_of g ''node-3'' = Some n \<and> 1 \<le> n)"

lemma frozen_merge: "heard_of_node_3 g \<Longrightarrow> merge_wire now frozen_table g = g"
  by (auto simp: heard_of_node_3_def merge_wire_def frozen_table_def counter_of_def split: option.splits)

lemma heard_merge: "heard_of_node_3 g \<Longrightarrow> dict_ok table \<Longrightarrow> heard_of_node_3 (merge_wire now table g)"
  by (auto simp: heard_of_node_3_def counter_of_def merge_wire_lookup merge_entry_def split: option.splits)

lemma post_gossip_state:
  "nd_gossip (post_gossip nt (sender, table, now) c ''node-1'') = merge_wire now table (nd_gossip (c ''node-1''))"
  by (simp add: post_gossip_def gossip_endpoint_def handle_gossip_def Let_def)

lemma post_frozen: "heard_of_node_3 (nd_gossip (c ''node-1'')) \<Longrightarrow> post_gossip nt (sender, frozen_table, now) c = c"
  by (simp add: post_gossip_def gossip_endpoint_def handle_gossip_def frozen_merge Let_def fun_upd_idem_iff)

text \<open>C31. The relay of scenario 3 has no effect of its own. Once node-1 has heard of node-3, every message
  with the frozen counter, whoever sends it and whenever, leaves the cluster as it is: a run of gossip
  messages ends as the run without them does, so node-1 comes to suspect node-3 exactly when it does
  without the relay.\<close>

theorem frozen_relays_inert:
  assumes "heard_of_node_3 (nd_gossip (c ''node-1''))" "\<forall>(sender, table, now) \<in> set ms. dict_ok table"
  shows "fold (post_gossip nt) ms c = fold (post_gossip nt) (filter (\<lambda>(sender, table, now). table \<noteq> frozen_table) ms) c"
  using assms
proof (induction ms arbitrary: c)
  case (Cons x ms)
  obtain sender table now where x: "x = (sender, table, now)" by (cases x) auto
  have rest: "\<forall>(sender, table, now) \<in> set ms. dict_ok table" and "dict_ok table" using Cons.prems(2) by (simp_all add: x)
  then have heard: "heard_of_node_3 (nd_gossip (post_gossip nt x c ''node-1''))"
    using heard_merge [OF Cons.prems(1)] by (simp add: x post_gossip_state)
  show ?case
    using Cons.IH [where c = "post_gossip nt x c", OF heard rest] post_frozen [where c = c, OF Cons.prems(1)] by (simp add: x)
qed simp

theorem frozen_relays_inert_witness:
  "fold (post_gossip ex_net) [(''node-2'', frozen_table, 5), (''node-2'', [(''node-3'', 8)], 6), (''node-2'', frozen_table, 7)]
     (lab_cluster(''node-1'' := (lab_cluster ''node-1'')
        \<lparr>nd_gossip := merge_wire 1 [(''node-3'', 7)] (gossip_init ''node-1'' 0)\<rparr>)) =
   fold (post_gossip ex_net) [(''node-2'', [(''node-3'', 8)], 6)]
     (lab_cluster(''node-1'' := (lab_cluster ''node-1'')
        \<lparr>nd_gossip := merge_wire 1 [(''node-3'', 7)] (gossip_init ''node-1'' 0)\<rparr>))"
proof -
  let ?c = "lab_cluster(''node-1'' := (lab_cluster ''node-1'')\<lparr>nd_gossip := merge_wire 1 [(''node-3'', 7)] (gossip_init ''node-1'' 0)\<rparr>)"
  have "heard_of_node_3 (nd_gossip (?c ''node-1''))"
    by (simp add: heard_of_node_3_def counter_of_def gossip_init_def merge_wire_def)
  from frozen_relays_inert [where c = ?c and nt = ex_net, OF this, of "[(''node-2'', frozen_table, 5), (''node-2'', [(''node-3'', 8)], 6), (''node-2'', frozen_table, 7)]"]
  show ?thesis by (simp add: frozen_table_def)
qed

text \<open>
  In the laboratory, the whole loop of the relay leaves the cluster alone: the process of node-2 goes on
  gossiping the true counter meanwhile, and nothing that the scenario sends keeps it from node-1.
\<close>

definition relay_lab :: "('w \<Rightarrow> cluster) \<Rightarrow> net \<Rightarrow> 'w lab \<Rightarrow> bool" where
  "relay_lab cluster_at nt lab \<longleftrightarrow>
     (\<forall>w. \<exists>d now tb out c. relay_program nt d now (cluster_at w) = (out, c) \<and>
        (\<exists>w'. lb_exec lab ''node-2'' Relay_Frozen 8 w = (Inr (printed tb out), w') \<and> cluster_at w' = c)) \<and>
     (\<forall>w. cluster_at (snd (lb_clock lab w)) = cluster_at w) \<and> (\<forall>s w. cluster_at (lb_sleep lab s w) = cluster_at w)"

lemma relay_loop_inert:
  assumes "relay_lab cluster_at nt lab"
  shows "heard_of_node_3 (nd_gossip (cluster_at w ''node-1'')) \<Longrightarrow>
    \<exists>w'. relay_loop n lab deadline w = (Inr (), w') \<and> cluster_at w' = cluster_at w"
proof (induction n arbitrary: w)
  case (Suc n)
  obtain now w1 where clock: "lb_clock lab w = (now, w1)" by force
  have w1: "cluster_at w1 = cluster_at w" using assms clock unfolding relay_lab_def by (metis snd_conv)
  obtain d t tb out c w2 where relay: "relay_program nt d t (cluster_at w1) = (out, c)"
      "lb_exec lab ''node-2'' Relay_Frozen 8 w1 = (Inr (printed tb out), w2)" "cluster_at w2 = c"
    using assms unfolding relay_lab_def by blast
  have out: "out = Some [(''sent'', JBool True)]" "cluster_at w2 = cluster_at w"
    using relay(1,3) post_frozen [of "cluster_at w1"] Suc.prems by (auto simp: relay_program_def w1 split: if_splits)
  have exec: "exec_snippet lab ''node-2'' Relay_Frozen 8 w1 = (Inr [(''sent'', JBool True), (''_returncode'', JInt 0)], w2)"
    using exec_printed [OF relay(2)] by (simp add: out(1) parse_printed)
  have slept: "cluster_at (lb_sleep lab (1 / 2) w2) = cluster_at w" using assms out(2) unfolding relay_lab_def by simp
  show ?case
    using Suc.IH [of "lb_sleep lab (1 / 2) w2"] Suc.prems slept w1
    by (simp add: seq_def read_off_def clock exec doing_def return_it_def)
qed (simp add: return_it_def)

end
