(* ===== verification/At_Rest.thy ===== *)
theory At_Rest
  imports Adversary
begin

section \<open>Attacks on the data at rest\<close>

text \<open>
  The pieces of Python of scenarios 7 and 8 of \<open>scripts/adversarial_scenarios.py\<close>, which work on the
  database file of node-1: the rows of the \<open>SqliteStorage\<close> inside its \<open>EncryptedStorage\<close>. Scenario 7
  decrypts a row with a new key and with the key of the node; scenario 8 flips the first byte of a
  ciphertext, writes the envelope back and reads the key from node-1 alone.

  A piece that raises prints nothing (\<open>None\<close>). The class name of an exception and the text of a response
  are parameters, as is the cipher of a key.
\<close>

subsection \<open>The programs\<close>

definition stored_fields :: "string \<Rightarrow> py_error + json \<times> bytes \<times> bytes" where
  "stored_fields row =
     and_then (loads row) (\<lambda>envelope.
     and_then (b64_field envelope ''nonce'') (\<lambda>nonce.
     and_then (b64_field envelope ''ciphertext'') (\<lambda>ciphertext. Inr (envelope, nonce, ciphertext))))"

definition wrong_key_report :: "(py_error \<Rightarrow> string) \<Rightarrow> py_error + bytes \<Rightarrow> (string, json) dict" where
  "wrong_key_report type_name decrypted =
     (case decrypted of
        Inr p \<Rightarrow> [(''wrong_key_decrypted'', JBool True)]
      | Inl e \<Rightarrow> [(''wrong_key_decrypted'', JBool False), (''wrong_key_error'', JStr (type_name e))])"

definition wrong_key_program ::
  "(py_error \<Rightarrow> string) \<Rightarrow> aesgcm \<Rightarrow> aesgcm \<Rightarrow> key \<Rightarrow> sqlite_storage \<Rightarrow> (string, json) dict option" where
  "wrong_key_program type_name wrong real_cipher k db =
     (case map_of (ss_kv db) k of
        None \<Rightarrow> Some [(''error'', JStr ''key not found on node-1 (may not be a replica for this key)'')]
      | Some row \<Rightarrow>
          (case stored_fields row of
             Inl e \<Rightarrow> None
           | Inr (envelope, nonce, ciphertext) \<Rightarrow>
               (case and_then (aes_decrypt real_cipher nonce ciphertext) loads_bytes of
                  Inl e \<Rightarrow> None
                | Inr plain \<Rightarrow>
                    Some (wrong_key_report type_name (aes_decrypt wrong nonce ciphertext)
                      @ [(''real_key_recovered_value'', plain)]))))"

definition flip_first :: "bytes \<Rightarrow> bytes" where
  "flip_first bs = (case bs of [] \<Rightarrow> [] | b # rest \<Rightarrow> xor b 0xFF # rest)"

definition tampered_row :: "string \<Rightarrow> py_error + string" where
  "tampered_row row =
     and_then (loads row) (\<lambda>envelope.
     and_then (b64_field envelope ''ciphertext'') (\<lambda>ciphertext.
       case (ciphertext, envelope) of
         ([], _) \<Rightarrow> Inl IndexError
       | (_, JObj d) \<Rightarrow> Inr (dumps (JObj (dict_put ''ciphertext'' (JStr (b64encode (flip_first ciphertext))) d)))
       | _ \<Rightarrow> Inl TypeError))"

definition tamper_program :: "key \<Rightarrow> sqlite_storage \<Rightarrow> (string, json) dict option \<times> sqlite_storage" where
  "tamper_program k db =
     (case map_of (ss_kv db) k of
        None \<Rightarrow> (Some [(''error'', JStr ''key not found on node-1'')], db)
      | Some row \<Rightarrow>
          (case tampered_row row of
             Inl e \<Rightarrow> (None, db)
           | Inr row' \<Rightarrow> (Some [(''tampered'', JBool True)], db\<lparr>ss_kv := dict_put k row' (ss_kv db)\<rparr>)))"

text \<open>\<open>failed\<close>: what the request raises, if it does.\<close>

definition read_replica_program ::
  "net \<Rightarrow> (response \<Rightarrow> string) \<Rightarrow> (py_error \<Rightarrow> string) \<Rightarrow> py_error option \<Rightarrow> key \<Rightarrow> node \<Rightarrow> (string, json) dict option" where
  "read_replica_program nt resp_text type_name failed k nd =
     (case failed of
        None \<Rightarrow>
          (let resp = fst (serve nt (GetKey k) nd)
           in Some [(''status'', JInt (int (fst resp))), (''body'', JStr (take 300 (resp_text resp)))])
      | Some e \<Rightarrow> Some [(''status'', JNull), (''error'', JStr (type_name e))])"

text \<open>Seeding prints the same whatever the put gave; it stores nothing when the API does not accept the token.\<close>

definition seed_program ::
  "(string \<Rightarrow> bytes) \<Rightarrow> net \<Rightarrow> bool \<Rightarrow> real \<Rightarrow> node_id list \<Rightarrow> key \<Rightarrow> string \<Rightarrow> cluster \<Rightarrow>
     (string, json) dict option \<times> cluster" where
  "seed_program D nt accepted now prefs k val c =
     (Some [(''seeded'', JBool True)], if accepted then snd (settled_put D nt ''node-1'' k (JStr val) now prefs c) else c)"

subsection \<open>A node with an encrypted database\<close>

definition encrypted_node :: "aesgcm \<Rightarrow> node \<Rightarrow> bool" where
  "encrypted_node a nd \<longleftrightarrow> (\<exists>db u i. nd_storage nd = Encrypted (Sqlite db) a u i)"

definition with_database :: "sqlite_storage \<Rightarrow> node \<Rightarrow> node" where
  "with_database db nd =
     (case nd_storage nd of
        Encrypted (Sqlite old) a u i \<Rightarrow> nd\<lparr>nd_storage := Encrypted (Sqlite db) a u i\<rparr>
      | _ \<Rightarrow> nd)"

definition database :: "node \<Rightarrow> sqlite_storage" where
  "database nd = (case nd_storage nd of Encrypted (Sqlite db) a u i \<Rightarrow> db | _ \<Rightarrow> sqlite_new '''')"

lemma encrypted_perform:
  "encrypted_node a (c m) \<Longrightarrow> store_action act \<Longrightarrow> encrypted_node a (perform act c m)"
  by (cases act)
     (auto simp: encrypted_node_def put_local_def delete_local_def Let_def map_prod_def split: sum.splits prod.splits)

lemma encrypted_run:
  "encrypted_node a (c m) \<Longrightarrow> \<forall>act \<in> set acts. store_action act \<Longrightarrow> encrypted_node a (run acts c m)"
  by (induction acts arbitrary: c) (simp_all add: encrypted_perform del: perform.simps)

text \<open>The row of a key that the node holds: an envelope whose ciphertext decrypts to the versions.\<close>

lemma stored_row:
  assumes "node_ok nd" "encrypted_node a nd" "siblings nd k \<noteq> []"
  shows "\<exists>row d n ct p. map_of (ss_kv (database nd)) k = Some row \<and> loads row = Inr (JObj d) \<and>
    b64_field (JObj d) ''nonce'' = Inr n \<and> b64_field (JObj d) ''ciphertext'' = Inr ct \<and>
    aes_decrypt a n ct = Inr p \<and> loads_bytes p = Inr (siblings_json (siblings nd k))"
proof -
  obtain db u i where s: "nd_storage nd = Encrypted (Sqlite db) a u i" using assms(2) by (auto simp: encrypted_node_def)
  have "storage_map (nd_storage nd) k = Some (siblings_json (siblings nd k))"
    using storage_map_siblings [OF assms(1), of k] assms(3) by (simp add: data_row_def)
  then obtain e where e: "sqlite_map db k = Some e" "unseal a e = Inr (siblings_json (siblings nd k))"
    by (auto simp: s split: option.splits sum.splits)
  then obtain row where row: "map_of (ss_kv db) k = Some row" "loads row = Inr e"
    by (auto simp: sqlite_map_def split: option.splits sum.splits)
  obtain n ct p where f: "b64_field e ''nonce'' = Inr n" "b64_field e ''ciphertext'' = Inr ct" "aes_decrypt a n ct = Inr p"
      "loads_bytes p = Inr (siblings_json (siblings nd k))"
    using e(2) by (auto simp: unseal_def split: sum.splits)
  obtain d where "e = JObj d" using f(1) by (cases e) (auto simp: b64_field_def subscript_def)
  then show ?thesis using row f by (auto simp: database_def s)
qed

lemma flip_first_neq: "bs \<noteq> [] \<Longrightarrow> flip_first bs \<noteq> bs"
proof -
  have "xor b 0xFF \<noteq> b" for b :: "8 word"
  proof
    assume "xor b 0xFF = b"
    then have "xor b (xor b 0xFF) = 0" by simp
    then show False by (simp add: xor.assoc [symmetric])
  qed
  then show "bs \<noteq> [] \<Longrightarrow> flip_first bs \<noteq> bs" by (cases bs) (simp_all add: flip_first_def)
qed

text \<open>The envelope after the flip: the same nonce, the flipped ciphertext.\<close>

lemma tampered_row_fields:
  assumes "loads row = Inr (JObj d)" "b64_field (JObj d) ''nonce'' = Inr n" "b64_field (JObj d) ''ciphertext'' = Inr ct" "ct \<noteq> []"
  shows "\<exists>row' d'. tampered_row row = Inr row' \<and> loads row' = Inr (JObj d') \<and> b64_field (JObj d') ''nonce'' = Inr n \<and>
    b64_field (JObj d') ''ciphertext'' = Inr (flip_first ct)"
proof -
  let ?d = "dict_put ''ciphertext'' (JStr (b64encode (flip_first ct))) d"
  have "json_ok (JObj d)" using assms(1) by (rule loads_json_ok)
  then have "json_ok (JObj ?d)"
    using dict_put_subset [of "''ciphertext''" "JStr (b64encode (flip_first ct))" d] by (fastforce simp: list_all_iff)
  then have "loads (dumps (JObj ?d)) = Inr (JObj ?d)" by (rule loads_dumps)
  moreover have "tampered_row row = Inr (dumps (JObj ?d))"
    using assms by (cases ct) (simp_all add: tampered_row_def)
  moreover have "b64_field (JObj ?d) ''nonce'' = Inr n" using assms(2) by (simp add: b64_field_def subscript_def)
  moreover have "b64_field (JObj ?d) ''ciphertext'' = Inr (flip_first ct)" by (simp add: b64_field_def subscript_def)
  ultimately show ?thesis by blast
qed

subsection \<open>Reading the flipped replica\<close>

text \<open>The ciphertext in the row of a key is a genuine one, and so is the flipped one.\<close>

definition collides_at :: "aesgcm \<Rightarrow> key \<Rightarrow> sqlite_storage \<Rightarrow> bool" where
  "collides_at a k db \<longleftrightarrow>
     (\<exists>row e n p p'. map_of (ss_kv db) k = Some row \<and> stored_fields row = Inr (e, n, aes_encrypt a n p) \<and> p \<noteq> p' \<and>
        flip_first (aes_encrypt a n p) = aes_encrypt a n p')"

lemma tampered_read:
  assumes ok: "node_ok nd" "encrypted_node a nd" "siblings nd k \<noteq> []"
    and cipher: "aes_authentic a" "\<And>n p. aes_encrypt a n p \<noteq> []" and wire: "net_wire nt k = Some k"
    and run: "tamper_program k (database nd) = (out, db)"
  shows "out = Some [(''tampered'', JBool True)] \<and>
    (fst (fst (serve nt (GetKey k) (with_database db nd))) = 500 \<or>
     collides_at a k (database nd))"
proof -
  obtain u i where s: "nd_storage nd = Encrypted (Sqlite (database nd)) a u i"
    using ok(2) by (auto simp: encrypted_node_def database_def)
  obtain row d n ct p where row: "map_of (ss_kv (database nd)) k = Some row" "loads row = Inr (JObj d)"
      "b64_field (JObj d) ''nonce'' = Inr n" "b64_field (JObj d) ''ciphertext'' = Inr ct" "aes_decrypt a n ct = Inr p"
    using stored_row [OF ok] by blast
  have ct: "ct = aes_encrypt a n p" using cipher(1) row(5) by (simp add: aes_authentic_def)
  then have "ct \<noteq> []" using cipher(2) by simp
  then obtain row' d' where row': "tampered_row row = Inr row'" "loads row' = Inr (JObj d')"
      "b64_field (JObj d') ''nonce'' = Inr n" "b64_field (JObj d') ''ciphertext'' = Inr (flip_first ct)"
    using tampered_row_fields [OF row(2-4)] by blast
  have out: "out = Some [(''tampered'', JBool True)]" "db = (database nd)\<lparr>ss_kv := dict_put k row' (ss_kv (database nd))\<rparr>"
    using run by (simp_all add: tamper_program_def row(1) row'(1))
  have nd': "nd_storage (with_database db nd) = Encrypted (Sqlite db) a u i" by (simp add: with_database_def s)
  have get: "st_get (Encrypted (Sqlite db) a u i) k = unseal a (JObj d')"
    by (simp add: sqlite_get_def out(2) row'(2))
  show ?thesis
  proof (cases "aes_decrypt a n (flip_first ct)")
    case (Inl e)
    then have "get_local (with_database db nd) k = Inl e"
      by (simp add: get_local_def nd' get unseal_def row' del: st_get.simps)
    then show ?thesis using out(1) by (simp add: on_route_def wire get_key_local_def)
  next
    case (Inr p')
    then have "flip_first ct = aes_encrypt a n p'" using cipher(1) by (simp add: aes_authentic_def)
    moreover from this have "p \<noteq> p'" using flip_first_neq [OF \<open>ct \<noteq> []\<close>] ct by auto
    moreover have "stored_fields row = Inr (JObj d, n, aes_encrypt a n p)"
      using row(2-4) by (simp add: stored_fields_def and_then_def ct)
    ultimately have "collides_at a k (database nd)" using row(1) ct unfolding collides_at_def by blast
    then show ?thesis using out(1) by blast
  qed
qed

lemma scenario_8_verdict:
  assumes "exec_snippet lab ''node-1'' (Seed ''tamper-probe-key'' ''tamper-me'' (first_token cx)) 20 w = (Inr o1, w1)"
    and "exec_snippet lab ''node-1'' (Tamper ''tamper-probe-key'') 20 w1 = (Inr o2, w2)"
    and "exec_snippet lab ''node-1'' (Read_Replica ''tamper-probe-key'') 20 w2 = (Inr o3, w3)"
  shows "\<exists>r. scenario_8 lab cx w = (Inr [r], w3) \<and> (rs_prevented r \<longleftrightarrow> map_of o3 ''status'' \<noteq> Some (JInt 200))"
  using assms by (simp add: scenario_8_def seq_def return_it_def verdict_def Let_def)

text \<open>C28. Scenario 8 tells the truth about altered data at rest. On a calm cluster whose node-1 keeps its
  data encrypted by an authenticating cipher, it seeds its key with a token that the API accepts, flips a byte of the stored ciphertext, and
  reads node-1; it reports that the tampering was caught, also when the read fails, unless the flipped
  text of that row happens to be a genuine encryption of other data under the same nonce.\<close>

theorem tampering_is_caught:
  assumes "calm D nt ''node-1'' ''tamper-probe-key'' now prefs c" "all_hold prefs ''tamper-probe-key'' vs c"
    and "vs = [] \<or> (\<exists>u. vs = [u])" "''node-1'' \<in> set prefs" "encrypted_node a (c ''node-1'')"
    and "aes_authentic a" "\<And>n p. aes_encrypt a n p \<noteq> []"
    and "seed_program D nt True now prefs ''tamper-probe-key'' ''tamper-me'' c = (out1, c1)"
    and "tamper_program ''tamper-probe-key'' (database (c1 ''node-1'')) = (out2, db)"
    and "read_replica_program nt resp_text type_name failed ''tamper-probe-key'' (with_database db (c1 ''node-1'')) = out3"
    and "lb_exec lab ''node-1'' (Seed ''tamper-probe-key'' ''tamper-me'' (first_token cx)) 20 w = (Inr (printed tb out1), w1)"
    and "lb_exec lab ''node-1'' (Tamper ''tamper-probe-key'') 20 w1 = (Inr (printed tb out2), w2)"
    and "lb_exec lab ''node-1'' (Read_Replica ''tamper-probe-key'') 20 w2 = (Inr (printed tb out3), w3)"
  shows "\<exists>r. scenario_8 lab cx w = (Inr [r], w3) \<and> out2 = Some [(''tampered'', JBool True)] \<and>
    (rs_prevented r \<or> collides_at a ''tamper-probe-key'' (database (c1 ''node-1'')))"
proof -
  let ?k = "''tamper-probe-key''" and ?v = "next_version ''node-1'' (JStr ''tamper-me'') vs"
  have c1: "settled_put D nt ''node-1'' ?k (JStr ''tamper-me'') now prefs c = (Inr ?v, c1)" "c1 = run (puts ?k ?v prefs) c"
      "calm D nt ''node-1'' ?k now prefs c1" "all_hold prefs ?k [?v] c1"
    using settled_put_holds [OF assms(1-3), of "JStr ''tamper-me''"] settled_put_effect [OF assms(1-3), of "JStr ''tamper-me''"]
      assms(8) by (auto simp: seed_program_def)
  have "\<forall>act \<in> set (puts ?k ?v prefs). store_action act" using version_ok_next [of "JStr ''tamper-me''"] by (auto simp: puts_def)
  then have enc: "encrypted_node a (c1 ''node-1'')" unfolding c1(2) using assms(5) by (intro encrypted_run)
  have ok: "node_ok (c1 ''node-1'')" by (rule cluster_okD [OF calm_ok [OF c1(3)]])
  have held: "siblings (c1 ''node-1'') ?k \<noteq> []" using c1(4) assms(4) by (simp add: all_hold_def)
  have wire: "net_wire nt ?k = Some ?k" using c1(3) by (simp add: calm_def wired_def)
  note read = tampered_read [OF ok enc held assms(6,7) wire assms(9)]
  define status where "status = fst (fst (serve nt (GetKey ?k) (with_database db (c1 ''node-1''))))"
  obtain o3 where out3: "out3 = Some o3" "json_ok (JObj o3)" "map_of o3 ''_returncode'' = None"
      "map_of o3 ''status'' = Some (if failed = None then JInt (int status) else JNull)"
    using assms(10) by (auto simp: read_replica_program_def Let_def status_def split: option.splits)
  have 1: "exec_snippet lab ''node-1'' (Seed ?k ''tamper-me'' (first_token cx)) 20 w =
      (Inr [(''seeded'', JBool True), (''_returncode'', JInt 0)], w1)"
    using exec_printed [OF assms(11)] assms(8) by (auto simp: seed_program_def parse_printed)
  have 2: "exec_snippet lab ''node-1'' (Tamper ?k) 20 w1 = (Inr [(''tampered'', JBool True), (''_returncode'', JInt 0)], w2)"
    using exec_printed [OF assms(12)] read by (simp add: parse_printed)
  have 3: "exec_snippet lab ''node-1'' (Read_Replica ?k) 20 w2 =
      (Inr (dict_put ''_returncode'' (JInt 0) o3), w3)"
    using exec_printed [OF assms(13) [unfolded out3(1)] parse_printed [OF out3(2)]] .
  obtain r where "scenario_8 lab cx w = (Inr [r], w3)" "rs_prevented r \<longleftrightarrow> failed \<noteq> None \<or> status \<noteq> 200"
    using scenario_8_verdict [OF 1 2 3] out3(4) by (fastforce split: if_splits)
  then show ?thesis using read by (auto simp: status_def)
qed

text \<open>The verdict only looks for status 200, so a run in which nothing was tampered with, because the
  key had no row, and the read failed or found nothing, is reported as an attack that was prevented.\<close>

lemma scenario_8_vacuous:
  assumes "exec_snippet lab ''node-1'' (Seed ''tamper-probe-key'' ''tamper-me'' (first_token cx)) 20 w = (Inr o1, w1)"
    and "exec_snippet lab ''node-1'' (Tamper ''tamper-probe-key'') 20 w1 = (Inr [(''error'', JStr e), (''_returncode'', JInt 0)], w2)"
    and "exec_snippet lab ''node-1'' (Read_Replica ''tamper-probe-key'') 20 w2 = (Inr o3, w3)" "map_of o3 ''status'' \<noteq> Some (JInt 200)"
  shows "\<exists>r. scenario_8 lab cx w = (Inr [r], w3) \<and> rs_prevented r"
  using scenario_8_verdict [OF assms(1-3)] assms(4) by blast

text \<open>
  Scenario 7. The evidence holds the versions that the node stored, whatever the new key does; the
  verdict is that the new key was rejected, which an authenticating cipher guarantees unless the stored
  text happens to be an encryption under the new key as well. When node-1 has no row for the key, the
  piece reports an error and the scenario calls that a leak.
\<close>

lemma wrong_key_result:
  assumes ok: "node_ok nd" "encrypted_node a nd" "siblings nd k \<noteq> []" and cipher: "aes_authentic a" "aes_authentic wrong"
  shows "\<exists>n p. wrong_key_program type_name wrong a k (database nd) =
      Some (wrong_key_report type_name (aes_decrypt wrong n (aes_encrypt a n p))
        @ [(''real_key_recovered_value'', siblings_json (siblings nd k))]) \<and>
    ((\<forall>p'. aes_encrypt wrong n p' \<noteq> aes_encrypt a n p) \<longrightarrow> isl (aes_decrypt wrong n (aes_encrypt a n p)))"
proof -
  obtain row d n ct p where row: "map_of (ss_kv (database nd)) k = Some row" "loads row = Inr (JObj d)"
      "b64_field (JObj d) ''nonce'' = Inr n" "b64_field (JObj d) ''ciphertext'' = Inr ct" "aes_decrypt a n ct = Inr p"
      "loads_bytes p = Inr (siblings_json (siblings nd k))"
    using stored_row [OF ok] by blast
  have ct: "ct = aes_encrypt a n p" using cipher(1) row(5) by (simp add: aes_authentic_def)
  have "wrong_key_program type_name wrong a k (database nd) =
      Some (wrong_key_report type_name (aes_decrypt wrong n ct) @ [(''real_key_recovered_value'', siblings_json (siblings nd k))])"
    using row by (simp add: wrong_key_program_def stored_fields_def)
  moreover have "(\<forall>p'. aes_encrypt wrong n p' \<noteq> ct) \<longrightarrow> isl (aes_decrypt wrong n ct)"
    using cipher(2) by (cases "aes_decrypt wrong n ct") (auto simp: aes_authentic_def)
  ultimately show ?thesis unfolding ct by blast
qed

lemma scenario_7_verdict:
  assumes "exec_snippet lab ''node-1'' (Seed ''crypto-probe-key'' ''top-secret-value'' (first_token cx)) 20 w = (Inr o1, w1)"
    and "exec_snippet lab ''node-1'' (Wrong_Key ''crypto-probe-key'') 20 w1 = (Inr o2, w2)"
  shows "\<exists>r. scenario_7 lab cx w = (Inr [r], w2) \<and> (rs_prevented r \<longleftrightarrow> map_of o2 ''wrong_key_decrypted'' = Some (JBool False))"
  using assms by (simp add: scenario_7_def seq_def return_it_def verdict_def Let_def)

lemma scenario_7_missing_row:
  assumes "map_of (ss_kv db) ''crypto-probe-key'' = None"
    and "exec_snippet lab ''node-1'' (Seed ''crypto-probe-key'' ''top-secret-value'' (first_token cx)) 20 w = (Inr o1, w1)"
    and "lb_exec lab ''node-1'' (Wrong_Key ''crypto-probe-key'') 20 w1 =
      (Inr (printed tb (wrong_key_program type_name wrong a ''crypto-probe-key'' db)), w2)"
  shows "\<exists>r. scenario_7 lab cx w = (Inr [r], w2) \<and> \<not> rs_prevented r"
proof -
  have "exec_snippet lab ''node-1'' (Wrong_Key ''crypto-probe-key'') 20 w1 =
      (Inr [(''error'', JStr ''key not found on node-1 (may not be a replica for this key)''), (''_returncode'', JInt 0)], w2)"
    using exec_printed [OF assms(3)] assms(1) by (simp add: wrong_key_program_def parse_printed)
  from scenario_7_verdict [OF assms(2) this] show ?thesis by auto
qed

subsection \<open>A laboratory with encrypted nodes\<close>

text \<open>A cipher that authenticates by repeating the plaintext.\<close>

definition echo_cipher :: aesgcm where
  "echo_cipher =
     \<lparr>aes_encrypt = (\<lambda>nonce p. p @ p @ [0]),
      aes_decrypt = (\<lambda>nonce c. let p = take (length c div 2) c in if c = p @ p @ [0] then Inr p else Inl InvalidTag)\<rparr>"

lemma echo_cipher_ok: "aes_correct echo_cipher" "aes_authentic echo_cipher" "aes_encrypt echo_cipher n p \<noteq> []"
  by (auto simp: aes_correct_def aes_authentic_def echo_cipher_def Let_def split: if_splits)

lemma echo_cipher_flip: "flip_first (aes_encrypt echo_cipher n p) \<noteq> aes_encrypt echo_cipher n p'"
proof (cases "p = []")
  case True
  then show ?thesis by (auto simp: echo_cipher_def flip_first_def append_eq_Cons_conv)
next
  case p: False
  show ?thesis
  proof
    assume eq: "flip_first (aes_encrypt echo_cipher n p) = aes_encrypt echo_cipher n p'"
    then have f: "flip_first p @ p @ [0] = p' @ p' @ [0]" using p by (cases p) (simp_all add: echo_cipher_def flip_first_def)
    have "length (flip_first p) = length p" by (cases p) (simp_all add: flip_first_def)
    moreover have "length (flip_first p @ p) = length (p' @ p')" using f by auto
    ultimately have "length (flip_first p) = length p'" by simp
    then have "flip_first p = p'" "p = p'" using f by (auto simp: append_eq_append_conv)
    then have "flip_first p = p" by metis
    then show False using flip_first_neq [OF p] by contradiction
  qed
qed

definition sealed_store :: storage where
  "sealed_store = Encrypted (Sqlite (sqlite_new ''data/node-1.db'')) echo_cipher (\<lambda>i. [word_of_nat i]) 0"

lemma sealed_store_ok: "storage_ok sealed_store" "storage_map sealed_store k = None"
  by (simp_all add: sealed_store_def echo_cipher_ok sqlite_ok_new) (simp_all add: sqlite_map_def sqlite_new_def)

text \<open>The laboratory runs the programs; its state is the cluster.\<close>

definition tamper_lab :: "cluster lab" where
  "tamper_lab =
     \<lparr>lb_exec = (\<lambda>node_id code timeout c.
        case code of
          Seed k val tok \<Rightarrow> apfst (\<lambda>out. Inr (printed [] out)) (seed_program lab_digest ex_net True 0 (lab_prefs k) k val c)
        | Tamper k \<Rightarrow>
            (case tamper_program k (database (c node_id)) of
               (out, db) \<Rightarrow> (Inr (printed [] out), c(node_id := with_database db (c node_id))))
        | Read_Replica k \<Rightarrow> (Inr (printed [] (read_replica_program ex_net (\<lambda>resp. []) (\<lambda>e. []) None k (c node_id))), c)
        | _ \<Rightarrow> (Inl TimeoutExpired, c)),
      lb_http = (\<lambda>call c. (Inr 200, c)), lb_override = (\<lambda>c. None), lb_set_override = (\<lambda>t c. c),
      lb_up = (\<lambda>c. (Inr (), c)), lb_clock = (\<lambda>c. (0, c)), lb_sleep = (\<lambda>s c. c),
      lb_repr = (\<lambda>x. ''0.0''), lb_two = (\<lambda>x. ''0.00'')\<rparr>"

theorem tampering_is_caught_witness:
  "\<exists>r c. scenario_8 tamper_lab ex_ctx (lab_node sealed_store) = (Inr [r], c) \<and> rs_prevented r"
proof -
  let ?k = "''tamper-probe-key''" and ?c = "lab_node sealed_store"
  have node: "''node-1'' \<in> set nodes_attacked" by (simp add: nodes_attacked_def)
  note calm = lab_node_calm [OF sealed_store_ok node, of ?k]
  have enc: "encrypted_node echo_cipher (?c ''node-1'')" by (simp add: encrypted_node_def lab_node_sel sealed_store_def)
  have mem: "''node-1'' \<in> set (lab_prefs ?k)" using calm(3) node by simp
  obtain out1 c1 where 1: "seed_program lab_digest ex_net True 0 (lab_prefs ?k) ?k ''tamper-me'' ?c = (out1, c1)" by force
  obtain out2 db where 2: "tamper_program ?k (database (c1 ''node-1'')) = (out2, db)" by force
  show ?thesis
    using tampering_is_caught [OF calm(1,2) disjI1 [OF refl] mem enc echo_cipher_ok(2,3) 1 2 refl,
        of tamper_lab ex_ctx ?c "[]" c1 "c1(''node-1'' := with_database db (c1 ''node-1''))" "\<lambda>resp. []"
          "\<lambda>e. []" None "c1(''node-1'' := with_database db (c1 ''node-1''))"]
    by (simp add: tamper_lab_def 1 2 collides_at_def echo_cipher_flip) blast
qed

end
