(* ===== verification/Auth_Probe.thy ===== *)
theory Auth_Probe
  imports Client_View
begin

section \<open>Probing the client authentication\<close>

text \<open>
  Scenario 9 of \<open>scripts/adversarial_scenarios.py\<close> against the served public application of node-1
  (\<open>Client_View\<close>): requests without a header, with a malformed one and with an unknown token, a write with
  a read-only token, and a write with the first token. The laboratory's state is the state of the system,
  and an HTTP call is a call of the system; a call that raises is answered 500 by the server. What a call
  leaves out completes before the scenario's next call: a hypothesis on the run (\<open>settled_call\<close>), since
  nothing in the program waits for it.
\<close>

definition auth_probe_key :: key where
  "auth_probe_key = ''auth-probe-key''"

definition probe_request :: "http_call \<Rightarrow> http_request" where
  "probe_request call =
     \<lparr>rq_method = hc_method call, rq_path = ''/v1/keys/'' @ auth_probe_key, rq_key = Some auth_probe_key,
      rq_headers = (case hc_authorization call of None \<Rightarrow> [] | Some h \<Rightarrow> [(''authorization'', h)]),
      rq_client = Some ''127.0.0.1''\<rparr>"

definition probe_op :: "http_call \<Rightarrow> client_op" where
  "probe_op call =
     (case hc_body call of
        Some (JObj d) \<Rightarrow> (case map_of d ''value'' of Some v \<Rightarrow> Write v | None \<Rightarrow> Read)
      | _ \<Rightarrow> Read)"

definition probe_call :: "system \<Rightarrow> timing \<Rightarrow> real \<Rightarrow> http_call \<Rightarrow> client_call" where
  "probe_call sy t now call =
     \<lparr>cc_at = ''node-1'', cc_request = probe_request call, cc_timing = t, cc_key = auth_probe_key, cc_op = probe_op call,
      cc_now = now, cc_first = sy_prefs sy auth_probe_key, cc_writes = sy_prefs sy auth_probe_key\<rparr>"

definition answer_status :: "answer \<Rightarrow> nat" where
  "answer_status ans = (case ans of Inl e \<Rightarrow> 500 | Inr resp \<Rightarrow> fst resp)"

definition settled_call :: "system \<Rightarrow> client_call \<Rightarrow> processes \<Rightarrow> answer \<times> processes" where
  "settled_call sy x s = apsnd (settle sy) (system_call sy x s)"

definition served_lab :: "system \<Rightarrow> timing \<Rightarrow> real \<Rightarrow> processes lab \<Rightarrow> bool" where
  "served_lab sy t now lab \<longleftrightarrow>
     (\<forall>call s. lb_http lab call s = apfst (\<lambda>ans. Inr (answer_status ans)) (settled_call sy (probe_call sy t now call) s))"

subsection \<open>The read-only token\<close>

lemma no_write_iff:
  "\<forall>v \<in> set vs. verbs_ok v \<Longrightarrow> no_write vs = Inr (\<forall>js. JArr js \<in> set vs \<longrightarrow> JStr ''write'' \<notin> set js)"
proof (induction vs)
  case (Cons v vs)
  then obtain js where "v = JArr js" by (cases v) auto
  then show ?case using Cons by (auto simp: contains_verb_def)
qed simp

lemma entry_values:
  assumes "entry_ok e"
  shows "\<exists>vs. namespace_values e = Inr vs \<and> (\<forall>v \<in> set vs. verbs_ok v) \<and>
    ((\<forall>js. JArr js \<in> set vs \<longrightarrow> JStr ''write'' \<notin> set js) \<longrightarrow> ''write'' \<notin> verbs_for e ns)"
proof -
  obtain d g where d: "e = JObj d" "map_of d ''namespaces'' = Some (JObj g)" "\<forall>(ns, v) \<in> set g. verbs_ok v"
    using assms by (cases e) auto
  have "namespace_values e = Inr (map snd g)" by (simp add: namespace_values_def get_or_def d)
  moreover have "\<forall>v \<in> set (map snd g). verbs_ok v" using d(3) by auto
  moreover have "''write'' \<notin> verbs_for e ns" if "\<forall>js. JArr js \<in> set (map snd g) \<longrightarrow> JStr ''write'' \<notin> set js"
    using that by (auto simp: verbs_for_def d split: option.splits json.splits dest!: map_of_SomeD) force
  ultimately show ?thesis by blast
qed

lemma readonly_token_found:
  assumes "\<forall>(tok, e) \<in> set toks. entry_ok e"
  shows "\<exists>r. readonly_token toks = Inr r \<and> (\<forall>tok. r = Some tok \<longrightarrow> (\<exists>e. (tok, e) \<in> set toks \<and> ''write'' \<notin> verbs_for e ns))"
  using assms
proof (induction toks)
  case (Cons x toks)
  obtain tok e where x: "x = (tok, e)" by (cases x)
  obtain vs where vs: "namespace_values e = Inr vs" "\<forall>v \<in> set vs. verbs_ok v"
      "(\<forall>js. JArr js \<in> set vs \<longrightarrow> JStr ''write'' \<notin> set js) \<longrightarrow> ''write'' \<notin> verbs_for e ns"
    using entry_values [of e ns] Cons.prems by (auto simp: x)
  note b = no_write_iff [OF vs(2)]
  obtain r where r: "readonly_token toks = Inr r"
      "\<forall>tok. r = Some tok \<longrightarrow> (\<exists>e. (tok, e) \<in> set toks \<and> ''write'' \<notin> verbs_for e ns)"
    using Cons by auto
  show ?case
  proof (cases "\<forall>js. JArr js \<in> set vs \<longrightarrow> JStr ''write'' \<notin> set js")
    case True
    then show ?thesis using vs b by (auto simp: x)
  next
    case False
    then have "no_write vs = Inr False" using b by simp
    then show ?thesis using vs(1) r by (auto simp: x)
  qed
qed simp

subsection \<open>One attempt\<close>

definition probe_state :: "system \<Rightarrow> real \<Rightarrow> processes \<Rightarrow> bool" where
  "probe_state sy now s \<longleftrightarrow>
     snd (snd s) = [] \<and>
     calm (sy_digest sy) (sy_net sy) ''node-1'' auth_probe_key now (sy_prefs sy auth_probe_key) (fst (snd s)) \<and>
     (\<exists>m. holds_entries sy {auth_probe_key} m (fst (snd s)))"

lemma probe_answer:
  assumes "served_with sy table" "served_lab sy t now lab" "probe_state sy now s"
    and "hc_method call = op_method (probe_op call)" "\<forall>v. probe_op call = Write v \<longrightarrow> json_ok v"
  shows "\<exists>n s'. lb_http lab call s = (Inr n, s') \<and> probe_state sy now s' \<and>
    (\<not> policy table (probe_request call) auth_probe_key \<longrightarrow> n = (if known_token table (probe_request call) then 403 else 401)) \<and>
    (\<forall>v. policy table (probe_request call) auth_probe_key \<and> probe_op call = Write v \<longrightarrow> n = 200)"
proof -
  let ?x = "probe_call sy t now call" and ?prefs = "sy_prefs sy auth_probe_key"
  obtain ws c where s: "s = (ws, c, [])" using assms(3) by (cases s) (auto simp: probe_state_def)
  obtain m where calm: "calm (sy_digest sy) (sy_net sy) ''node-1'' auth_probe_key now ?prefs c"
      and holds: "holds_entries sy {auth_probe_key} m c"
    using assms(3) by (auto simp: probe_state_def s)
  have x: "calm_for sy ?x c" "cc_key ?x \<in> {auth_probe_key}" using calm by (simp_all add: calm_for_def probe_call_def)
  have ok: "call_ok sy ?x" using calm assms(4,5) by (simp add: call_ok_def probe_call_def probe_request_def calm_def)
  obtain r m1 where r: "map_call table ?x m = (r, m1)" by (metis surj_pair)
  obtain ans s0 where a: "system_call sy ?x s = (ans, s0)" by (metis surj_pair)
  define s1 where "s1 = settle sy s0"
  from system_call_refines [OF assms(1) ok x(1) holds x(2) r a [unfolded s]]
  obtain as where one: "ans = Inr r" "holds_entries sy {auth_probe_key} m1 (fst (snd s1))" "fst (snd s1) = run as c"
      "\<forall>a \<in> set as. store_action a"
    by (auto simp: s1_def settled_cluster_def)
  have http: "lb_http lab call s = apfst (\<lambda>ans. Inr (answer_status ans)) (settled_call sy ?x s)"
    using assms(2) unfolding served_lab_def by blast
  have "probe_state sy now s1" using one calm_run [OF calm one(4)] by (auto simp: probe_state_def s1_def)
  moreover have "lb_http lab call s = (Inr (fst r), s1)"
    using a one(1) http by (simp add: answer_status_def settled_call_def s1_def)
  moreover have "\<not> policy table (probe_request call) auth_probe_key \<longrightarrow>
      fst r = (if known_token table (probe_request call) then 403 else 401)"
    using r by (auto simp: map_call_def Let_def probe_call_def)
  moreover have "\<forall>v. policy table (probe_request call) auth_probe_key \<and> probe_op call = Write v \<longrightarrow> fst r = 200"
    using r by (auto simp: map_call_def Let_def probe_call_def stored_response_def)
  ultimately show ?thesis by blast
qed

lemma try_attempts_expected:
  assumes "\<And>name call n s. (name, call, n) \<in> set attempts \<Longrightarrow> P s \<Longrightarrow> \<exists>s'. lb_http lab call s = (Inr n, s') \<and> P s'"
  shows "P s \<Longrightarrow> \<exists>s'. try_attempts lab attempts s = (Inr (map (\<lambda>(name, call, n). auth_verdict name n n) attempts), s')"
  using assms
proof (induction attempts arbitrary: s)
  case Nil
  then show ?case by (simp add: try_attempts_def return_it_def)
next
  case (Cons x attempts)
  obtain name call n where x: "x = (name, call, n)" by (cases x) auto
  obtain s1 where s1: "lb_http lab call s = (Inr n, s1)" "P s1" using Cons.prems(1,2) by (force simp: x)
  have "\<exists>s'. try_attempts lab attempts s1 = (Inr (map (\<lambda>(name, call, n). auth_verdict name n n) attempts), s')"
    using Cons.IH [OF s1(2) Cons.prems(2) [OF list.set_intros(2)]] .
  then show ?case using s1 by (auto simp: try_attempts_def seq_def return_it_def x)
qed

subsection \<open>The policy on the attempts\<close>

lemma probe_default: "namespace_for_key auth_probe_key = ''default''"
  by (simp add: namespace_for_key_def auth_probe_key_def)

lemma probe_policy:
  "\<not> known_token table (probe_request (probe_get u None))"
  "\<not> known_token table (probe_request (probe_get u (Some ''not-bearer-format'')))"
  "map_of d tok = None \<Longrightarrow> \<not> known_token (JObj d) (probe_request (probe_get u (Some (''Bearer '' @ tok))))"
  "map_of d tok = Some e \<Longrightarrow> known_token (JObj d) (probe_request (probe_put u tok))"
  "map_of d tok = Some e \<Longrightarrow>
     policy (JObj d) (probe_request (probe_put u tok)) auth_probe_key \<longleftrightarrow> ''write'' \<in> verbs_for e ''default''"
  by (auto simp: known_token_def probe_request_def probe_get_def probe_put_def token_entry_def policy_def bearer_def probe_default
      verb_of_def method_to_verb_def)

lemma policy_known: "policy table req k \<Longrightarrow> known_token table req"
  by (auto simp: policy_def known_token_def)

lemma probe_ops:
  "probe_op (probe_get u h) = Read" "hc_method (probe_get u h) = ''GET''"
  "probe_op (probe_put u tok) = Write (JStr ''x'')" "hc_method (probe_put u tok) = ''PUT''"
  by (simp_all add: probe_op_def probe_get_def probe_put_def)

lemma probe_get_refused:
  assumes "served_with sy table" "served_lab sy t now lab" "probe_state sy now s" "\<not> known_token table (probe_request (probe_get u h))"
  shows "\<exists>s'. lb_http lab (probe_get u h) s = (Inr 401, s') \<and> probe_state sy now s'"
  using probe_answer [OF assms(1-3), of "probe_get u h"] assms(4) policy_known by (force simp: probe_ops)

lemma probe_put_answered:
  assumes "served_with sy (JObj d)" "served_lab sy t now lab" "probe_state sy now s" "map_of d tok = Some e"
  shows "\<exists>s'. lb_http lab (probe_put u tok) s = (Inr (if ''write'' \<in> verbs_for e ''default'' then 200 else 403), s') \<and>
    probe_state sy now s'"
  using probe_answer [OF assms(1-3), of "probe_put u tok"] probe_policy(4,5) [OF assms(4)] by (force simp: probe_ops)

text \<open>Every attempt that the scenario makes gets the status it expects.\<close>

lemma attempt_expected:
  assumes "served_with sy (JObj (cx_auth_tokens cx))" "served_lab sy t now lab" "dict_ok (cx_auth_tokens cx)"
    and "map_of (cx_auth_tokens cx) ''not-a-real-token'' = None"
    and "\<forall>(tok, e) \<in> set (take 1 (cx_auth_tokens cx)). ''write'' \<in> verbs_for e ''default''"
  shows "\<exists>attempts. auth_attempts cx u = Inr attempts \<and> 3 \<le> length attempts \<and>
    (\<forall>name call n s. (name, call, n) \<in> set attempts \<longrightarrow> probe_state sy now s \<longrightarrow>
      (\<exists>s'. lb_http lab call s = (Inr n, s') \<and> probe_state sy now s'))"
proof -
  let ?toks = "cx_auth_tokens cx"
  have "\<forall>(tok, e) \<in> set ?toks. entry_ok e" using assms(1) by (simp add: served_with_def)
  from readonly_token_found [OF this, of "''default''"]
  obtain ro where ro: "readonly_token ?toks = Inr ro" "\<And>tok. ro = Some tok \<Longrightarrow> \<exists>e. (tok, e) \<in> set ?toks \<and> ''write'' \<notin> verbs_for e ''default''"
    by auto
  define attempts where "attempts =
      [(''no Authorization header'', probe_get u None, 401), (''malformed Authorization header'', probe_get u (Some ''not-bearer-format''), 401),
       (''unknown token'', probe_get u (Some ''Bearer not-a-real-token''), 401)] @
      (if ?toks = [] then [] else
        (case ro of None \<Rightarrow> [] | Some tok \<Rightarrow> if tok = '''' then [] else [(''read-only token attempting write'', probe_put u tok, 403)])
        @ [(''fully valid token'', probe_put u (first_token cx), 200 :: nat)])"
  have attempts: "auth_attempts cx u = Inr attempts" by (simp add: auth_attempts_def Let_def ro(1) attempts_def)
  have "\<exists>s'. lb_http lab call s = (Inr n, s') \<and> probe_state sy now s'"
    if mem: "(name, call, n) \<in> set attempts" and st: "probe_state sy now s" for name call n s
  proof -
    note gets = probe_get_refused [OF assms(1,2) st]
      and put = probe_put_answered [OF assms(1,2) st]
    have "first_token cx = tok \<and> map_of ?toks tok = Some e" if "?toks = (tok, e) # rest" for tok e rest
      using that by (simp add: first_token_def)
    then have first: "?toks \<noteq> [] \<Longrightarrow> \<exists>e. map_of ?toks (first_token cx) = Some e \<and> ''write'' \<in> verbs_for e ''default''"
      using assms(5) by (cases ?toks) force+
    consider "call \<in> {probe_get u None, probe_get u (Some ''not-bearer-format''), probe_get u (Some ''Bearer not-a-real-token'')}" "n = 401"
      | tok where "ro = Some tok" "call = probe_put u tok" "n = 403"
      | "?toks \<noteq> []" "call = probe_put u (first_token cx)" "n = 200"
      using mem unfolding attempts_def by (auto split: if_splits option.splits)
    then show ?thesis
    proof cases
      case 1
      then show ?thesis
        using gets [OF probe_policy(1)] gets [OF probe_policy(2)] gets [where h = "Some (''Bearer '' @ ''not-a-real-token'')"]
          probe_policy(3) [OF assms(4), of u] by auto
    next
      case 2
      then obtain e where "(tok, e) \<in> set ?toks" "''write'' \<notin> verbs_for e ''default''" using ro(2) by blast
      then show ?thesis using put [where tok = tok and e = e] assms(3) 2 by (simp add: map_of_is_SomeI)
    next
      case 3
      then obtain e where e: "map_of ?toks (first_token cx) = Some e" "''write'' \<in> verbs_for e ''default''" using first by blast
      show ?thesis using put [OF e(1)] e(2) 3 by simp
    qed
  qed
  moreover have "3 \<le> length attempts" by (simp add: attempts_def)
  ultimately show ?thesis using attempts by blast
qed

text \<open>C29. No attempt to get round the client authentication succeeds. On a calm cluster whose public
  applications serve the tokens that the harness was given, of which the first may write to the default
  namespace, and whose requests settle between the scenario's calls, scenario 9 reports every attempt as
  prevented: 401 without a known token, 403 for a write with the read-only token that it finds, and 200 for
  the valid token.\<close>

theorem auth_bypass_prevented:
  assumes "served_with sy (JObj (cx_auth_tokens cx))" "served_lab sy t now lab" "probe_state sy now s"
    and "map_of (cx_public_ports cx) ''node-1'' = Some port" "dict_ok (cx_auth_tokens cx)"
    and "map_of (cx_auth_tokens cx) ''not-a-real-token'' = None"
    and "\<And>tok e. (tok, e) \<in> set (take 1 (cx_auth_tokens cx)) \<Longrightarrow> ''write'' \<in> verbs_for e ''default''"
  shows "\<exists>rs s'. scenario_9 lab cx s = (Inr rs, s') \<and> 3 \<le> length rs \<and> (\<forall>r \<in> set rs. rs_prevented r \<and> rs_detected r)"
proof -
  define u where "u = (''https://localhost:'' @ dec_nat port) @ ''/v1/keys/auth-probe-key''"
  have first: "\<forall>(tok, e) \<in> set (take 1 (cx_auth_tokens cx)). ''write'' \<in> verbs_for e ''default''" using assms(7) by blast
  obtain attempts where attempts: "auth_attempts cx u = Inr attempts" "3 \<le> length attempts"
      and expected: "\<And>name call n s. (name, call, n) \<in> set attempts \<Longrightarrow> probe_state sy now s \<Longrightarrow>
        \<exists>s'. lb_http lab call s = (Inr n, s') \<and> probe_state sy now s'"
    using attempt_expected [OF assms(1,2,5,6) first, of u] by blast
  have "\<exists>s'. try_attempts lab attempts s = (Inr (map (\<lambda>(name, call, n). auth_verdict name n n) attempts), s')"
    by (rule try_attempts_expected [where P = "probe_state sy now"]) (rule expected, assumption+, rule assms(3))
  then obtain s' where "try_attempts lab attempts s = (Inr (map (\<lambda>(name, call, n). auth_verdict name n n) attempts), s')"
    by blast
  then have "scenario_9 lab cx s = (Inr (map (\<lambda>(name, call, n). auth_verdict name n n) attempts), s')"
    using attempts(1) unfolding u_def by (simp add: scenario_9_def public_url_def assms(4) seq_def lift_it_def)
  then show ?thesis using attempts(2)
    by (intro exI [of _ "map (\<lambda>(name, call, n). auth_verdict name n n) attempts"] exI [of _ s'])
      (auto simp: auth_verdict_def verdict_def)
qed

subsection \<open>The probe in the laboratory\<close>

definition probe_tokens :: "(string, json) dict" where
  "probe_tokens =
     [(''adm'', JObj [(''id'', JStr ''alice''), (''namespaces'', JObj [(''default'', JArr [JStr ''write'', JStr ''read''])])]),
      (''ro'', JObj [(''id'', JStr ''bob''), (''namespaces'', JObj [(''logs'', JArr [JStr ''read''])])])]"

definition probe_system :: system where
  "probe_system = lab_system\<lparr>sy_app := (\<lambda>i. create_public_app ex_settings ex_disk i (JObj probe_tokens) ''audit.log'')\<rparr>"

definition probe_lab :: "processes lab" where
  "probe_lab =
     \<lparr>lb_exec = (\<lambda>node_id code timeout s. (Inl TimeoutExpired, s)),
      lb_http = (\<lambda>call s. apfst (\<lambda>ans. Inr (answer_status ans)) (settled_call probe_system (probe_call probe_system ex_timing 0 call) s)),
      lb_override = (\<lambda>s. None), lb_set_override = (\<lambda>t s. s), lb_up = (\<lambda>s. (Inr (), s)), lb_clock = (\<lambda>s. (0, s)),
      lb_sleep = (\<lambda>t s. s), lb_repr = (\<lambda>x. ''0.0''), lb_two = (\<lambda>x. ''0.00'')\<rparr>"

theorem auth_bypass_prevented_witness:
  "\<exists>rs s'. scenario_9 probe_lab (ex_ctx\<lparr>cx_auth_tokens := probe_tokens\<rparr>) (\<lambda>i. ex_world, lab_cluster, []) = (Inr rs, s') \<and>
     3 \<le> length rs \<and> (\<forall>r \<in> set rs. rs_prevented r \<and> rs_detected r)"
proof (rule auth_bypass_prevented)
  show "served_with probe_system (JObj (cx_auth_tokens (ex_ctx\<lparr>cx_auth_tokens := probe_tokens\<rparr>)))"
    by (auto simp: served_with_def probe_system_def lab_system_def probe_tokens_def)
  show "served_lab probe_system ex_timing 0 probe_lab" by (simp add: served_lab_def probe_lab_def)
  have node: "''node-1'' \<in> set nodes_attacked" by (simp add: nodes_attacked_def)
  have "holds_entries probe_system {auth_probe_key} (\<lambda>k. None) lab_cluster"
    using lab_calm(2) [OF node, of auth_probe_key]
    by (simp add: holds_entries_def entries_ok_def probe_system_def lab_system_def versions_of_def)
  then show "probe_state probe_system 0 (\<lambda>i. ex_world, lab_cluster, [])"
    using lab_calm(1) [OF node, of auth_probe_key] by (auto simp: probe_state_def probe_system_def lab_system_def)
  show "map_of (cx_public_ports (ex_ctx\<lparr>cx_auth_tokens := probe_tokens\<rparr>)) ''node-1'' = Some 8001"
    by (simp add: ex_ctx_def testbed_ports_def)
qed (auto simp: probe_tokens_def verbs_for_def)

end
