(* ===== verification/Attack_Runs.thy ===== *)
theory Attack_Runs
  imports Auth_Probe
begin

section \<open>Attacks on the internal port\<close>

text \<open>
  The pieces of Python of the scenarios 4, 5 and 6 of \<open>scripts/adversarial_scenarios.py\<close>, run against the
  served system of \<open>Client_View\<close>: client requests carry the harness's token through the public
  application of a node, with its token check; the requests that the attacker sends under a node's
  certificate go straight to the internal endpoints. A piece that raises, as on a missing field of an
  answer, prints nothing (\<open>None\<close>).

  What the requests left out by earlier calls do between two requests is a parameter, \<open>ak_between\<close>. The
  theorems assume that they complete (\<open>settle\<close>), and that the token may write and read the probe key.
\<close>

record attack =
  ak_system :: system
  ak_timing :: timing
  ak_now :: real
  ak_token :: string
  ak_between :: "processes \<Rightarrow> processes"

definition attack_request :: "attack \<Rightarrow> key \<Rightarrow> client_op \<Rightarrow> http_request" where
  "attack_request ak k op =
     \<lparr>rq_method = op_method op, rq_path = ''/v1/keys/'' @ k, rq_key = Some k,
      rq_headers = [(''authorization'', bearer @ ak_token ak)], rq_client = Some ''127.0.0.1''\<rparr>"

definition attack_call :: "attack \<Rightarrow> node_id \<Rightarrow> key \<Rightarrow> client_op \<Rightarrow> client_call" where
  "attack_call ak i k op =
     \<lparr>cc_at = i, cc_request = attack_request ak k op, cc_timing = ak_timing ak, cc_key = k, cc_op = op,
      cc_now = ak_now ak, cc_first = sy_prefs (ak_system ak) k, cc_writes = sy_prefs (ak_system ak) k\<rparr>"

definition ask :: "attack \<Rightarrow> node_id \<Rightarrow> key \<Rightarrow> client_op \<Rightarrow> processes \<Rightarrow> answer \<times> processes" where
  "ask ak i k op s = system_call (ak_system ak) (attack_call ak i k op) (ak_between ak s)"

text \<open>\<open>response.json()[name]\<close>; the answer to a call that raised is no JSON.\<close>

definition answer_field :: "string \<Rightarrow> answer \<Rightarrow> json option" where
  "answer_field name ans =
     (case ans of
        Inl e \<Rightarrow> None
      | Inr (status, body) \<Rightarrow> (case subscript body name of Inl e \<Rightarrow> None | Inr v \<Rightarrow> Some v))"

definition inject :: "attack \<Rightarrow> request \<Rightarrow> node_id \<Rightarrow> processes \<Rightarrow> processes" where
  "inject ak req m s = (case ak_between ak s of (ws, c, out) \<Rightarrow> (ws, send_to (sy_net (ak_system ak)) req m c, out))"

text \<open>A body whose clock is no object of counters is refused with 422 and has no effect.\<close>

definition inject_put :: "attack \<Rightarrow> key \<Rightarrow> json \<Rightarrow> json \<Rightarrow> node_id \<Rightarrow> processes \<Rightarrow> processes" where
  "inject_put ak k val clk m s =
     (case clk of
        JObj items \<Rightarrow>
          (case counters_of_items items of
             Inl e \<Rightarrow> ak_between ak s
           | Inr d \<Rightarrow> inject ak (PutKey k val (VectorClock d)) m s)
      | _ \<Rightarrow> ak_between ak s)"

subsection \<open>The three programs\<close>

definition replay_program :: "attack \<Rightarrow> key \<Rightarrow> processes \<Rightarrow> (string, json) dict option \<times> processes" where
  "replay_program ak k s =
     (case ask ak ''node-1'' k (Write (JStr ''v1'')) s of
        (r1, s1) \<Rightarrow>
          (case answer_field ''clock'' r1 of
             None \<Rightarrow> (None, s1)
           | Some clock1 \<Rightarrow>
               let s2 = snd (ask ak ''node-1'' k (Write (JStr ''v2'')) s1);
                   s3 = inject_put ak k (JStr ''v1'') clock1 ''node-1'' s2
               in case ask ak ''node-1'' k Read s3 of
                    (final, s4) \<Rightarrow>
                      (case answer_field ''value'' final of
                         None \<Rightarrow> (None, s4)
                       | Some v \<Rightarrow> (Some [(''final_value'', v)], s4))))"

definition forged_clock :: json where
  "forged_clock = JObj [(''node-1'', JInt 999999)]"

definition poison :: "attack \<Rightarrow> key \<Rightarrow> processes \<Rightarrow> processes" where
  "poison ak k s = fold (inject_put ak k (JStr ''poisoned'') forged_clock) nodes_attacked s"

definition forge_program :: "attack \<Rightarrow> key \<Rightarrow> processes \<Rightarrow> (string, json) dict option \<times> processes" where
  "forge_program ak k s =
     (let s1 = snd (ask ak ''node-1'' k (Write (JStr ''legit'')) s);
          s2 = poison ak k s1
      in case ask ak ''node-1'' k Read s2 of
           (r3, s3) \<Rightarrow>
             (case answer_field ''value'' r3 of
                None \<Rightarrow> (None, s3)
              | Some hijacked \<Rightarrow>
                  let s4 = snd (ask ak ''node-1'' k (Write (JStr ''recovered'')) s3)
                  in case ask ak ''node-1'' k Read s4 of
                       (r5, s5) \<Rightarrow>
                         (case answer_field ''value'' r5 of
                            None \<Rightarrow> (None, s5)
                          | Some recovered \<Rightarrow>
                              (Some [(''hijacked_value'', hijacked), (''recovered_value'', recovered)], s5))))"

definition delete_program :: "attack \<Rightarrow> key \<Rightarrow> processes \<Rightarrow> (string, json) dict option \<times> processes" where
  "delete_program ak k s =
     (let s1 = snd (ask ak ''node-2'' k (Write (JStr ''bar'')) s);
          s2 = fold (inject ak (DeleteKey k)) nodes_attacked s1
      in case ask ak ''node-2'' k Read s2 of
           (r, s3) \<Rightarrow> (Some [(''status_after_forged_delete'', JInt (int (answer_status r)))], s3))"

subsection \<open>One request\<close>

text \<open>
  Where an attack starts from, and what its requests keep: once everything has settled, the cluster is
  calm for the coordinator and every replica of the key holds what the map says.
\<close>

definition ready :: "attack \<Rightarrow> node_id \<Rightarrow> key \<Rightarrow> entries \<Rightarrow> processes \<Rightarrow> bool" where
  "ready ak i k m s \<longleftrightarrow>
     (let sy = ak_system ak; c = settled_cluster sy s
      in calm (sy_digest sy) (sy_net sy) i k (ak_now ak) (sy_prefs sy k) c \<and> holds_entries sy {k} m c)"

lemma settle_settled: "\<exists>ws. settle sy s = (ws, settled_cluster sy s, [])"
  by (cases s) (simp add: settle_def settled_cluster_def)

lemma ask_ready:
  assumes "served_with (ak_system ak) table" "ak_between ak = settle (ak_system ak)" "ready ak i k m s"
    and "\<forall>v. op = Write v \<longrightarrow> json_ok v" "map_call table (attack_call ak i k op) m = (r, m1)"
  shows "\<exists>s1. ask ak i k op s = (Inr r, s1) \<and> ready ak i k m1 s1"
proof -
  let ?sy = "ak_system ak" and ?x = "attack_call ak i k op"
  obtain ws where s: "settle ?sy s = (ws, settled_cluster ?sy s, [])" using settle_settled by blast
  have calm: "calm_for ?sy ?x (settled_cluster ?sy s)" and holds: "holds_entries ?sy {k} m (settled_cluster ?sy s)"
    using assms(3) by (simp_all add: ready_def Let_def calm_for_def attack_call_def)
  have ok: "call_ok ?sy ?x"
    using calm assms(4) by (simp add: call_ok_def attack_call_def attack_request_def calm_for_def calm_def)
  have key: "cc_key ?x \<in> {k}" by (simp add: attack_call_def)
  obtain ans s1 where a: "system_call ?sy ?x (ws, settled_cluster ?sy s, []) = (ans, s1)" by (metis surj_pair)
  from system_call_refines [OF assms(1) ok calm holds key assms(5) a]
  obtain as where one: "ans = Inr r" "holds_entries ?sy {k} m1 (settled_cluster ?sy s1)"
      "settled_cluster ?sy s1 = run as (settled_cluster ?sy s)" "\<forall>a \<in> set as. store_action a"
    by blast
  have "ready ak i k m1 s1"
    using one calm_for_run [OF calm one(4)] by (simp add: ready_def Let_def calm_for_def attack_call_def)
  then show ?thesis using a one(1) s assms(2) by (simp add: ask_def)
qed

lemma inject_settled:
  assumes "ak_between ak = settle (ak_system ak)"
  shows "settled_cluster (ak_system ak) (inject ak req m s) = send_to (sy_net (ak_system ak)) req m (settled_cluster (ak_system ak) s)"
  using settle_settled [of "ak_system ak" s] assms by (auto simp: inject_def)

lemma inject_all_settled:
  assumes "ak_between ak = settle (ak_system ak)"
  shows "settled_cluster (ak_system ak) (fold (inject ak req) ms s) =
    fold (send_to (sy_net (ak_system ak)) req) ms (settled_cluster (ak_system ak) s)"
  by (induction ms arbitrary: s) (simp_all add: inject_settled [OF assms])

lemma policy_map_call:
  assumes "policy table (attack_request ak k op) k"
  shows "op = Write v \<Longrightarrow> map_call table (attack_call ak i k op) m =
      (let e = (v, bump i (case m k of None \<Rightarrow> [] | Some (_, d) \<Rightarrow> d)) in (stored_response k e, m(k \<mapsto> e)))"
    and "op = Read \<Longrightarrow> map_call table (attack_call ak i k op) m =
      (case m k of None \<Rightarrow> ((404, detail_body ''''), m) | Some e \<Rightarrow> (stored_response k e, m))"
  using assms by (simp_all add: map_call_def attack_call_def Let_def split: option.split)

lemma stored_fields [simp]:
  "answer_field ''value'' (Inr (stored_response k e)) = Some (fst e)"
  "answer_field ''clock'' (Inr (stored_response k e)) = Some (JObj (map (\<lambda>(i, n). (i, JInt n)) (snd e)))"
  by (simp_all add: answer_field_def stored_response_def subscript_def key_value_json_def counters_json_def)

subsection \<open>Replay\<close>

lemma ready_clock: "ready ak i k m s \<Longrightarrow> entries_ok m"
  by (simp add: ready_def Let_def holds_entries_def)

text \<open>An older version that arrives at a replica changes nothing.\<close>

lemma stale_put_ready:
  assumes "ak_between ak = settle (ak_system ak)" "ready ak i k m s" "m k = Some (v, d)"
    and "version_ok (Version u (VectorClock d'))" "VectorClock d' \<le> VectorClock d"
  shows "ready ak i k m (inject ak (PutKey k u (VectorClock d')) n s)"
proof -
  let ?sy = "ak_system ak" and ?c = "settled_cluster (ak_system ak) s" and ?a = "StorePut n k (Version u (VectorClock d'))"
  have calm: "calm (sy_digest ?sy) (sy_net ?sy) i k (ak_now ak) (sy_prefs ?sy k) ?c" and holds: "holds_entries ?sy {k} m ?c"
    using assms(2) by (simp_all add: ready_def Let_def)
  have wire: "net_wire (sy_net ?sy) k = Some k" using calm by (simp add: calm_def wired_def)
  have act: "store_action ?a" using assms(4) by simp
  have c': "settled_cluster ?sy (inject ak (PutKey k u (VectorClock d')) n s) = perform ?a ?c"
    by (simp add: inject_settled [OF assms(1)] send_to_put [OF wire] del: perform.simps)
  have "reconcile [Version v (VectorClock d)] (Version u (VectorClock d')) = [Version v (VectorClock d)]"
    using assms(5) by (simp add: reconcile_def)
  then have "holds_entries ?sy {k} m (perform ?a ?c)"
    using holds assms(3) siblings_perform [OF calm_ok [OF calm] store_action_ok [OF act]]
    by (auto simp: holds_entries_def all_hold_def versions_of_def simp del: perform.simps)
  then show ?thesis unfolding ready_def Let_def c' using calm_perform [OF calm act] by blast
qed

lemma bump_above:
  assumes "ready ak i k m s" "m k = Some (u, d)"
  shows "VectorClock d \<le> VectorClock (bump i d)"
proof -
  let ?sy = "ak_system ak"
  have calm: "calm (sy_digest ?sy) (sy_net ?sy) i k (ak_now ak) (sy_prefs ?sy k) (settled_cluster ?sy s)"
      and holds: "holds_entries ?sy {k} m (settled_cluster ?sy s)"
    using assms(1) by (simp_all add: ready_def Let_def)
  have "all_hold (sy_prefs ?sy k) k (versions_of (m k)) (settled_cluster ?sy s)" using holds by (simp add: holds_entries_def)
  from calm_next(1) [OF calm this versions_of_single, of JNull] next_version_entry [OF ready_clock [OF assms(1)], of i JNull k]
  show ?thesis using assms(2) by (auto simp: versions_of_def less_vclock_def)
qed

lemma replay_program_result:
  assumes "served_with (ak_system ak) table" "ak_between ak = settle (ak_system ak)" "ready ak ''node-1'' k m s"
    and "\<forall>op \<in> {Write JNull, Read}. policy table (attack_request ak k op) k"
  shows "\<exists>d s'. replay_program ak k s = (Some [(''final_value'', JStr ''v2'')], s') \<and>
    ready ak ''node-1'' k (m(k \<mapsto> (JStr ''v2'', d))) s'"
proof -
  let ?i = "''node-1''"
  have pw: "policy table (attack_request ak k (Write v)) k" for v using assms(4) by (simp add: attack_request_def)
  have pr: "policy table (attack_request ak k Read) k" using assms(4) by simp
  define d1 where "d1 = bump ?i (case m k of None \<Rightarrow> [] | Some (_, d) \<Rightarrow> d)"
  define m1 where "m1 = m(k \<mapsto> (JStr ''v1'', d1))"
  define m2 where "m2 = m1(k \<mapsto> (JStr ''v2'', bump ?i d1))"
  have "map_call table (attack_call ak ?i k (Write (JStr ''v1''))) m = (stored_response k (JStr ''v1'', d1), m1)"
    by (simp add: policy_map_call(1) [OF pw refl] Let_def d1_def m1_def)
  from ask_ready [OF assms(1-3) _ this]
  obtain s1 where 1: "ask ak ?i k (Write (JStr ''v1'')) s = (Inr (stored_response k (JStr ''v1'', d1)), s1)" "ready ak ?i k m1 s1"
    by auto
  have "map_call table (attack_call ak ?i k (Write (JStr ''v2''))) m1 = (stored_response k (JStr ''v2'', bump ?i d1), m2)"
    by (simp add: policy_map_call(1) [OF pw refl] Let_def m1_def m2_def)
  from ask_ready [OF assms(1,2) 1(2) _ this]
  obtain s2 where 2: "ask ak ?i k (Write (JStr ''v2'')) s1 = (Inr (stored_response k (JStr ''v2'', bump ?i d1)), s2)" "ready ak ?i k m2 s2"
    by auto
  have le: "VectorClock d1 \<le> VectorClock (bump ?i d1)" using bump_above [OF 1(2)] by (simp add: m1_def)
  have "counters_ok d1" using ready_clock [OF 1(2)] unfolding m1_def entries_ok_def by (metis fun_upd_same)
  then have "version_ok (Version (JStr ''v1'') (VectorClock d1))"
    by (simp add: version_ok_def clock_ok_def counters_ok_def)
  then have 3: "ready ak ?i k m2 (inject ak (PutKey k (JStr ''v1'') (VectorClock d1)) ?i s2)"
    using le by (intro stale_put_ready [OF assms(2) 2(2)]) (simp_all add: m2_def)
  have r3: "map_call table (attack_call ak ?i k Read) m2 = (stored_response k (JStr ''v2'', bump ?i d1), m2)"
    by (simp add: policy_map_call(2) [OF pr refl] m2_def)
  have put: "inject_put ak k (JStr ''v1'') (JObj (map (\<lambda>(i, n). (i, JInt n)) d1)) ?i s2 =
      inject ak (PutKey k (JStr ''v1'') (VectorClock d1)) ?i s2"
    by (simp add: inject_put_def)
  from ask_ready [OF assms(1,2) 3 _ r3]
  obtain s4 where
      "ask ak ?i k Read (inject_put ak k (JStr ''v1'') (JObj (map (\<lambda>(i, n). (i, JInt n)) d1)) ?i s2) =
        (Inr (stored_response k (JStr ''v2'', bump ?i d1)), s4)" "ready ak ?i k m2 s4"
    unfolding put by auto
  then have "replay_program ak k s = (Some [(''final_value'', JStr ''v2'')], s4) \<and> ready ak ?i k (m(k \<mapsto> (JStr ''v2'', bump ?i d1))) s4"
    by (simp add: replay_program_def 1(1) 2(1) Let_def) (simp add: m2_def m1_def)
  then show ?thesis by blast
qed

lemma parse_replay:
  "parse_output (printed tb (Some [(''final_value'', JStr ''v2'')])) =
     Inr [(''final_value'', JStr ''v2''), (''_returncode'', JInt 0)]"
  by (subst parse_printed) simp_all

text \<open>
  C25. Replay is prevented: on a calm cluster whose replicas agree on the probe key, with a token that may
  write and read it and requests that settle between the calls, scenario 4 -- write \<open>v1\<close>, write \<open>v2\<close>, send the
  captured \<open>v1\<close> with its old clock to the internal endpoint of node-1 -- reports the attack as prevented,
  and in the end every replica of the key holds the version of \<open>v2\<close> and no other.
\<close>

theorem replay_prevented:
  assumes "served_with (ak_system ak) table" "ak_between ak = settle (ak_system ak)"
    and "ready ak ''node-1'' ''replay-probe-key'' m s" "ak_token ak = first_token cx"
    and "\<forall>op \<in> {Write JNull, Read}. policy table (attack_request ak ''replay-probe-key'' op) ''replay-probe-key''"
    and "replay_program ak ''replay-probe-key'' s = (out, s')"
    and "lb_exec lab ''node-1'' (Replay ''replay-probe-key'' (first_token cx)) 20 w = (Inr (printed tb out), w')"
  shows "(\<exists>r. scenario_4 lab cx w = (Inr [r], w') \<and> rs_prevented r \<and> rs_observed r = ''PREVENTED (replay dropped, v2 retained)'') \<and>
    (\<exists>d. all_hold (sy_prefs (ak_system ak) ''replay-probe-key'') ''replay-probe-key'' [Version (JStr ''v2'') (VectorClock d)]
       (settled_cluster (ak_system ak) s'))"
proof -
  let ?k = "''replay-probe-key''"
  obtain d where out: "out = Some [(''final_value'', JStr ''v2'')]" and final: "ready ak ''node-1'' ?k (m(?k \<mapsto> (JStr ''v2'', d))) s'"
    using replay_program_result [OF assms(1-3,5)] assms(6) by auto
  have "exec_snippet lab ''node-1'' (Replay ?k (first_token cx)) 20 w =
      (Inr [(''final_value'', JStr ''v2''), (''_returncode'', JInt 0)], w')"
    using exec_printed [OF assms(7)] by (simp add: out parse_replay)
  moreover have "all_hold (sy_prefs (ak_system ak) ?k) ?k [Version (JStr ''v2'') (VectorClock d)] (settled_cluster (ak_system ak) s')"
    using final by (simp add: ready_def Let_def holds_entries_def versions_of_def)
  ultimately show ?thesis by (auto simp: scenario_4_def seq_def return_it_def verdict_def)
qed

subsection \<open>Forgery\<close>

lemma counters_of_forged: "inject_put ak k val forged_clock = inject ak (PutKey k val (VectorClock [(''node-1'', 999999)]))"
  by (intro ext) (simp add: inject_put_def forged_clock_def)

lemma poison_ready:
  assumes "ak_between ak = settle (ak_system ak)" "ready ak i k m s" "m k = Some (v, d)"
    and "VectorClock d < VectorClock [(''node-1'', 999999)]" "set (sy_prefs (ak_system ak) k) \<subseteq> set nodes_attacked"
  shows "ready ak i k (m(k \<mapsto> (JStr ''poisoned'', [(''node-1'', 999999)]))) (poison ak k s)"
proof -
  let ?sy = "ak_system ak" and ?c = "settled_cluster (ak_system ak) s"
    and ?p = "Version (JStr ''poisoned'') (VectorClock [(''node-1'', 999999)])"
  have calm: "calm (sy_digest ?sy) (sy_net ?sy) i k (ak_now ak) (sy_prefs ?sy k) ?c" and holds: "holds_entries ?sy {k} m ?c"
    using assms(2) by (simp_all add: ready_def Let_def)
  have wire: "net_wire (sy_net ?sy) k = Some k" using calm by (simp add: calm_def wired_def)
  have p: "version_ok ?p" by (simp add: version_ok_def clock_ok_def)
  have c': "settled_cluster ?sy (poison ak k s) = run (puts k ?p nodes_attacked) ?c"
    by (simp only: poison_def counters_of_forged inject_all_settled [OF assms(1)] fold_send_puts [OF wire])
  have "distinct nodes_attacked" by (simp add: nodes_attacked_def)
  note sib = siblings_puts [OF calm_ok [OF calm] p this]
  have "reconcile [Version v (VectorClock d)] ?p = [?p]"
    using assms(4) by (simp add: reconcile_def less_vclock_def)
  moreover have "entries_ok (m(k \<mapsto> (JStr ''poisoned'', [(''node-1'', 999999)])))"
    using ready_clock [OF assms(2)] by (simp add: entries_ok_def counters_ok_def)
  ultimately have "holds_entries ?sy {k} (m(k \<mapsto> (JStr ''poisoned'', [(''node-1'', 999999)]))) (run (puts k ?p nodes_attacked) ?c)"
    using holds assms(3,5) sib by (auto simp: holds_entries_def all_hold_def versions_of_def)
  moreover have "calm (sy_digest ?sy) (sy_net ?sy) i k (ak_now ak) (sy_prefs ?sy k) (run (puts k ?p nodes_attacked) ?c)"
    using p by (intro calm_run [OF calm]) (auto simp: puts_def)
  ultimately show ?thesis by (simp add: ready_def Let_def c')
qed

lemma forge_program_result:
  assumes "served_with (ak_system ak) table" "ak_between ak = settle (ak_system ak)" "ready ak ''node-1'' k m s" "m k = None"
    and "\<forall>op \<in> {Write JNull, Read}. policy table (attack_request ak k op) k" "set (sy_prefs (ak_system ak) k) \<subseteq> set nodes_attacked"
  shows "\<exists>s1 s'. ask ak ''node-1'' k (Write (JStr ''legit'')) s = (Inr (stored_response k (JStr ''legit'', [(''node-1'', 1)])), s1) \<and>
    ready ak ''node-1'' k (m(k \<mapsto> (JStr ''poisoned'', [(''node-1'', 999999)]))) (poison ak k s1) \<and>
    forge_program ak k s = (Some [(''hijacked_value'', JStr ''poisoned''), (''recovered_value'', JStr ''recovered'')], s') \<and>
    ready ak ''node-1'' k (m(k \<mapsto> (JStr ''recovered'', [(''node-1'', 1000000)]))) s'"
proof -
  let ?i = "''node-1''" and ?p = "(JStr ''poisoned'', [(''node-1'', 999999)])" and ?r = "(JStr ''recovered'', [(''node-1'', 1000000)])"
  have pw: "policy table (attack_request ak k (Write v)) k" for v using assms(5) by (simp add: attack_request_def)
  have pr: "policy table (attack_request ak k Read) k" using assms(5) by simp
  have w1: "map_call table (attack_call ak ?i k (Write (JStr ''legit''))) m =
      (stored_response k (JStr ''legit'', [(?i, 1)]), m(k \<mapsto> (JStr ''legit'', [(?i, 1)])))"
    by (simp add: policy_map_call(1) [OF pw refl] Let_def assms(4) bump_def dict_get_def)
  from ask_ready [OF assms(1-3) _ w1]
  obtain s1 where 1: "ask ak ?i k (Write (JStr ''legit'')) s = (Inr (stored_response k (JStr ''legit'', [(?i, 1)])), s1)"
      "ready ak ?i k (m(k \<mapsto> (JStr ''legit'', [(?i, 1)]))) s1"
    by auto
  have less: "VectorClock [(?i, 1)] < VectorClock [(''node-1'', 999999)]"
    by (auto simp: less_vclock_def less_eq_vclock_def vc_get_def dict_get_def)
  have 2: "ready ak ?i k (m(k \<mapsto> ?p)) (poison ak k s1)"
    using poison_ready [OF assms(2) 1(2) _ less assms(6)] by simp
  have r1: "map_call table (attack_call ak ?i k Read) (m(k \<mapsto> ?p)) = (stored_response k ?p, m(k \<mapsto> ?p))"
    by (simp add: policy_map_call(2) [OF pr refl])
  from ask_ready [OF assms(1,2) 2 _ r1]
  obtain s3 where 3: "ask ak ?i k Read (poison ak k s1) = (Inr (stored_response k ?p), s3)" "ready ak ?i k (m(k \<mapsto> ?p)) s3" by auto
  have w2: "map_call table (attack_call ak ?i k (Write (JStr ''recovered''))) (m(k \<mapsto> ?p)) = (stored_response k ?r, m(k \<mapsto> ?r))"
    by (simp add: policy_map_call(1) [OF pw refl] Let_def bump_def dict_get_def)
  from ask_ready [OF assms(1,2) 3(2) _ w2]
  obtain s4 where 4: "ask ak ?i k (Write (JStr ''recovered'')) s3 = (Inr (stored_response k ?r), s4)" "ready ak ?i k (m(k \<mapsto> ?r)) s4" by auto
  have r2: "map_call table (attack_call ak ?i k Read) (m(k \<mapsto> ?r)) = (stored_response k ?r, m(k \<mapsto> ?r))"
    by (simp add: policy_map_call(2) [OF pr refl])
  from ask_ready [OF assms(1,2) 4(2) _ r2]
  obtain s5 where 5: "ask ak ?i k Read s4 = (Inr (stored_response k ?r), s5)" "ready ak ?i k (m(k \<mapsto> ?r)) s5" by auto
  have "forge_program ak k s = (Some [(''hijacked_value'', JStr ''poisoned''), (''recovered_value'', JStr ''recovered'')], s5)"
    by (simp add: forge_program_def Let_def 1(1) 3(1) 4(1) 5(1))
  then show ?thesis using 1(1) 2 5(2) by blast
qed

lemma parse_forge:
  "parse_output (printed tb (Some [(''hijacked_value'', JStr ''poisoned''), (''recovered_value'', JStr ''recovered'')])) =
     Inr [(''hijacked_value'', JStr ''poisoned''), (''recovered_value'', JStr ''recovered''), (''_returncode'', JInt 0)]"
  by (subst parse_printed) simp_all

text \<open>
  C26. The internal port trusts whoever holds a node's certificate. On a calm cluster without the probe key,
  with a token that may write and read it and requests that settle between the calls, scenario 5 -- a
  write of node-1, then a value with the made-up clock \<open>{node-1: 999999}\<close> sent to every node -- leaves
  the forged value as the only version at every replica of the key, reports the hijack, and finds that
  the next write of node-1 heals it: then every replica holds that write alone.
\<close>

theorem forged_clock_hijacks_then_heals:
  assumes "served_with (ak_system ak) table" "ak_between ak = settle (ak_system ak)"
    and "ready ak ''node-1'' ''forgery-probe-key'' m s" "m ''forgery-probe-key'' = None" "ak_token ak = first_token cx"
    and "\<forall>op \<in> {Write JNull, Read}. policy table (attack_request ak ''forgery-probe-key'' op) ''forgery-probe-key''"
    and "set (sy_prefs (ak_system ak) ''forgery-probe-key'') \<subseteq> set nodes_attacked"
    and "forge_program ak ''forgery-probe-key'' s = (out, s')"
    and "lb_exec lab ''node-2'' (Forge_Clock ''forgery-probe-key'' (first_token cx)) 20 w = (Inr (printed tb out), w')"
  shows "(\<exists>r1 r2. scenario_5 lab cx w = (Inr [r1, r2], w') \<and> \<not> rs_prevented r1 \<and> rs_observed r2 = ''self-healed as expected'') \<and>
    (let hold = \<lambda>v n s. all_hold (sy_prefs (ak_system ak) ''forgery-probe-key'') ''forgery-probe-key''
           [Version (JStr v) (VectorClock [(''node-1'', n)])] (settled_cluster (ak_system ak) s)
     in hold ''poisoned'' 999999 (poison ak ''forgery-probe-key'' (snd (ask ak ''node-1'' ''forgery-probe-key'' (Write (JStr ''legit'')) s))) \<and>
        hold ''recovered'' 1000000 s')"
proof -
  let ?k = "''forgery-probe-key''"
  obtain s1 where s1: "snd (ask ak ''node-1'' ?k (Write (JStr ''legit'')) s) = s1"
      and poisoned: "ready ak ''node-1'' ?k (m(?k \<mapsto> (JStr ''poisoned'', [(''node-1'', 999999)]))) (poison ak ?k s1)"
      and out: "out = Some [(''hijacked_value'', JStr ''poisoned''), (''recovered_value'', JStr ''recovered'')]"
      and final: "ready ak ''node-1'' ?k (m(?k \<mapsto> (JStr ''recovered'', [(''node-1'', 1000000)]))) s'"
    using forge_program_result [OF assms(1-4,6,7)] assms(8) by auto
  have "exec_snippet lab ''node-2'' (Forge_Clock ?k (first_token cx)) 20 w =
      (Inr [(''hijacked_value'', JStr ''poisoned''), (''recovered_value'', JStr ''recovered''), (''_returncode'', JInt 0)], w')"
    using exec_printed [OF assms(9)] by (simp add: out parse_forge)
  then show ?thesis
    using poisoned final
    by (auto simp: scenario_5_def seq_def return_it_def verdict_def Let_def s1 ready_def holds_entries_def versions_of_def)
qed

subsection \<open>Deletion\<close>

text \<open>A delete that nobody authorised removes the key from every node it is sent to.\<close>

lemma forged_delete_succeeds:
  assumes "served_with (ak_system ak) table" "ak_between ak = settle (ak_system ak)"
    and "ready ak ''node-2'' ''delete-probe-key'' m s"
    and "\<forall>op \<in> {Write JNull, Read}. policy table (attack_request ak ''delete-probe-key'' op) ''delete-probe-key''"
    and "set (sy_prefs (ak_system ak) ''delete-probe-key'') \<subseteq> set nodes_attacked"
    and "delete_program ak ''delete-probe-key'' s = (out, s')"
    and "lb_exec lab ''node-2'' (Forge_Delete ''delete-probe-key'' (first_token cx)) 20 w = (Inr (printed tb out), w')"
  shows "\<exists>r. scenario_6 lab cx w = (Inr [r], w') \<and> \<not> rs_prevented r"
proof -
  let ?k = "''delete-probe-key''" and ?i = "''node-2''" and ?sy = "ak_system ak"
  have pw: "policy table (attack_request ak ?k (Write v)) ?k" for v using assms(4) by (simp add: attack_request_def)
  have pr: "policy table (attack_request ak ?k Read) ?k" using assms(4) by simp
  obtain e where w1: "map_call table (attack_call ak ?i ?k (Write (JStr ''bar''))) m = (stored_response ?k e, m(?k \<mapsto> e))"
    by (simp add: policy_map_call(1) [OF pw refl] Let_def)
  from ask_ready [OF assms(1-3) _ w1]
  obtain s1 where 1: "ask ak ?i ?k (Write (JStr ''bar'')) s = (Inr (stored_response ?k e), s1)" "ready ak ?i ?k (m(?k \<mapsto> e)) s1" by auto
  have calm: "calm (sy_digest ?sy) (sy_net ?sy) ?i ?k (ak_now ak) (sy_prefs ?sy ?k) (settled_cluster ?sy s1)"
    using 1(2) by (simp add: ready_def Let_def)
  note gone = all_hold_deletes [OF calm assms(5), folded inject_all_settled [OF assms(2)]]
  have "entries_ok (m(?k := None))" using ready_clock [OF assms(3)] by (auto simp: entries_ok_def)
  then have 2: "ready ak ?i ?k (m(?k := None)) (fold (inject ak (DeleteKey ?k)) nodes_attacked s1)"
    using gone by (simp add: ready_def Let_def holds_entries_def versions_of_def)
  have r1: "map_call table (attack_call ak ?i ?k Read) (m(?k := None)) = ((404, detail_body ''''), m(?k := None))"
    by (simp add: policy_map_call(2) [OF pr refl])
  from ask_ready [OF assms(1,2) 2 _ r1]
  obtain s3 where 3: "ask ak ?i ?k Read (fold (inject ak (DeleteKey ?k)) nodes_attacked s1) = (Inr (404, detail_body ''''), s3)" by auto
  have out: "out = Some [(''status_after_forged_delete'', JInt 404)]"
    using assms(6) by (simp add: delete_program_def Let_def 1(1) 3 answer_status_def del: fold.simps)
  have "parse_output (printed tb out) = Inr [(''status_after_forged_delete'', JInt 404), (''_returncode'', JInt 0)]"
    unfolding out by (subst parse_printed) simp_all
  from exec_printed [OF assms(7) this] show ?thesis
    by (simp add: scenario_6_def seq_def return_it_def verdict_def)
qed

subsection \<open>The attacks in the laboratory\<close>

definition lab_attack :: attack where
  "lab_attack =
     \<lparr>ak_system = probe_system, ak_timing = ex_timing, ak_now = 0, ak_token = ''adm'', ak_between = settle probe_system\<rparr>"

definition lab_ctx :: ctx where
  "lab_ctx = ex_ctx\<lparr>cx_auth_tokens := probe_tokens\<rparr>"

definition lab_start :: processes where
  "lab_start = (\<lambda>i. ex_world, lab_cluster, [])"

lemma lab_attack_ready:
  "served_with (ak_system lab_attack) (JObj probe_tokens)" "ak_between lab_attack = settle (ak_system lab_attack)"
  "ak_token lab_attack = first_token lab_ctx"
  "i \<in> set nodes_attacked \<Longrightarrow> ready lab_attack i k (\<lambda>k. None) lab_start"
  "CHR '':'' \<notin> set k \<Longrightarrow> \<forall>op \<in> {Write JNull, Read}. policy (JObj probe_tokens) (attack_request lab_attack k op) k"
  "set (sy_prefs (ak_system lab_attack) k) \<subseteq> set nodes_attacked"
proof -
  show "ready lab_attack i k (\<lambda>k. None) lab_start" if "i \<in> set nodes_attacked"
    using lab_calm(1,2) [OF that, of k]
    by (simp add: ready_def Let_def lab_start_def lab_attack_def probe_system_def lab_system_def holds_entries_def entries_ok_def
        versions_of_def)
  show "\<forall>op \<in> {Write JNull, Read}. policy (JObj probe_tokens) (attack_request lab_attack k op) k" if "CHR '':'' \<notin> set k"
    using that
    by (auto simp: policy_def attack_request_def lab_attack_def probe_tokens_def token_entry_def verb_of_def method_to_verb_def
        verbs_for_def namespace_for_key_def)
  have "''node-1'' \<in> set nodes_attacked" by (simp add: nodes_attacked_def)
  then show "set (sy_prefs (ak_system lab_attack) k) \<subseteq> set nodes_attacked"
    using lab_calm(3) by (simp add: lab_attack_def probe_system_def lab_system_def)
qed (auto simp: served_with_def lab_attack_def probe_system_def lab_system_def probe_tokens_def first_token_def lab_ctx_def)

theorem replay_prevented_witness:
  "\<exists>r. scenario_4 (printing_lab (printed [] (fst (replay_program lab_attack ''replay-probe-key'' lab_start)))) lab_ctx () = (Inr [r], ()) \<and>
     rs_prevented r"
proof -
  obtain out s' where run: "replay_program lab_attack ''replay-probe-key'' lab_start = (out, s')" by (metis surj_pair)
  have node: "''node-1'' \<in> set nodes_attacked" by (simp add: nodes_attacked_def)
  have key: "CHR '':'' \<notin> set ''replay-probe-key''" by simp
  have lab: "lb_exec (printing_lab (printed [] out)) ''node-1'' (Replay ''replay-probe-key'' (first_token lab_ctx)) 20 () =
      (Inr (printed [] out), ())"
    by (simp add: printing_lab_def)
  show ?thesis
    using replay_prevented [OF lab_attack_ready(1,2) lab_attack_ready(4) [OF node] lab_attack_ready(3) lab_attack_ready(5) [OF key] run lab]
    by (auto simp: run)
qed

theorem forged_clock_hijacks_then_heals_witness:
  "\<exists>r1 r2. scenario_5 (printing_lab (printed [] (fst (forge_program lab_attack ''forgery-probe-key'' lab_start)))) lab_ctx () =
       (Inr [r1, r2], ()) \<and> \<not> rs_prevented r1"
proof -
  obtain out s' where run: "forge_program lab_attack ''forgery-probe-key'' lab_start = (out, s')" by (metis surj_pair)
  have node: "''node-1'' \<in> set nodes_attacked" by (simp add: nodes_attacked_def)
  have key: "CHR '':'' \<notin> set ''forgery-probe-key''" by simp
  have lab: "lb_exec (printing_lab (printed [] out)) ''node-2'' (Forge_Clock ''forgery-probe-key'' (first_token lab_ctx)) 20 () =
      (Inr (printed [] out), ())"
    by (simp add: printing_lab_def)
  show ?thesis
    using forged_clock_hijacks_then_heals [OF lab_attack_ready(1,2) lab_attack_ready(4) [OF node] refl lab_attack_ready(3)
        lab_attack_ready(5) [OF key] lab_attack_ready(6) run lab]
    by (auto simp: run)
qed

text \<open>With a token that may not write, the answer to the first write has no clock: the piece of scenario 4
  raises, and the scenario reports a successful replay that never happened.\<close>

lemma replay_needs_token:
  assumes "served_with (ak_system ak) table" "ak_between ak = settle (ak_system ak)" "ready ak ''node-1'' k m s"
    and "\<not> policy table (attack_request ak k (Write (JStr ''v1''))) k"
  shows "fst (replay_program ak k s) = None"
proof -
  let ?r = "(if known_token table (attack_request ak k (Write (JStr ''v1''))) then 403 else 401, detail_body '''')"
  have "map_call table (attack_call ak ''node-1'' k (Write (JStr ''v1''))) m = (?r, m)"
    using assms(4) by (simp add: map_call_def attack_call_def Let_def)
  from ask_ready [OF assms(1-3) _ this]
  obtain s1 where "ask ak ''node-1'' k (Write (JStr ''v1'')) s = (Inr ?r, s1)" by auto
  moreover have "answer_field ''clock'' (Inr ?r) = None"
    by (simp add: answer_field_def subscript_def detail_body_def)
  ultimately show ?thesis by (simp add: replay_program_def)
qed

end
