(* ===== verification/Audit_Trail.thy ===== *)
theory Audit_Trail
  imports Adversary Service
begin

section \<open>The audit trail as an attacker finds it\<close>

text \<open>
  Scenario 10 of \<open>scripts/adversarial_scenarios.py\<close> on the files of a node whose public and internal
  applications are served side by side: the pieces of Python count the lines of the two audit logs and
  truncate the public one. The log of the internal application holds one line for every request that it
  answered, and nothing notices the truncation.
\<close>

subsection \<open>The programs\<close>

definition public_log :: string where
  "public_log = ''data/node-1.audit.log''"

definition internal_log :: string where
  "internal_log = ''data/node-1.internal-audit.log''"

definition content :: "world \<Rightarrow> string \<Rightarrow> string" where
  "content w p = dict_get (wd_files w) p ''''"

definition entries :: "string \<Rightarrow> nat" where
  "entries s = length (filter (\<lambda>c. c = CHR 0x0A) s)"

definition count_public_program :: "world \<Rightarrow> (string, json) dict option" where
  "count_public_program w = Some [(''public_entries'', JInt (int (entries (content w public_log))))]"

definition count_internal_program :: "world \<Rightarrow> (string, json) dict option" where
  "count_internal_program w =
     (let s = content w internal_log
      in Some [(''internal_entries'', JInt (int (entries s))),
               (''internal_mentions_forged_ops'',
                JBool (sublist ''internal/keys'' s \<or> sublist ''internal/hints'' s \<or> sublist ''internal/gossip'' s))])"

definition truncate_program :: "world \<Rightarrow> (string, json) dict option \<times> world" where
  "truncate_program w =
     (let existed = (map_of (wd_files w) public_log \<noteq> None)
      in (Some [(''truncated'', JBool existed)],
          if existed then w\<lparr>wd_files := dict_put public_log '''' (wd_files w)\<rparr> else w))"

text \<open>The paths are those that \<open>main.py\<close> derives from the settings of the node.\<close>

lemma audit_paths:
  "cf_db_path cf = ''data/node-1.db'' \<Longrightarrow> cf_node_id cf = ''node-1'' \<Longrightarrow>
     default_audit_log_path cf = public_log \<and> default_internal_audit_log_path cf = internal_log"
  by (simp add: default_audit_log_path_def default_internal_audit_log_path_def beside_db_def path_str_def path_join_def
      path_parent_def path_of_def path_root_def public_log_def internal_log_def)

subsection \<open>A node that serves both applications\<close>

text \<open>A call is marked when it goes to the internal application.\<close>

fun serve_node ::
  "(string \<Rightarrow> bytes) \<Rightarrow> net \<Rightarrow> (real \<Rightarrow> string) \<Rightarrow> config \<Rightarrow> app \<Rightarrow> app \<Rightarrow> (bool \<times> call) list \<Rightarrow> world \<Rightarrow>
     (bool \<times> answered) list \<times> world" where
  "serve_node D nt repr cf pub inn [] w = ([], w)"
| "serve_node D nt repr cf pub inn ((internal, x) # xs) w =
     (case serve_app D nt repr cf (if internal then inn else pub) (cl_timing x) (cl_endpoint x) (cl_request x) w of
        (Inl e, who, w') \<Rightarrow> serve_node D nt repr cf pub inn xs w'
      | (Inr resp, who, w') \<Rightarrow> map_prod ((#) (internal, x, who, fst resp)) id (serve_node D nt repr cf pub inn xs w'))"

lemma serve_app_files:
  assumes "audited_app a p" "serve_app D nt repr cf a (cl_timing x) (cl_endpoint x) (cl_request x) w = (ans, who, w')"
  shows "wd_files w' =
    (if intercepted a (cl_request x) then wd_files w
     else case ans of Inl e \<Rightarrow> wd_files w | Inr resp \<Rightarrow> append_file p (audit_line repr (x, who, fst resp)) (wd_files w))"
proof (cases "intercepted a (cl_request x)")
  case True
  then show ?thesis using assms(2) unfolding serve_app_intercepted [OF assms(1) True] by simp
next
  case False
  obtain ans1 who1 w1 where inner: "routed_handler D nt repr cf a (cl_endpoint x) (cl_request x) w = (ans1, who1, w1)"
    by (metis prod_cases3)
  obtain c where w1: "w1 = w\<lparr>wd_cluster := c\<rparr>" using routed_frame [OF inner] by blast
  show ?thesis
    using assms(2) False unfolding serve_app_inner [OF assms(1) False inner] w1
    by (auto simp: audit_dispatch_def log_dispatch_def metrics_dispatch_def write_entry_def Let_def split: sum.splits if_splits)
qed

text \<open>Requests to the internal application carry no client.\<close>

lemma internal_who:
  assumes "serve_app D nt repr cf (create_internal_app self interval (Some q)) t ep req w = (Inr resp, who, w')"
  shows "who = None"
proof -
  let ?a = "create_internal_app self interval (Some q)"
  obtain ans1 who1 w1 where inner: "routed_handler D nt repr cf ?a ep req w = (ans1, who1, w1)" by (metis prod_cases3)
  have "who1 = None"
    using inner by (cases ep) (auto simp: routed_handler_def internal_app_fields split: prod.splits)
  moreover have "who = who1"
    using assms unfolding serve_app_inner [OF internal_app_fields(1) not_intercepted(2) inner]
    by (auto simp: audit_dispatch_def log_dispatch_def metrics_dispatch_def Let_def split: sum.splits if_splits)
  ultimately show ?thesis by simp
qed

lemma entries_append [simp]: "entries (s @ t) = entries s + entries t"
  by (simp add: entries_def)

lemma entries_line:
  assumes "\<And>r. float_ok (repr r)" "case who of None \<Rightarrow> True | Some i \<Rightarrow> json_ok i"
  shows "entries (audit_line repr (x, who, status)) = 1"
proof -
  let ?j = "audit_entry repr (tm_audit (cl_timing x)) (cl_request x) who status"
  have "json_ok ?j" using assms by (auto simp: audit_entry_def opt_str_def split: option.splits)
  then have "\<forall>c \<in> set (dumps ?j). printable c" by (rule printable_dumps)
  then have "\<forall>c \<in> set (dumps ?j). c \<noteq> CHR 0x0A" by (auto simp: printable_def Let_def)
  then have "filter (\<lambda>c. c = CHR 0x0A) (dumps ?j) = []" by (simp add: filter_empty_conv)
  then show ?thesis by (simp add: entries_def newline_def del: dumps.simps)
qed

subsection \<open>The verdict\<close>

lemma entries_node:
  assumes "inn = create_internal_app self interval (Some q)" "audited_app pub p" "p \<noteq> q" "\<And>r. float_ok (repr r)"
  shows "serve_node D nt repr cf pub inn calls w = (outs, w') \<Longrightarrow>
    entries (content w' q) = entries (content w q) + length (filter fst outs)"
proof (induction calls arbitrary: w outs)
  case (Cons y xs)
  obtain internal x where y: "y = (internal, x)" by (cases y)
  obtain ans who w1 where one: "serve_app D nt repr cf (if internal then inn else pub) (cl_timing x) (cl_endpoint x) (cl_request x) w =
      (ans, who, w1)"
    by (metis prod_cases3)
  obtain outs1 where rest: "serve_node D nt repr cf pub inn xs w1 = (outs1, w')"
      "outs = (case ans of Inl e \<Rightarrow> [] | Inr resp \<Rightarrow> [(internal, x, who, fst resp)]) @ outs1"
    using Cons.prems one by (cases ans) (auto simp: y map_prod_def split: prod.splits)
  have "entries (content w1 q) = entries (content w q) + (if internal \<and> \<not> isl ans then 1 else 0)"
  proof (cases internal)
    case True
    have "audited_app inn q" unfolding assms(1) by (rule internal_app_fields)
    have one': "serve_app D nt repr cf inn (cl_timing x) (cl_endpoint x) (cl_request x) w = (ans, who, w1)" using one True by simp
    have "\<not> intercepted inn (cl_request x)" unfolding assms(1) by (rule not_intercepted(2))
    with serve_app_files [OF \<open>audited_app inn q\<close> one']
    have files: "wd_files w1 = (case ans of Inl e \<Rightarrow> wd_files w
        | Inr resp \<Rightarrow> append_file q (audit_line repr (x, who, fst resp)) (wd_files w))" by simp
    show ?thesis
    proof (cases ans)
      case (Inr resp)
      have "who = None" using one' unfolding assms(1) Inr by (rule internal_who)
      then have "entries (audit_line repr (x, who, fst resp)) = 1" by (intro entries_line assms(4)) simp
      then show ?thesis using files True Inr by (simp add: content_def append_file_def del: audit_line.simps)
    qed (use files True in \<open>simp add: content_def\<close>)
  next
    case False
    have "serve_app D nt repr cf pub (cl_timing x) (cl_endpoint x) (cl_request x) w = (ans, who, w1)" using one False by simp
    from serve_app_files [OF assms(2) this] False assms(3)
    show ?thesis by (cases ans) (simp_all add: content_def append_file_def)
  qed
  then show ?case using Cons.IH [OF rest(1)] rest(2) by (cases ans) simp_all
qed simp

lemma scenario_10_verdict:
  assumes "exec_snippet lab ''node-1'' Count_Public 20 s = (Inr o1, s1)" "exec_snippet lab ''node-1'' Count_Internal 20 s1 = (Inr o2, s2)"
    and "positive (dict_get o2 ''internal_entries'' (JInt 0)) = Inr trail" "exec_snippet lab ''node-1'' Truncate_Audit 20 s2 = (Inr o3, s3)"
  shows "\<exists>r1 r2. scenario_10 lab cx s = (Inr [r1, r2], s3) \<and> rs_detected r1 = trail \<and>
    rs_observed r1 = (if trail then ''internal audit log has '' @ count_text (dict_get o2 ''internal_entries'' (JInt 0)) @ '' entries''
      else ''internal audit log is empty or missing'') \<and>
    \<not> rs_prevented r2 \<and> \<not> rs_detected r2"
  using assms by (simp add: scenario_10_def seq_def lift_it_def return_it_def verdict_def Let_def del: dumps.simps)

text \<open>C30. Scenario 10 on a node that serves both applications: after any calls, answered or not, the number
  it reports for the internal audit log is the number of requests that the internal application answered
  since the log was empty, so requests sent straight to the internal port are on record exactly when there
  were any; and the public log is empty after its truncation, with nothing to tell.\<close>

theorem audit_blind_spot:
  assumes "pub = create_public_app cf dk self table public_log" "inn = create_internal_app self interval (Some internal_log)"
    and "\<And>r. float_ok (repr r)" "content w0 internal_log = ''''"
    and "serve_node D nt repr cf pub inn calls w0 = (outs, w)"
    and "truncate_program w = (out3, w3)"
    and "lb_exec lab ''node-1'' Count_Public 20 s = (Inr (printed tb (count_public_program w)), s1)"
    and "lb_exec lab ''node-1'' Count_Internal 20 s1 = (Inr (printed tb (count_internal_program w)), s2)"
    and "lb_exec lab ''node-1'' Truncate_Audit 20 s2 = (Inr (printed tb out3), s3)"
  shows "\<exists>r1 r2. scenario_10 lab cx s = (Inr [r1, r2], s3) \<and>
    (rs_detected r1 \<longleftrightarrow> (\<exists>y \<in> set outs. fst y)) \<and>
    rs_observed r1 = (if \<exists>y \<in> set outs. fst y then ''internal audit log has '' @ dump_int (int (length (filter fst outs))) @ '' entries''
       else ''internal audit log is empty or missing'') \<and>
    \<not> rs_prevented r2 \<and> \<not> rs_detected r2 \<and> content w3 public_log = ''''"
proof -
  have pub: "audited_app pub public_log" unfolding assms(1) by (rule public_app_fields)
  have "public_log \<noteq> internal_log" by (simp add: public_log_def internal_log_def)
  from entries_node [OF assms(2) pub this assms(3,5)]
  have n: "entries (content w internal_log) = length (filter fst outs)" using assms(4) by (simp add: entries_def)
  obtain b1 where b1: "count_internal_program w =
        Some [(''internal_entries'', JInt (int (length (filter fst outs)))), (''internal_mentions_forged_ops'', JBool b1)]"
    unfolding count_internal_program_def Let_def n by blast
  obtain b3 where b3: "out3 = Some [(''truncated'', JBool b3)]"
    using assms(6) unfolding truncate_program_def Let_def by blast
  have gone: "content w3 public_log = ''''"
    using assms(6) by (auto simp: truncate_program_def Let_def content_def dict_get_def split: if_splits)
  have 1: "exec_snippet lab ''node-1'' Count_Public 20 s =
      (Inr [(''public_entries'', JInt (int (entries (content w public_log)))), (''_returncode'', JInt 0)], s1)"
    using exec_printed [OF assms(7)] by (simp add: count_public_program_def parse_printed)
  have 2: "exec_snippet lab ''node-1'' Count_Internal 20 s1 =
      (Inr [(''internal_entries'', JInt (int (length (filter fst outs)))), (''internal_mentions_forged_ops'', JBool b1),
        (''_returncode'', JInt 0)], s2)"
    using exec_printed [OF assms(8)] b1 by (simp add: parse_printed)
  have 3: "exec_snippet lab ''node-1'' Truncate_Audit 20 s2 = (Inr [(''truncated'', JBool b3), (''_returncode'', JInt 0)], s3)"
    using exec_printed [OF assms(9)] b3 by (simp add: parse_printed)
  define o2 where "o2 = [(''internal_entries'', JInt (int (length (filter fst outs)))), (''internal_mentions_forged_ops'', JBool b1),
    (''_returncode'', JInt 0)]"
  have o2: "dict_get o2 ''internal_entries'' (JInt 0) = JInt (int (length (filter fst outs)))" by (simp add: o2_def dict_get_def)
  then have trail: "positive (dict_get o2 ''internal_entries'' (JInt 0)) = Inr (0 < length (filter fst outs))" by simp
  obtain r1 r2 where r: "scenario_10 lab cx s = (Inr [r1, r2], s3)" "rs_detected r1 = (0 < length (filter fst outs))"
      "rs_observed r1 = (if 0 < length (filter fst outs)
        then ''internal audit log has '' @ count_text (dict_get o2 ''internal_entries'' (JInt 0)) @ '' entries''
        else ''internal audit log is empty or missing'')" "\<not> rs_prevented r2" "\<not> rs_detected r2"
    using scenario_10_verdict [OF 1 2 [folded o2_def] trail 3] by blast
  have "0 < length (filter fst outs) \<longleftrightarrow> (\<exists>y \<in> set outs. fst y)" by (auto simp: filter_empty_conv)
  then have some: "(0 < length (filter fst outs)) = (\<exists>y \<in> set outs. fst y)" .
  show ?thesis
    using r(1,4,5) r(2,3) [unfolded some o2 count_text.simps] gone by blast
qed

subsection \<open>A concrete audit\<close>

definition audit_lab :: "world lab" where
  "audit_lab =
     \<lparr>lb_exec = (\<lambda>node_id code timeout w.
        case code of
          Count_Public \<Rightarrow> (Inr (printed [] (count_public_program w)), w)
        | Count_Internal \<Rightarrow> (Inr (printed [] (count_internal_program w)), w)
        | Truncate_Audit \<Rightarrow> apfst (\<lambda>out. Inr (printed [] out)) (truncate_program w)
        | _ \<Rightarrow> (Inl TimeoutExpired, w)),
      lb_http = (\<lambda>call w. (Inr 200, w)), lb_override = (\<lambda>w. None), lb_set_override = (\<lambda>t w. w),
      lb_up = (\<lambda>w. (Inr (), w)), lb_clock = (\<lambda>w. (0, w)), lb_sleep = (\<lambda>s w. w),
      lb_repr = (\<lambda>x. ''0.0''), lb_two = (\<lambda>x. ''0.00'')\<rparr>"

definition audited_calls :: "(bool \<times> call) list" where
  "audited_calls =
     [(True, ex_call (ex_request ''GET'' '''' ''k'') (Internal (GetKey ''k''))), (False, ex_call (ex_request ''GET'' ''x'' '''') Healthz)]"

lemma ex_repr_ok: "float_ok (ex_repr x)"
  by (simp add: float_ok_def ex_repr_def is_float_literal_def strip_minus_def int_part_ok_def drop_frac_def drop_exp_def Let_def
      is_numchar_def is_digit_def digit_char_def)

theorem audit_blind_spot_witness:
  "\<exists>outs w r1 r2 w3. serve_node bytes_of ex_net ex_repr ex_settings (create_public_app ex_settings ex_disk ''a'' ex_tokens public_log)
       (create_internal_app ''a'' None (Some internal_log)) audited_calls ex_world = (outs, w) \<and>
     scenario_10 audit_lab ex_ctx w = (Inr [r1, r2], w3) \<and> (rs_detected r1 \<longleftrightarrow> (\<exists>y \<in> set outs. fst y)) \<and> \<not> rs_detected r2"
proof -
  obtain outs w where s: "serve_node bytes_of ex_net ex_repr ex_settings (create_public_app ex_settings ex_disk ''a'' ex_tokens public_log)
      (create_internal_app ''a'' None (Some internal_log)) audited_calls ex_world = (outs, w)"
    by (metis surj_pair)
  obtain out3 w3 where t: "truncate_program w = (out3, w3)" by (metis surj_pair)
  have empty: "content ex_world internal_log = ''''" by (simp add: content_def ex_world_def)
  have lab: "lb_exec audit_lab ''node-1'' Count_Public 20 w = (Inr (printed [] (count_public_program w)), w)"
    "lb_exec audit_lab ''node-1'' Count_Internal 20 w = (Inr (printed [] (count_internal_program w)), w)"
    "lb_exec audit_lab ''node-1'' Truncate_Audit 20 w = (Inr (printed [] out3), w3)"
    by (simp_all add: audit_lab_def t)
  show ?thesis using s audit_blind_spot [OF refl refl ex_repr_ok empty s t lab, of ex_ctx] by blast
qed

end
