(* ===== verification/Healing.thy ===== *)
theory Healing
  imports Operations
begin

section \<open>Hinted handoff heals\<close>

text \<open>
  \<open>Handoff\<close> shows that after a write every replica holds the version or the hint holder has it pending for
  that replica. Here the other half: a gossip round of the hint holder whose flushes are not disturbed
  brings the version to every replica that the holder believes up, and leaves the rest pending.
\<close>

definition quiet_flush :: "(nat \<Rightarrow> fate) \<Rightarrow> bool" where
  "quiet_flush fates \<longleftrightarrow> (\<forall>i. fates i = ([], Delivered, []))"

lemma quiet_flush_ok: "quiet_flush fates \<Longrightarrow> flush_fates_ok {} fates"
  by (simp add: quiet_flush_def flush_fates_in_def)

text \<open>A quiet flush raises nothing and leaves the gossip states alone.\<close>

lemma put_serve_gossip: "nd_gossip (snd (serve nt (PutKey k x vc) nd)) = nd_gossip nd"
  by (auto simp: on_route_def put_key_local_def put_local_def Let_def map_prod_def split: option.splits sum.splits prod.splits)

lemma flush_items_quiet:
  assumes "net_host nt u = Some target" "quiet_flush fates"
  shows "cluster_ok c \<Longrightarrow> \<forall>(k, v) \<in> set items. version_ok v \<Longrightarrow>
    fst (flush_items nt self target u fates i items c) = None \<and>
    nd_gossip (snd (flush_items nt self target u fates i items c) j) = nd_gossip (c j)"
proof (induction items arbitrary: c i)
  case (Cons kv items)
  obtain k v where kv: "kv = (k, v)" by (cases kv)
  let ?req = "PutKey k (ver_value v) (ver_clock v)"
  let ?c1 = "c(target := snd (serve nt ?req (c target)))"
  have v: "version_ok v" and rest: "\<forall>(k, v) \<in> set items. version_ok v" using Cons.prems(2) kv by auto
  have f: "fates i = ([], Delivered, [])" using assms(2) by (simp add: quiet_flush_def)
  have send: "http_send nt Delivered u ?req c = (Inr (fst (serve nt ?req (c target))), ?c1)"
    using http_send_delivered [OF assms(1)] .
  have "trace {} c ?c1" using http_send_trace [where Q = "allowed {}" and nt = nt and req = ?req and c = c and dl = Delivered and u = u, OF request_ok_put(1) [OF spreads_allowed [OF v]]] send
    by simp
  then have ok1: "cluster_ok ?c1" using Cons.prems(1) by (rule trace_ok)
  have same: "nd_gossip (?c1 j) = nd_gossip (c j)" by (simp add: put_serve_gossip del: serve.simps)
  show ?case
  proof (cases "fst (fst (serve nt ?req (c target))) = 200")
    case True
    obtain h where h: "clear_hint (?c1 self) target k = Inr ((?c1 self)\<lparr>nd_hints := h\<rparr>)"
      using clear_hint_laws [OF cluster_okD [OF ok1]] by blast
    let ?c2 = "?c1(self := (?c1 self)\<lparr>nd_hints := h\<rparr>)"
    have "trace {HintClear self target k} ?c1 ?c2" using clear_hint_trace [where c = ?c1 and i = self, OF h] by simp
    then have ok2: "cluster_ok ?c2" using ok1 by (rule trace_ok)
    have "flush_items nt self target u fates i (kv # items) c = flush_items nt self target u fates (i + 1) items ?c2"
      using f send True h kv by (simp add: case_prod_unfold Let_def del: serve.simps fun_upd_apply)
    moreover have "nd_gossip (?c2 j) = nd_gossip (?c1 j)" by (cases "j = self") (simp_all del: serve.simps)
    then have "nd_gossip (?c2 j) = nd_gossip (c j)" using same by (rule trans)
    ultimately show ?thesis using Cons.IH [OF ok2 rest, of "i + 1"] by (metis (no_types))
  next
    case False
    then have "flush_items nt self target u fates i (kv # items) c = flush_items nt self target u fates (i + 1) items ?c1"
      using f send kv by (simp add: case_prod_unfold Let_def del: serve.simps fun_upd_apply)
    then show ?thesis using Cons.IH [OF ok1 rest, of "i + 1"] same by (metis (no_types))
  qed
qed simp

lemma flush_hints_for_quiet:
  assumes "cluster_ok c" "net_host nt u = Some target" "quiet_flush fates" "map_of (nd_peers (c self)) target = Some u"
  shows "fst (flush_hints_for nt self target fates c) = None"
    "nd_gossip (snd (flush_hints_for nt self target fates c) j) = nd_gossip (c j)"
proof -
  have u: "peer_base_url (c self) target = Inr u" using assms(4) by (simp add: peer_base_url_def)
  obtain d where d: "hs_pending_for (nd_hints (c self)) target = Inr d"
      "\<forall>(k, v) \<in> set (concat (map (\<lambda>(k, vs). map (Pair k) vs) d)). version_ok v"
    using pending_items [OF cluster_okD [OF assms(1)], of self target] by blast
  from flush_items_quiet [OF assms(2,3,1) d(2)]
  show "fst (flush_hints_for nt self target fates c) = None"
    "nd_gossip (snd (flush_hints_for nt self target fates c) j) = nd_gossip (c j)"
    using d(1) u by (simp_all add: flush_hints_for_def)
qed

text \<open>A flush for one replica heals it and leaves the others safe.\<close>

lemma flush_heals:
  assumes "cluster_ok c" "wired nt c h k" "quiet_flush fates" "map_of (nd_peers (c h)) t = Some u" "safe h k v c m"
  shows "safe h k v (snd (flush_hints_for nt h t fates c)) m"
    "m = t \<Longrightarrow> versions.covered (siblings (snd (flush_hints_for nt h t fates c) m) k) v"
    "versions.covered (siblings (c m) k) v \<Longrightarrow> versions.covered (siblings (snd (flush_hints_for nt h t fates c) m) k) v"
proof -
  let ?c = "snd (flush_hints_for nt h t fates c)"
  have t: "trace (own_clears h t UNIV) c ?c"
    using flush_hints_for_trace [OF assms(1) quiet_flush_ok [OF assms(3)], of h t "own_clears h t UNIV" nt] by simp
  have nd: "kept (own_clears h t UNIV) m k" by simp
  show cov: "versions.covered (siblings (?c m) k) v" if "versions.covered (siblings (c m) k) v"
    using trace_covered [OF t assms(1) nd that] .
  show healed: "versions.covered (siblings (?c m) k) v" if mt: "m = t"
  proof (cases "versions.covered (siblings (c m) k) v")
    case False
    then obtain w where w: "w \<in> set (hs_pending (nd_hints (c h)) t k)" "ver_clock v \<le> ver_clock w"
      using assms(5) mt by (auto simp: safe_def versions.covered_def hinted_def)
    have del: "\<forall>i. kept {} i k" "\<forall>j. fst (snd (fates j)) = Delivered" using assms(3) by (simp_all add: quiet_flush_def)
    have "versions.covered (siblings (?c m) k) w"
      using flush_delivers [OF assms(1,2) quiet_flush_ok [OF assms(3)] del assms(4) w(1)] mt
      by (simp add: versions.covered_def)
    then show ?thesis using w(2) by (rule versions.covered_trans)
  qed (rule cov)
  show "safe h k v ?c m"
  proof (cases "m = t \<or> versions.covered (siblings (c m) k) v")
    case True
    then show ?thesis using healed cov by (auto simp: safe_def)
  next
    case False
    then have "versions.covered (hinted (c h) m k) v" "HintClear h m k \<notin> own_clears h t UNIV"
      using assms(5) by (auto simp: safe_def own_clears_def)
    then show ?thesis using trace_hinted [OF t assms(1)] by (simp add: safe_def)
  qed
qed

lemma flush_live_heals:
  assumes "\<forall>m. quiet_flush (fates m)"
  shows "cluster_ok c \<Longrightarrow> wired nt c h k \<Longrightarrow> \<forall>m \<in> set ms. map_of (nd_peers (c h)) m \<noteq> None \<Longrightarrow> safe h k v c m \<Longrightarrow>
    fst (flush_live nt h now fates ms c) = None \<and> safe h k v (snd (flush_live nt h now fates ms c)) m \<and>
    nd_gossip (snd (flush_live nt h now fates ms c) h) = nd_gossip (c h) \<and>
    (versions.covered (siblings (c m) k) v \<or> m \<in> set ms \<and> \<not> believed_down (nd_gossip (c h)) m now (nd_timeout (c h)) \<longrightarrow>
      versions.covered (siblings (snd (flush_live nt h now fates ms c) m) k) v)"
proof (induction ms arbitrary: c)
  case (Cons t ms)
  have peers: "\<forall>m \<in> set ms. map_of (nd_peers (c h)) m \<noteq> None" using Cons.prems(3) by simp
  show ?case
  proof (cases "believed_down (nd_gossip (c h)) t now (nd_timeout (c h))")
    case True
    then show ?thesis using Cons.IH [OF Cons.prems(1,2) peers Cons.prems(4)] by auto
  next
    case False
    obtain u where u: "map_of (nd_peers (c h)) t = Some u" using Cons.prems(3) by auto
    let ?c = "snd (flush_hints_for nt h t (fates t) c)"
    have q: "quiet_flush (fates t)" using assms by blast
    have ad: "net_host nt u = Some t" using Cons.prems(2) u by (simp add: wired_def)
    note quiet = flush_hints_for_quiet [OF Cons.prems(1) ad q u]
    note heal = flush_heals [OF Cons.prems(1,2) q u Cons.prems(4)]
    have t: "trace (own_clears h t UNIV) c ?c"
      using flush_hints_for_trace [OF Cons.prems(1) quiet_flush_ok [OF q], of h t "own_clears h t UNIV" nt] by simp
    have peers': "\<forall>m \<in> set ms. map_of (nd_peers (?c h)) m \<noteq> None" using peers trace_fields(2) [OF t] by simp
    have "flush_live nt h now fates (t # ms) c = flush_live nt h now fates ms ?c"
      using False quiet(1) by (cases "flush_hints_for nt h t (fates t) c") simp
    then show ?thesis
      using Cons.IH [OF trace_ok [OF t Cons.prems(1)] wired_trace [OF Cons.prems(2) t] peers' heal(1)] heal(2,3) quiet(2) [of h]
        trace_fields(6) [OF t, of h] by auto
  qed
qed simp

text \<open>The exchange of a gossip round raises nothing when the chosen node is a peer.\<close>

lemma exchange_None:
  assumes "map_of (nd_peers (c self)) (gi_choice gi) = Some u"
  shows "fst (exchange nt self gi c) = None"
proof -
  obtain res c1 where send: "http_send nt (gi_delivery gi) u (PostGossip self (to_wire (nd_gossip (c self))) (gi_received gi))
      (run (gi_before gi) c) = (res, c1)"
    by (metis surj_pair)
  show ?thesis
  proof (cases res)
    case (Inr resp)
    obtain m where "resp = fst (serve nt (PostGossip self (to_wire (nd_gossip (c self))) (gi_received gi)) (run (gi_before gi) c m))"
      using http_send_Inr [OF send [unfolded Inr]] by blast
    then show ?thesis
      using assms send Inr
      by (simp add: exchange_def peer_base_url_def gossip_endpoint_def handle_gossip_def table_roundtrip Let_def)
  qed (use assms send in \<open>simp add: exchange_def peer_base_url_def\<close>)
qed

text \<open>C10. Hinted handoff heals. Take a state in which every replica of a key holds a version or the hint
  holder has the version pending for it, as every write leaves it. Whatever others do during its
  exchange, short of deleting the key, clearing its hints or overtaking a \<open>put_local\<close> of it, a gossip round of the hint holder with
  undisturbed flushes then brings the version to every peer that the holder believes up at the end of the
  round, and keeps it at the others or pending for them.\<close>

theorem hinted_handoff_heals:
  fixes v :: version
  assumes "cluster_ok c" "wired nt c h k" "map_of (nd_peers (c h)) (gi_choice gi) = Some u"
    and "\<forall>a \<in> set (gi_before gi) \<union> set (gi_after gi). allowed A a" "\<forall>i. kept A i k" "\<forall>t. HintClear h t k \<notin> A"
    and "\<forall>m. gi_fates gi m = (\<lambda>i. ([], Delivered, []))"
    and "\<forall>m \<in> ms. (\<exists>w \<in> set (siblings (c m) k). dominates_or_equal (ver_clock w) (ver_clock v)) \<or>
      (\<exists>w \<in> set (hs_pending (nd_hints (c h)) m k). dominates_or_equal (ver_clock w) (ver_clock v))"
    and "gossip_round nt h gi c = (r, c')" "m \<in> ms"
  shows "r = None \<and>
    (map_of (nd_peers (c h)) m \<noteq> None \<and> \<not> believed_down (nd_gossip (c' h)) m (gi_now gi) (nd_timeout (c' h)) \<longrightarrow>
      (\<exists>w \<in> set (siblings (c' m) k). dominates_or_equal (ver_clock w) (ver_clock v))) \<and>
    ((\<exists>w \<in> set (siblings (c' m) k). dominates_or_equal (ver_clock w) (ver_clock v)) \<or>
     (\<exists>w \<in> set (hs_pending (nd_hints (c' h)) m k). dominates_or_equal (ver_clock w) (ver_clock v)))"
proof -
  have "gossip_ok (nd_gossip (c h))" using node_ok_parts(3) [OF cluster_okD [OF assms(1)]] .
  then obtain g where g: "tick (gi_tick gi) (nd_gossip (c h)) = Inr g" using tick_ok by blast
  define c1 where "c1 = perform (GossipTick h (gi_tick gi)) c"
  have c1: "c1 = c(h := (c h)\<lparr>nd_gossip := g\<rparr>)" using g by (simp add: c1_def)
  have t1: "trace A c c1" unfolding c1_def by (rule trace_perform) (simp add: allowed_def)
  have choice: "map_of (nd_peers (c1 h)) (gi_choice gi) = Some u" using assms(3) trace_fields(2) [OF t1] by simp
  obtain c2 where ex: "exchange nt h gi c1 = (None, c2)" using exchange_None [where c = c1 and gi = gi, OF choice] by (metis prod.collapse)
  have "gossip_inputs_ok A gi" using assms(4,7) by (auto simp: gossip_inputs_in_def flush_fates_in_def)
  from exchange_trace [OF trace_ok [OF t1 assms(1)] this, of nt h] have t2: "trace A c c2" using t1 ex trace_trans by fastforce
  note ok2 = trace_ok [OF t2 assms(1)] and wired2 = wired_trace [OF assms(2) t2] and peers2 = trace_fields(2) [OF t2]
  let ?ms = "map fst (nd_peers (c2 h))"
  have "nd_peers (c1 h) \<noteq> []" using choice by auto
  then have round: "gossip_round nt h gi c = flush_live nt h (gi_now gi) (gi_fates gi) ?ms c2"
    unfolding gossip_round_def g sum.case Let_def c1 [symmetric] by (simp add: ex)
  have "spares A h k" using assms(5,6) by (simp add: spares_def)
  then have safe2: "safe h k v c2 m"
    using safe_trace [OF t2 assms(1)] assms(8,10) by (simp add: safe_def versions.covered_def hinted_def)
  have quiet: "\<forall>m. quiet_flush (gi_fates gi m)" using assms(7) by (simp add: quiet_flush_def)
  have peers: "\<forall>t \<in> set ?ms. map_of (nd_peers (c2 h)) t \<noteq> None" by (simp add: map_of_eq_None_iff)
  note live = flush_live_heals [OF quiet ok2 wired2 peers safe2, of "gi_now gi", folded round, unfolded assms(9) fst_conv snd_conv]
  let ?B = "A \<union> {HintClear h t k' | t k'. True}"
  have "gossip_inputs_ok ?B gi" using assms(4,7) by (auto simp: gossip_inputs_in_def flush_fates_in_def allowed_def)
  moreover have "\<forall>t. own_clears h t UNIV \<subseteq> ?B" by (auto simp: own_clears_def)
  ultimately have "trace ?B c c'" using gossip_round_trace [OF assms(1), of ?B gi h nt] assms(9) by simp
  from trace_fields(6) [OF this, of h] have timeout: "nd_timeout (c' h) = nd_timeout (c2 h)" using trace_fields(6) [OF t2, of h] by simp
  have member: "map_of (nd_peers (c h)) m \<noteq> None \<Longrightarrow> m \<in> set ?ms" by (simp add: peers2 map_of_eq_None_iff)
  have parts: "r = None" "safe h k v c' m" "nd_gossip (c' h) = nd_gossip (c2 h)"
      "m \<in> set ?ms \<and> \<not> believed_down (nd_gossip (c2 h)) m (gi_now gi) (nd_timeout (c2 h)) \<Longrightarrow> versions.covered (siblings (c' m) k) v"
    using live by blast+
  then show ?thesis
    using member by (auto simp: timeout parts(3) safe_def versions.covered_def hinted_def)
qed

text \<open>A hint for \<open>b\<close> at \<open>a\<close>; the round exchanges gossip with \<open>c\<close>, and \<open>b\<close> gets its version.\<close>

definition ex_round :: gossip_inputs where
  "ex_round = \<lparr>gi_tick = 1, gi_choice = ''c'', gi_before = [], gi_delivery = Unreachable, gi_received = 1, gi_after = [],
     gi_merge = 1, gi_now = 1, gi_fates = (\<lambda>m i. ([], Delivered, []))\<rparr>"

theorem hinted_handoff_heals_witness:
  "let c = perform (HintAdd ''a'' ''b'' ''k'' ex_v1) (ex_cluster 3)
   in \<exists>w \<in> set (siblings (snd (gossip_round ex_net ''a'' ex_round c) ''b'') ''k''). dominates_or_equal (ver_clock w) (ver_clock ex_v1)"
proof -
  let ?a = "HintAdd ''a'' ''b'' ''k'' ex_v1"
  let ?c = "perform ?a (ex_cluster 3)"
  have a: "action_ok ?a" by (simp add: ex_version_ok)
  have ok: "cluster_ok ?c" using perform_ok [OF ex_cluster_ok a] .
  have t: "trace {} (ex_cluster 3) ?c" using a by (intro trace_perform) (simp add: allowed_def)
  have wired: "wired ex_net ?c ''a'' ''k''" using ex_wired t by (rule wired_trace)
  have peers: "map_of (nd_peers (?c ''a'')) (gi_choice ex_round) = Some (ex_url ''c'')" "map_of (nd_peers (?c ''a'')) ''b'' \<noteq> None"
    using trace_fields(2) [OF t, of "''a''"] by (simp_all add: ex_peers ex_round_def)
  have pending: "\<exists>w \<in> set (hs_pending (nd_hints (?c ''a'')) ''b'' ''k''). dominates_or_equal (ver_clock w) (ver_clock ex_v1)"
    using hinted_perform [OF ex_cluster_ok a, of 3 "''a''" "''b''" "''k''"] hs_pending_new [of "''b''" "''k''"]
    by (simp add: hinted_def reconcile_def)
  obtain r c' where round: "gossip_round ex_net ''a'' ex_round ?c = (r, c')" by force
  have quiet: "\<forall>m. gi_fates ex_round m = (\<lambda>i. ([], Delivered, []))"
    and others: "\<forall>a \<in> set (gi_before ex_round) \<union> set (gi_after ex_round). allowed {} a" by (simp_all add: ex_round_def)
  note heal = hinted_handoff_heals [OF ok wired peers(1) others _ _ quiet _ round, of "{''b''}" ex_v1 "''b''"]
  have "\<not> believed_down (nd_gossip (c' ''a'')) ''b'' (gi_now ex_round) (nd_timeout (c' ''a''))"
  proof -
    have "nd_gossip (?c ''a'') = gossip_init ''a'' 0"
      by (cases "hs_add (Memory memory_new) ''b'' ''k'' ex_v1") (simp_all add: add_hint_def ex_node_def node_init_def)
    then obtain g where g: "tick 1 (nd_gossip (?c ''a'')) = Inr g" "map_of (gs_table g) ''b'' = None"
      by (simp add: tick_def gossip_init_def del: perform.simps)
    let ?c1 = "?c(''a'' := (?c ''a'')\<lparr>nd_gossip := g\<rparr>)"
    have c1: "?c1 = perform (GossipTick ''a'' 1) ?c" using g(1) by simp
    have t1: "trace {} ?c ?c1" unfolding c1 by (rule trace_perform) (simp add: allowed_def)
    have "exchange ex_net ''a'' ex_round ?c1 = (None, ?c1)"
      using peers(1) by (simp add: exchange_def peer_base_url_def ex_round_def http_send_def del: perform.simps split: option.split)
    moreover have "nd_peers (?c1 ''a'') \<noteq> []" using peers(1) by (auto simp del: perform.simps)
    ultimately have live: "flush_live ex_net ''a'' 1 (gi_fates ex_round) (map fst (nd_peers (?c1 ''a''))) ?c1 = (r, c')"
      using round g(1) by (simp add: gossip_round_def Let_def ex_round_def del: perform.simps)
    have safe: "safe ''a'' ''k'' ex_v1 ?c1 ''b''"
      using pending by (auto simp: safe_def versions.covered_def hinted_def simp del: perform.simps)
    have "\<forall>m. quiet_flush (gi_fates ex_round m)" "\<forall>m \<in> set (map fst (nd_peers (?c1 ''a''))). map_of (nd_peers (?c1 ''a'')) m \<noteq> None"
      using quiet by (auto simp: quiet_flush_def map_of_eq_None_iff simp del: perform.simps)
    then have "nd_gossip (c' ''a'') = nd_gossip (?c1 ''a'')"
      using flush_live_heals [OF _ trace_ok [OF t1 ok] wired_trace [OF wired t1] _ safe, of "gi_fates ex_round"] live
      by (metis snd_conv)
    then show ?thesis using g(2) by (simp add: believed_down_def)
  qed
  then show ?thesis using heal pending peers(2) round by simp
qed

end
