(* ===== verification/Rejoin.thy ===== *)
theory Rejoin
  imports Restart Operations
begin

section \<open>Restarted nodes and the failure detector\<close>

text \<open>
  A node counts its gossip rounds from 0 again when \<open>run.py\<close> starts it anew, and \<open>merge_wire\<close> ignores
  every counter that is not higher than the one on record. So the peers keep the record from before the
  restart, with the time at which it last advanced, until the new counter has passed it: after an hour of
  uptime, for an hour. The other nodes take the restarted one for dead all that while.

  \<open>history c0 (c # h)\<close> says that the cluster came from \<open>c0\<close> to \<open>c\<close> through the states \<open>h\<close>, in a way that
  every table that a node merges was some node's own table at some earlier moment. Messages may be lost,
  repeated and arbitrarily late. \<open>round_history\<close> and \<open>silent_history\<close> show that gossip rounds and the
  other operations do just that.
\<close>

subsection \<open>Histories\<close>

definition silent :: "action \<Rightarrow> bool" where
  "silent a \<longleftrightarrow> action_ok a \<and> \<not> gossips a"

interpretation silent: hint_policy silent nt for nt
  by unfold_locales (auto simp: silent_def spreads_def)

lemma silent_state_ok: "silent.state_ok nt c \<longleftrightarrow> cluster_ok c"
  by (auto simp: silent.state_ok_def silent_def spreads_def intro: hinted_version_ok cluster_okD)

inductive history :: "cluster \<Rightarrow> cluster list \<Rightarrow> bool" for c0 where
  begun: "history c0 [c0]"
| other: "history c0 (c # h) \<Longrightarrow> silent a \<Longrightarrow> history c0 (perform a c # c # h)"
| ticks: "history c0 (c # h) \<Longrightarrow> history c0 (perform (GossipTick i now) c # c # h)"
| hears: "history c0 (c # h) \<Longrightarrow> d \<in> set (c # h) \<Longrightarrow>
    history c0 (perform (GossipMerge i now (to_wire (nd_gossip (d j)))) c # c # h)"

lemma history_ok:
  "history c0 h \<Longrightarrow> cluster_ok c0 \<Longrightarrow> \<forall>d \<in> set h. cluster_ok d \<and> (\<forall>i. config_of (d i) = config_of (c0 i))"
proof (induction rule: history.induct)
  case (other c h a)
  then show ?case using perform_ok [of c a] by (simp add: silent_def del: perform.simps)
next
  case (ticks c h i now)
  then show ?case using perform_ok [of c "GossipTick i now"] by (simp del: perform.simps)
next
  case (hears c h d i now j)
  then have "dict_ok (to_wire (nd_gossip (d j)))" by (auto intro: dict_ok_to_wire node_ok_parts(3) [OF cluster_okD])
  then show ?case using hears perform_ok [of c "GossipMerge i now (to_wire (nd_gossip (d j)))"] by (simp del: perform.simps)
qed simp

lemma silent_history:
  assumes "steps silent c c'" "history c0 (c # h)"
  shows "\<exists>h'. history c0 (c' # h')"
  using assms(1)
proof (induction rule: trace_induct)
  case refl
  then show ?case using assms(2) by blast
next
  case (step a d)
  then show ?case using history.other by blast
qed

text \<open>A gossip round in which nobody else acts, with any outcome of its requests.\<close>

lemma exchange_history:
  assumes "history c0 (c # h)" "gi_before gi = []" "gi_after gi = []"
  shows "\<exists>h'. history c0 (snd (exchange nt self gi c) # h')"
proof -
  let ?table = "to_wire (nd_gossip (c self))"
  have heard: "history c0 (c(m := snd (serve nt (PostGossip self ?table t) (c m))) # c # h)" for m t
    using history.hears [OF assms(1), of c m t self] serve_actions [of c m nt "PostGossip self ?table t"] by simp
  have answer: "\<exists>h'. history c0 (d(self := (d self)\<lparr>nd_gossip := merge_wire t (to_wire (nd_gossip (d m))) (nd_gossip (d self))\<rparr>) # h')"
    if "history c0 (d # h')" for d h' m t
    using history.hears [OF that, of d self t m] by (auto simp: handle_gossip_def)
  show ?thesis
  proof (cases "peer_base_url (c self) (gi_choice gi)")
    case (Inr u)
    show ?thesis
    proof (cases "net_host nt u")
      case (Some m)
      let ?d = "c(m := snd (serve nt (PostGossip self ?table (gi_received gi)) (c m)))"
      have reply: "fst (serve nt (PostGossip self ?table (gi_received gi)) (c m)) = (200, JObj [(''table'', table_json (to_wire (nd_gossip (?d m))))])"
        by (simp add: gossip_endpoint_def handle_gossip_def Let_def)
      show ?thesis
        using Inr Some assms heard [of m "gi_received gi"] answer [OF heard [of m "gi_received gi"], of "gi_merge gi" m] reply
        by (cases "gi_delivery gi") (auto simp: exchange_def http_send_def table_roundtrip Let_def case_prod_unfold simp del: serve.simps)
    qed (use Inr assms in \<open>auto simp: exchange_def http_send_def\<close>)
  qed (use assms(1) in \<open>auto simp: exchange_def\<close>)
qed

lemma round_history:
  assumes "history c0 (c # h)" "cluster_ok c0" "gi_before gi = []" "gi_after gi = []"
    and "\<forall>m i. \<exists>dl. gi_fates gi m i = ([], dl, [])"
  shows "\<exists>h'. history c0 (snd (gossip_round nt self gi c) # h')"
proof -
  have "cluster_ok c" using history_ok [OF assms(1,2)] by simp
  then obtain g where g: "tick (gi_tick gi) (nd_gossip (c self)) = Inr g"
    using tick_ok node_ok_parts(3) [OF cluster_okD] by blast
  define c1 where "c1 = c(self := (c self)\<lparr>nd_gossip := g\<rparr>)"
  have h1: "history c0 (c1 # c # h)" using history.ticks [OF assms(1), of self "gi_tick gi"] g by (simp add: c1_def)
  define ex where "ex = (if nd_peers (c1 self) \<noteq> [] then exchange nt self gi c1 else (None, c1))"
  obtain h2 where h2: "history c0 (snd ex # h2)"
    using exchange_history [OF h1 assms(3,4), of nt self] h1 by (cases "nd_peers (c1 self) = []") (auto simp: ex_def)
  let ?flush = "snd (flush_live nt self (gi_now gi) (gi_fates gi) (map fst (nd_peers (snd ex self))) (snd ex))"
  have "flush_fates_in silent (gi_fates gi m)" for m using assms(5) by (auto simp: flush_fates_in_def) (metis fst_conv snd_conv empty_iff list.set(1))+
  moreover have "silent (HintClear self m k)" for m k by (simp add: silent_def)
  moreover have "silent.state_ok nt (snd ex)" using history_ok [OF h2 assms(2)] by (simp add: silent_state_ok)
  ultimately have "steps silent (snd ex) ?flush" by (intro silent.flush_live_steps)
  then obtain h3 where h3: "history c0 (?flush # h3)" using silent_history [OF _ h2] by blast
  have "snd (gossip_round nt self gi c) = (case fst ex of Some e \<Rightarrow> snd ex | None \<Rightarrow> ?flush)"
    unfolding gossip_round_def g sum.case Let_def c1_def [symmetric] ex_def [symmetric]
    by (simp add: case_prod_unfold split: option.splits)
  then show ?thesis using h2 h3 by (cases "fst ex") auto
qed

subsection \<open>The record of a node that counts anew\<close>











subsection \<open>Writes that fail\<close>














end
