(* ===== verification/Races.thy ===== *)
theory Races
  imports Attacks
begin

section \<open>Overtaken storage calls\<close>

text \<open>
  \<open>put_local\<close> of \<open>node.py\<close> reads the siblings of a key, reconciles, and writes them back, without a lock,
  while the handlers of the internal endpoints run on a thread pool. What that costs: at one replica, a
  version; for the clients, an acknowledged write. These are the runs that the guarantees of
  \<open>Consistency\<close>, \<open>Handoff\<close> and \<open>Restart\<close> exclude by \<open>kept\<close>.
\<close>

text \<open>Nothing guards the two storage accesses inside \<open>put_local\<close>: when two threads of a replica read
  the siblings of a key before either writes, the second write drops the first version even though
  the two are concurrent, while in either serial order both survive.\<close>

theorem unlocked_put_local_drops_version:
  assumes "node_ok nd" "version_ok v" "version_ok w" "siblings nd k = []"
    and "compare (ver_clock v) (ver_clock w) = Concurrent"
  shows "\<exists>read. get_local nd k = Inr read \<and>
    siblings (put_local_write (put_local_write nd k read v) k read w) k = [w] \<and>
    (\<exists>nd1 nd2. put_local nd k v = Inr nd1 \<and> put_local nd1 k w = Inr nd2 \<and> siblings nd2 k = [v, w])"
proof -
  have read: "get_local nd k = Inr []" using get_local_siblings [OF assms(1), of k] assms(4) by simp
  let ?nd1 = "put_local_write nd k [] v"
  note one = put_local_write_laws [OF assms(1) siblings_ok_Nil assms(2), where k = k]
  have sv: "siblings ?nd1 k = [v]" using one(2) [of k] by (simp add: reconcile_def)
  have race: "siblings (put_local_write ?nd1 k [] w) k = [w]"
    using put_local_write_laws(2) [OF one(1) siblings_ok_Nil assms(3), of k k] by (simp add: reconcile_def)
  have p1: "put_local nd k v = Inr ?nd1" using read by (simp add: put_local_halves)
  have p2: "put_local ?nd1 k w = Inr (put_local_write ?nd1 k [v] w)"
    using get_local_siblings [OF one(1), of k] sv by (simp add: put_local_halves)
  have vok: "siblings_ok [v]" using siblings_ok_reconcile [OF siblings_ok_Nil assms(2)] by (simp add: reconcile_def)
  have "reconcile [v] w = [v, w]"
    using assms(5) by (auto simp: reconcile_def compare_Concurrent less_vclock_def)
  then have "siblings (put_local_write ?nd1 k [v] w) k = [v, w]"
    using put_local_write_laws(2) [OF one(1) vok assms(3), of k k] by simp
  then show ?thesis using read race p1 p2 by blast
qed

theorem unlocked_put_local_drops_version_witness:
  "siblings (put_local_write (put_local_write (ex_node 3 ''a'') ''k'' [] ex_v1) ''k'' [] ex_v2) ''k'' = [ex_v2]"
proof -
  have ok: "node_ok (ex_node 3 ''a'')" using cluster_okD [OF ex_cluster_ok, of 3 "''a''"] by simp
  have empty: "siblings (ex_node 3 ''a'') ''k'' = []" by (simp add: ex_empty)
  have conc: "compare (ver_clock ex_v1) (ver_clock ex_v2) = Concurrent"
    by (simp add: ex_v1_def ex_v2_def compare_def vc_get_def dict_get_def)
  obtain read where "get_local (ex_node 3 ''a'') ''k'' = Inr read"
      "siblings (put_local_write (put_local_write (ex_node 3 ''a'') ''k'' read ex_v1) ''k'' read ex_v2) ''k'' = [ex_v2]"
    using unlocked_put_local_drops_version [OF ok ex_version_ok empty conc] by blast
  moreover have "get_local (ex_node 3 ''a'') ''k'' = Inr []"
    by (simp add: get_local_def memory_get_def memory_new_def)
  ultimately show ?thesis by simp
qed





end
