(* ===== verification/Spec2Isabelle.thy ===== *)
theory Spec2Isabelle
  imports Client_View Provenance Wire Deployment Gossip_Worker Bench_Report Intrusion Join Relay At_Rest Attack_Runs Audit_Trail
    Healing Rejoin Races
begin

text \<open>
  Verification development for dynamokv, a replicated key-value store in the style of Dynamo
  (\<open>src/dynamokv/\<close>) with its benchmark and its adversarial testbed (\<open>scripts/\<close>).

  \<^bold>\<open>The program.\<close> Every node keeps versions of keys in an encrypted local store
  (\<open>storage/\<close>, \<open>crypto.py\<close>), with vector clocks that tell which version supersedes which
  (\<open>vector_clock.py\<close>). A consistent hash ring (\<open>ring.py\<close>) gives the replicas of a key. The node
  that a client talks to coordinates: it reads from R and writes to W of N replicas (\<open>node.py\<close>), and
  what a replica missed is kept as a hint on another node (\<open>hint_store.py\<close>) and delivered after a gossip
  round (\<open>gossip.py\<close>, \<open>gossip_worker.py\<close>) shows that the replica is back. Clients use token
  authentication (\<open>auth.py\<close>) on the public routes, nodes use the internal routes over mutual TLS
  (\<open>api/routes.py\<close>); middlewares keep an audit log, a request log, a list of recent operations and
  metrics (\<open>audit.py\<close>, \<open>logging_middleware.py\<close>, \<open>recent_ops.py\<close>, \<open>metrics.py\<close>).
  \<open>main.py\<close> and \<open>run.py\<close> put the applications together from the settings of \<open>config.py\<close>.

  \<^bold>\<open>Data and the local layer.\<close>
  \<^item> \<open>Prelude\<close>: names, exceptions, Python dictionaries as association lists, decimal numerals, and the
    collections of hints.
  \<^item> \<open>Json\<close>, \<open>Base64\<close>: printing and parsing of JSON and base64 as the standard library does it, with
    their round trips. The parser has fuel; twice the length of the text is enough. CPython's limits on the
    digits of an integer and on recursion are left out.
  \<^item> \<open>Vector_Clock\<close> (\<open>vector_clock.py\<close>): clocks, comparison, merge and \<open>reconcile\<close>; the locale of
    antichains shows that reconciling any versions in any order keeps exactly the maximal ones.
  \<^item> \<open>Hash_Ring\<close> (\<open>ring.py\<close>): the ring, on the standard library's \<open>bisect\<close>; preference lists, and what adding or
    removing a node moves. The digest is a parameter.
  \<^item> \<open>Gossip\<close> (\<open>gossip.py\<close>): heartbeat tables and their merge; when a node is believed down.
  \<^item> \<open>Storage\<close>, \<open>Crypto\<close> (\<open>storage/\<close>, \<open>crypto.py\<close>): the in-memory and SQLite backends and the
    encrypting wrapper, each an interpretation of the locale of maps from keys to JSON values. AES-GCM is
    a parameter with its documented behaviour.
  \<^item> \<open>Hint_Store\<close> (\<open>hint_store.py\<close>): hints by recipient and key.

  \<^bold>\<open>The node and the cluster.\<close>
  \<^item> \<open>Node\<close> (\<open>node.py\<close>): the state of a node and the operations on one node.
  \<^item> \<open>Cluster\<close> (\<open>node.py\<close>, the internal routes of \<open>api/routes.py\<close>): coordinated reads, writes and
    deletes, hints, flushes and gossip rounds, on a cluster, a map from node ids to nodes. The order in
    which futures complete, the fate of every request (delivered, unreachable, response lost) and the
    atomic actions that others run in between are arguments of the operations, so that the theorems hold
    for every schedule.
  \<^item> \<open>Traces\<close>: every operation is a sequence of atomic actions at nodes, with the invariant of clusters.
    \<open>put_local\<close> reads, reconciles and writes without a lock, on a thread pool. Its write is the action
    \<open>StoreLate\<close>, with what the call had read; when no other write of the row came in between, it is the
    action \<open>StorePut\<close> (\<open>put_local_serialised\<close>), and a coordinator's own call that was overtaken is a
    \<open>StoreLate\<close> too (\<open>own_call_overtaken\<close>). The guarantees about a key take as allowed any actions
    without deletes and overtaken calls of it (\<open>kept\<close>).
  \<^item> \<open>Races\<close>: what an overtaken call costs, so that this restriction cannot be dropped: a read misses an
    acknowledged write although R + W > N.
  \<^item> \<open>Quorum\<close>, \<open>Consistency\<close>, \<open>Handoff\<close>, \<open>Operations\<close>, \<open>Healing\<close>: the quorum loop; reads after
    acknowledged writes with R + W > N; no replica is forgotten, given a further node to hold hints; what gets, deletes and overlapping writes
    give; a gossip round of the hint holder brings the hinted versions home. \<open>Examples\<close> has the concrete
    clusters of the witnesses.
  \<^item> \<open>Provenance\<close>: runs of whole operations and gossip rounds as an inductive relation, with the invariant
    that every version anywhere stems from a write of its key. The locales \<open>hint_policy\<close> and
    \<open>action_policy\<close> (\<open>Handoff\<close>) say what a class of actions must admit for the flushes and for all
    operations to stay inside it; they are interpreted on the allowed actions of the traces, the fair
    ones of the runs and the silent ones of \<open>Rejoin\<close>.
  \<^item> \<open>Restart\<close>, \<open>Rejoin\<close> (\<open>run.py\<close> on an existing disk, \<open>sqlite.py\<close>, \<open>gossip.py\<close>): nodes that are stopped
    and built again. Versions, hints and so the guarantees of acknowledged writes outlive any restarts
    between two operations; but the peers believe a restarted node down until its new counter has passed
    the old one, and writes can fail meanwhile. SQLite's commits and the file system are taken as
    they are documented: a stopped node leaves the rows of its tables on the disk.
  \<^item> \<open>Gossip_Worker\<close> (\<open>gossip_worker.py\<close>): start, stop and the background thread as a step relation.

  \<^bold>\<open>The service.\<close>
  \<^item> \<open>Auth\<close> (\<open>auth.py\<close>): the decision on a request, against a policy read off the token table.
  \<^item> \<open>Config\<close> (\<open>config.py\<close>): the settings from the environment.
  \<^item> \<open>Observe\<close> (\<open>audit.py\<close>, \<open>logging_middleware.py\<close>, \<open>recent_ops.py\<close>, \<open>metrics.py\<close>): the
    middlewares as functions from handlers to handlers on a world of cluster, files, loggers and counters.
  \<^item> \<open>Api\<close> (\<open>models.py\<close>, \<open>api/routes.py\<close>): the public routes and the dashboard's view.
  \<^item> \<open>App\<close> (\<open>main.py\<close>, \<open>run.py\<close>): stores, nodes, applications and servers built from the settings. The
    CORS middleware answers preflight requests itself, before the other middlewares.
  \<^item> \<open>Certs\<close> (\<open>scripts/gen_certs.py\<close>, \<open>mtls.py\<close>): the certificates, the TLS contexts, and who gets into
    the internal port. PEM and RSA are abstracted to the record of a certificate and the key that signs it;
    signer, names, validity, the CA flag and the key usages are checked.
  \<^item> \<open>Wire\<close> (\<open>models.py\<close>, the bodies that \<open>node.py\<close> sends): the internal requests as text, with their
    validation; a typed request arrives as it was sent, and no text harms a node.
  \<^item> \<open>Client_View\<close>: the public applications of a calm cluster refine one map from keys to values. A session
    is a list of events, a call or the settling of the requests that earlier calls left under way, and
    the refinement holds for the sessions in which no call starts while such requests are out: nothing in
    the program makes a client wait for them, and a late write can undo a delete.
  \<^item> \<open>Service\<close>, \<open>Deployment\<close>: every answer is accounted for, the token policy is enforced, the
    dashboard never fails, and settings without a warning give overlapping quorums.

  \<^bold>\<open>The scripts.\<close>
  \<^item> \<open>Effects\<close>: steps that may raise, with \<open>try\<close> and \<open>finally\<close>, and what a step leaves alone.
  \<^item> \<open>Bench_Stats\<close>, \<open>Bench\<close>, \<open>Bench_Report\<close> (\<open>bench_stats.py\<close>, \<open>bench_config.py\<close>, \<open>dynamodb_bench*.py\<close>):
    percentiles, the measuring loop, the conditions and the run; the clients, the two files of the report and
    \<open>main\<close>: what it may do to the table, the reports and the override file however it ends, failing calls of
    the control plane included, and that a run without failures finishes. The wait for the table has fuel;
    31 polls are enough, because each sleeps two of the sixty seconds (\<open>wait_returns\<close>).
  \<^item> \<open>Attacks\<close>, \<open>Adversary\<close> (\<open>adversarial_scenarios.py\<close>, \<open>adversarial_testbed.py\<close>): the ten scenarios and
    the harness on a laboratory of containers. The relay loop of scenario 3 takes at most 25 rounds
    (\<open>relay_rounds_enough\<close>).
  \<^item> \<open>Attack_Runs\<close>: what the scenarios 4 to 6 send, on the served applications, with the token check of
    their client requests and a parameter for what pending requests do in between, and their verdicts on a
    calm cluster; with a token that may not write, scenario 4 says the opposite (\<open>replay_needs_token\<close>).
  \<^item> \<open>Join\<close>, \<open>Intrusion\<close>, \<open>Relay\<close>, \<open>At_Rest\<close>, \<open>Auth_Probe\<close>, \<open>Audit_Trail\<close>: what the scenarios 1, 2, 3, 7 and 8,
    9, and 10 send, on the certificates, the cluster, the database files, the served applications and the
    audit logs, with the verdicts that follow and the cases in which a verdict says nothing.

  \<^bold>\<open>Conventions.\<close> A raised exception is an \<open>Inl\<close>. Floats are real numbers; where the code prints one,
  the printer is a parameter. Characters are the first 256 code points. Clock readings, random bytes and
  the schedule are arguments.

  \<^bold>\<open>Not modelled.\<close> Restarts in the middle of a coordinator's operation; FastAPI's dispatch (a call names
  its route) and the validators of \<open>int\<close> and \<open>str\<close> of pydantic, which are parameters; the HTTP client and the thread pool as state; RSA, PEM and the TLS
  records; what the scripts print and the indentation of their JSON files; the tests, the container
  configuration and the React dashboard.
\<close>

end
